(* ===== verification/RW_Prelude.thy ===== *)
theory RW_Prelude
  imports Main "HOL-Library.Word"
begin

text \<open>
  Shared vocabulary of the development: Python strings as lists of code points, byte
  strings, slices, unsigned integers in either byte order (the part of
  \<^verbatim>\<open>struct\<close> the sources use), and the generic lemmas on lists and results that the
  component theories share.
\<close>

section \<open>Proof collections\<close>

named_theorems py_eval \<open>equations that evaluate the models of Python's built-ins\<close>
named_theorems codec_simps \<open>sizes and read-back laws of the fixed-width encodings\<close>

section \<open>Python strings\<close>

text \<open>
  A Python \<^verbatim>\<open>str\<close> is a sequence of Unicode code points. The model keeps the code
  points themselves, so that a non-ASCII digit or space is one character, as in Python.
  \<open>ascii\<close> embeds an Isabelle literal.
\<close>

type_synonym pychar = nat
type_synonym pystr = "pychar list"

definition ascii :: "string \<Rightarrow> pystr" where
  "ascii s = map of_char s"

lemma ascii_Nil [simp, py_eval]: "ascii [] = []"
  by (simp add: ascii_def)

lemma ascii_Cons [simp, py_eval]: "ascii (c # s) = of_char c # ascii s"
  by (simp add: ascii_def)

lemma ascii_append [simp]: "ascii (s @ t) = ascii s @ ascii t"
  by (simp add: ascii_def)

lemma length_ascii [simp]: "length (ascii s) = length s"
  by (simp add: ascii_def)

lemma ascii_inject [simp]: "ascii s = ascii t \<longleftrightarrow> s = t"
  by (simp add: ascii_def inj_map_eq_map inj_on_def)

section \<open>Byte strings\<close>

type_synonym byte = "8 word"
type_synonym bytes = "byte list"

text \<open>\<^verbatim>\<open>data[i:j]\<close> for non-negative bounds: out-of-range bounds are cut, never an error.\<close>

definition py_slice :: "'a list \<Rightarrow> nat \<Rightarrow> nat \<Rightarrow> 'a list" where
  "py_slice xs i j = take (j - i) (drop i xs)"

lemma length_slice [simp]: "length (py_slice xs i j) = min (j - i) (length xs - i)"
  by (simp add: py_slice_def)

lemma slice_append_left: "j \<le> length xs \<Longrightarrow> py_slice (xs @ ys) i j = py_slice xs i j"
  by (simp add: py_slice_def)

lemma slice_append_right:
  "py_slice (xs @ ys) (length xs + i) (length xs + j) = py_slice ys i j"
  by (simp add: py_slice_def)

lemma slice_prefix: "py_slice (xs @ ys) 0 (length xs) = xs"
  by (simp add: py_slice_def)

section \<open>Unsigned integers as bytes\<close>

text \<open>
  \<^verbatim>\<open>int.from_bytes(b, "big")\<close> and its little-endian mirror; \<open>to_be n v\<close> and \<open>to_le n v\<close>
  write the low \<open>n\<close> bytes of \<open>v\<close>.
\<close>

datatype endian = Little | Big

definition from_be :: "bytes \<Rightarrow> nat" where
  "from_be bs = foldl (\<lambda>acc b. 256 * acc + unat b) 0 bs"

definition from_le :: "bytes \<Rightarrow> nat" where
  "from_le bs = foldr (\<lambda>b acc. unat b + 256 * acc) bs 0"

fun to_le :: "nat \<Rightarrow> nat \<Rightarrow> bytes" where
  "to_le 0 v = []"
| "to_le (Suc n) v = of_nat (v mod 256) # to_le n (v div 256)"

definition to_be :: "nat \<Rightarrow> nat \<Rightarrow> bytes" where
  "to_be n v = rev (to_le n v)"

fun from_bytes :: "endian \<Rightarrow> bytes \<Rightarrow> nat" where
  "from_bytes Little bs = from_le bs"
| "from_bytes Big bs = from_be bs"

fun to_bytes :: "endian \<Rightarrow> nat \<Rightarrow> nat \<Rightarrow> bytes" where
  "to_bytes Little n v = to_le n v"
| "to_bytes Big n v = to_be n v"

lemma from_be_Nil [simp]: "from_be [] = 0"
  by (simp add: from_be_def)

lemma from_be_snoc: "from_be (bs @ [b]) = 256 * from_be bs + unat b"
  by (simp add: from_be_def)

lemma from_le_Nil [simp]: "from_le [] = 0"
  by (simp add: from_le_def)

lemma from_le_Cons [simp]: "from_le (b # bs) = unat b + 256 * from_le bs"
  by (simp add: from_le_def)

lemma from_be_rev: "from_be (rev bs) = from_le bs"
  by (simp add: from_be_def from_le_def foldl_conv_foldr add.commute)

lemma length_to_le [simp]: "length (to_le n v) = n"
  by (induction n arbitrary: v) auto

lemma length_to_bytes [simp, codec_simps]: "length (to_bytes e n v) = n"
  by (cases e) (simp_all add: to_be_def)

lemma to_le_numeral [codec_simps]:
  "to_le (numeral k) v = of_nat (v mod 256) # to_le (pred_numeral k) (v div 256)"
  by (simp only: numeral_eq_Suc [of k] to_le.simps)

lemma from_le_to_le: "from_le (to_le n v) = v mod 256 ^ n"
proof (induction n arbitrary: v)
  case 0
  then show ?case by simp
next
  case (Suc n)
  have "unat (of_nat (v mod 256) :: byte) = v mod 256"
    by (simp add: unat_of_nat)
  with Suc show ?case
    by (simp add: mod_mult2_eq)
qed

lemma from_bytes_to_bytes: "from_bytes e (to_bytes e n v) = v mod 256 ^ n"
  by (cases e) (simp_all add: to_be_def from_be_rev from_le_to_le)

lemma from_bytes_to_bytes_fits [codec_simps]:
  "v < 256 ^ n \<Longrightarrow> from_bytes e (to_bytes e n v) = v"
  by (simp add: from_bytes_to_bytes)

lemma from_le_bound: "from_le bs < 256 ^ length bs"
proof (induction bs)
  case Nil
  then show ?case by simp
next
  case (Cons b bs)
  have "unat b < 256" using unsigned_less [of b] by simp
  with Cons show ?case by (simp add: algebra_simps)
qed

lemma from_bytes_bound: "from_bytes e bs < 256 ^ length bs"
  using from_le_bound [of bs] from_le_bound [of "rev bs"] from_be_rev [of "rev bs"]
  by (cases e) simp_all

lemma to_le_from_le: "to_le (length bs) (from_le bs) = bs"
proof (induction bs)
  case Nil
  then show ?case by simp
next
  case (Cons b bs)
  have "unat b < 256" using unsigned_less [of b] by simp
  with Cons show ?case by simp
qed

section \<open>Results\<close>

text \<open>
  A computation that may raise is a value of \<open>'e + 'a\<close>: \<open>Inl\<close> the exception, \<open>Inr\<close> the
  value. \<open>then_do\<close> is sequencing: the first exception ends the computation.
\<close>

fun then_do :: "'e + 'a \<Rightarrow> ('a \<Rightarrow> 'e + 'b) \<Rightarrow> 'e + 'b" where
  "then_do (Inl e) f = Inl e"
| "then_do (Inr a) f = f a"

lemma then_do_Inr_iff: "then_do m f = Inr b \<longleftrightarrow> (\<exists>a. m = Inr a \<and> f a = Inr b)"
  by (cases m) auto

lemma then_do_Inl_iff: "then_do m f = Inl e \<longleftrightarrow> m = Inl e \<or> (\<exists>a. m = Inr a \<and> f a = Inl e)"
  by (cases m) auto

lemma then_do_Inl_cases:
  assumes "then_do m f = Inl e"
  obtains "m = Inl e" | a where "m = Inr a" "f a = Inl e"
  using assms by (cases m) auto

lemma then_do_cong [fundef_cong]:
  "m = m' \<Longrightarrow> (\<And>a. m' = Inr a \<Longrightarrow> f a = f' a) \<Longrightarrow> then_do m f = then_do m' f'"
  by (cases m') auto

section \<open>Lists\<close>

lemma takeWhile_append_stop:
  "\<forall>x \<in> set xs. P x \<Longrightarrow> (ys = [] \<or> \<not> P (hd ys)) \<Longrightarrow> takeWhile P (xs @ ys) = xs"
  by (induction xs) (auto simp: takeWhile_eq_Nil_iff)

lemma drop_append_length: "drop (length xs) (xs @ ys) = ys"
  by simp

end
