(* ===== verification/Py_Regex.thy ===== *)
theory Py_Regex
  imports RW_Prelude
begin

text \<open>
  The part of Python's text handling the filter compiler rests on: the character classes
  of \<^verbatim>\<open>re\<close> on \<^verbatim>\<open>str\<close> patterns, the priority-ordered (greedy, backtracking) matching of
  the regular-expression fragment its token pattern is written in, and \<^verbatim>\<open>int()\<close> on a
  string of decimal digits, with the interpreter's limit on its length.
\<close>

section \<open>Character classes\<close>

text \<open>
  \<^verbatim>\<open>\d\<close> on a \<^verbatim>\<open>str\<close> pattern is the Unicode category Nd, not ASCII: 68 runs of ten
  consecutive code points in Unicode 15 (Python 3.12 and 3.13), each starting with its
  zero. \<^verbatim>\<open>\s\<close> is \<^verbatim>\<open>str.isspace\<close>. The letter classes of the pattern are written out as
  ASCII ranges.
\<close>

definition nd_zeros :: "nat list" where
  "nd_zeros =
    [48, 1632, 1776, 1984, 2406, 2534, 2662, 2790, 2918, 3046, 3174, 3302, 3430, 3558,
     3664, 3792, 3872, 4160, 4240, 6112, 6160, 6470, 6608, 6784, 6800, 6992, 7088, 7232,
     7248, 42528, 43216, 43264, 43472, 43504, 43600, 44016, 65296, 66720, 68912, 69734,
     69872, 69942, 70096, 70384, 70736, 70864, 71248, 71360, 71472, 71904, 72016, 72784,
     73040, 73120, 73552, 92768, 92864, 93008, 120782, 120792, 120802, 120812, 120822,
     123200, 123632, 124144, 125264, 130032]"

fun zero_of :: "nat list \<Rightarrow> pychar \<Rightarrow> nat option" where
  "zero_of [] c = None"
| "zero_of (z # zs) c = (if z \<le> c \<and> c < z + 10 then Some z else zero_of zs c)"

definition is_digit :: "pychar \<Rightarrow> bool" where
  "is_digit c \<longleftrightarrow> zero_of nd_zeros c \<noteq> None"

definition digit_value :: "pychar \<Rightarrow> nat" where
  "digit_value c = (case zero_of nd_zeros c of None \<Rightarrow> 0 | Some z \<Rightarrow> c - z)"

definition is_space :: "pychar \<Rightarrow> bool" where
  "is_space c \<longleftrightarrow>
     (9 \<le> c \<and> c \<le> 13) \<or> (28 \<le> c \<and> c \<le> 32) \<or> c = 133 \<or> c = 160 \<or> c = 5760 \<or>
     (8192 \<le> c \<and> c \<le> 8202) \<or> c = 8232 \<or> c = 8233 \<or> c = 8239 \<or> c = 8287 \<or> c = 12288"

definition is_alpha :: "pychar \<Rightarrow> bool" where
  "is_alpha c \<longleftrightarrow> (97 \<le> c \<and> c \<le> 122) \<or> (65 \<le> c \<and> c \<le> 90)"

definition is_alnum :: "pychar \<Rightarrow> bool" where
  "is_alnum c \<longleftrightarrow> is_alpha c \<or> (48 \<le> c \<and> c \<le> 57)"

lemmas char_class_defs =
  is_space_def is_alpha_def is_alnum_def is_digit_def nd_zeros_def

lemma ascii_digit_is_digit: "d < 10 \<Longrightarrow> is_digit (48 + d)"
  by (simp add: is_digit_def nd_zeros_def)

lemma digit_value_ascii: "d < 10 \<Longrightarrow> digit_value (48 + d) = d"
  by (simp add: digit_value_def nd_zeros_def)

lemma zero_of_bounds: "zero_of zs c = Some z \<Longrightarrow> z \<in> set zs \<and> z \<le> c \<and> c < z + 10"
  by (induction zs) (auto split: if_splits)

lemma digit_value_less_10: "digit_value c < 10"
  by (auto simp: digit_value_def split: option.split dest: zero_of_bounds)

lemma nd_zeros_class: "\<forall>z \<in> set nd_zeros. z = 48 \<or> 1632 \<le> z"
  by (simp add: nd_zeros_def)

lemma digit_class: "is_digit c \<Longrightarrow> (48 \<le> c \<and> c \<le> 57) \<or> 1632 \<le> c"
  using nd_zeros_class zero_of_bounds [of nd_zeros c] by (fastforce simp: is_digit_def)

lemma letter_not_digit: "is_alpha c \<Longrightarrow> \<not> is_digit c"
  using digit_class [of c] by (auto simp: is_alpha_def)

lemma letter_not_space: "is_alpha c \<Longrightarrow> \<not> is_space c"
  by (auto simp: is_alpha_def is_space_def)

section \<open>Regular expressions by match priority\<close>

text \<open>
  Python's \<^verbatim>\<open>re\<close> tries the alternatives of a pattern in order and each repetition
  greedily, and backtracks. The matches of a pattern at the start of a string are
  therefore an ordered list; \<^verbatim>\<open>match\<close> returns the first. \<open>matches r s\<close> is that list, as
  lengths. The repetitions of the token pattern all repeat one character class:
  \<open>Rep P lo hi\<close> is \<^verbatim>\<open>[class]{lo,hi}\<close>, with \<open>None\<close> for an open upper bound.
\<close>

datatype regex =
    Cls "pychar \<Rightarrow> bool"
  | Rep "pychar \<Rightarrow> bool" nat "nat option"
  | Seq regex regex

definition run_length :: "(pychar \<Rightarrow> bool) \<Rightarrow> pystr \<Rightarrow> nat" where
  "run_length P s = length (takeWhile P s)"

fun matches :: "regex \<Rightarrow> pystr \<Rightarrow> nat list" where
  "matches (Cls P) s = (case s of [] \<Rightarrow> [] | c # _ \<Rightarrow> if P c then [1] else [])"
| "matches (Rep P lo hi) s =
     (let n = run_length P s; top = (case hi of None \<Rightarrow> n | Some h \<Rightarrow> min h n)
      in rev [lo ..< Suc top])"
| "matches (Seq r q) s =
     concat (map (\<lambda>m. map (\<lambda>k. m + k) (matches q (drop m s))) (matches r s))"

fun first_match :: "('g \<times> regex) list \<Rightarrow> pystr \<Rightarrow> ('g \<times> nat) option" where
  "first_match [] s = None"
| "first_match ((g, r) # alts) s =
     (case matches r s of [] \<Rightarrow> first_match alts s | m # _ \<Rightarrow> Some (g, m))"

fun min_len :: "regex \<Rightarrow> nat" where
  "min_len (Cls P) = 1"
| "min_len (Rep P lo hi) = lo"
| "min_len (Seq r q) = min_len r + min_len q"

lemma run_length_le [simp]: "run_length P s \<le> length s"
  by (simp add: run_length_def length_takeWhile_le)

lemma matches_bounds: "m \<in> set (matches r s) \<Longrightarrow> min_len r \<le> m \<and> m \<le> length s"
proof (induction r arbitrary: m s)
  case (Cls P)
  then show ?case by (cases s) (auto split: if_splits)
next
  case (Rep P lo hi)
  then show ?case
    using run_length_le [of P s]
    by (auto simp: Let_def simp del: run_length_le split: option.splits)
next
  case (Seq r q)
  from Seq.prems obtain i k where ik: "i \<in> set (matches r s)"
      "k \<in> set (matches q (drop i s))" "m = i + k"
    by auto
  from Seq.IH(1) [OF ik(1)] Seq.IH(2) [OF ik(2)] ik(3) show ?case
    by auto
qed

lemma first_match_bounds:
  "first_match alts s = Some (g, m) \<Longrightarrow> \<forall>(h, r) \<in> set alts. 0 < min_len r
    \<Longrightarrow> 0 < m \<and> m \<le> length s"
proof (induction alts)
  case Nil
  then show ?case by simp
next
  case (Cons a alts)
  obtain h r where a: "a = (h, r)" by force
  show ?case
  proof (cases "matches r s")
    case Nil
    with Cons a show ?thesis by auto
  next
    case (Cons k ks)
    then have "k \<in> set (matches r s)" by simp
    from matches_bounds [OF this] Cons Cons.prems a show ?thesis by auto
  qed
qed

section \<open>\<^verbatim>\<open>int()\<close> on a string of digits\<close>

text \<open>
  \<^verbatim>\<open>int(text)\<close> for a text of decimal digits (of any script); \<open>None\<close> is its
  \<^verbatim>\<open>ValueError\<close>. (The other texts \<^verbatim>\<open>int()\<close> reads, with signs, spaces or underscores,
  are not texts of a number token.) Since Python 3.11 (and the
  security releases before it) a string of more than 4300 digits raises \<^verbatim>\<open>ValueError\<close>,
  leading zeros included: \<^verbatim>\<open>sys.int_info.default_max_str_digits\<close>.
\<close>

definition max_str_digits :: nat where
  "max_str_digits = 4300"

definition digits_value :: "pystr \<Rightarrow> nat" where
  "digits_value s = foldl (\<lambda>acc c. 10 * acc + digit_value c) 0 s"

definition int_of_digits :: "pystr \<Rightarrow> nat option" where
  "int_of_digits s =
     (if s = [] \<or> \<not> list_all is_digit s \<or> length s > max_str_digits then None
      else Some (digits_value s))"

lemma digits_value_Nil [simp]: "digits_value [] = 0"
  by (simp add: digits_value_def)

lemma digits_value_snoc: "digits_value (s @ [c]) = 10 * digits_value s + digit_value c"
  by (simp add: digits_value_def)

lemma digits_value_bound: "digits_value s < 10 ^ length s"
proof (induction s rule: rev_induct)
  case Nil
  then show ?case by simp
next
  case (snoc c s)
  then show ?case using digit_value_less_10 [of c] by (simp add: digits_value_snoc)
qed

text \<open>The decimal writer \<^verbatim>\<open>str(n)\<close>, and that \<^verbatim>\<open>int()\<close> reads it back.\<close>

fun decimal :: "nat \<Rightarrow> pystr" where
  "decimal n = (if n < 10 then [48 + n] else decimal (n div 10) @ [48 + n mod 10])"

declare decimal.simps [simp del]

lemma decimal_digits: "\<forall>c \<in> set (decimal n). is_digit c \<and> 48 \<le> c \<and> c \<le> 57"
proof (induction n rule: decimal.induct)
  case (1 n)
  then show ?case
    by (subst decimal.simps) (auto simp: ascii_digit_is_digit)
qed

lemma decimal_nonempty [simp]: "decimal n \<noteq> []"
  by (subst decimal.simps) simp

lemma digits_value_decimal: "digits_value (decimal n) = n"
proof (induction n rule: decimal.induct)
  case (1 n)
  show ?case
  proof (cases "n < 10")
    case True
    have "digits_value ([] @ [48 + n]) = n"
      using True by (simp only: digits_value_snoc digit_value_ascii) simp
    with True show ?thesis by (simp add: decimal.simps [of n])
  next
    case False
    have "digit_value (48 + n mod 10) = n mod 10"
      by (rule digit_value_ascii) simp
    with 1 False show ?thesis
      by (simp add: decimal.simps [of n] digits_value_snoc)
  qed
qed

lemma length_decimal: "n < 10 ^ k \<Longrightarrow> 0 < k \<Longrightarrow> length (decimal n) \<le> k"
proof (induction n arbitrary: k rule: decimal.induct)
  case (1 n)
  show ?case
  proof (cases "n < 10")
    case True
    with 1 show ?thesis by (simp add: decimal.simps [of n])
  next
    case False
    with "1.prems" obtain j where k: "k = Suc j" and "0 < j"
      by (cases k; cases "k - 1") auto
    with "1.prems" have "n div 10 < 10 ^ j" by auto
    with "1.IH" [OF False this \<open>0 < j\<close>] False k show ?thesis
      by (simp add: decimal.simps [of n])
  qed
qed

end
