(* ===== verification/Bpf_Lexer.thy ===== *)
theory Bpf_Lexer
  imports Py_Regex
begin

text \<open>
  The lexer of \<^verbatim>\<open>src/rootwire/bpf_compiler.py\<close>: the token pattern, \<^verbatim>\<open>_Token\<close> and
  \<^verbatim>\<open>_tokenize\<close>, with the rendering of a token list as an expression text and the proof
  that the lexer reads a rendering back.
\<close>

section \<open>Errors\<close>

text \<open>
  The exceptions of the compiler. \<open>BPFCompileError\<close> carries which check raised it (one
  constructor per \<^verbatim>\<open>raise\<close> of the module, with the values its message shows);
  \<open>IntDigitsError\<close> is the plain \<^verbatim>\<open>ValueError\<close> of \<^verbatim>\<open>int()\<close> on an over-long digit string,
  which the module does not catch, and \<open>LabelKeyError\<close> the \<^verbatim>\<open>KeyError\<close> a jump to a label
  that was never placed would raise.
\<close>

datatype compile_reason =
    UnexpectedCharacter pychar nat
  | EmptyExpression
  | UnexpectedToken pystr
  | UnexpectedEnd
  | UnclosedParen
  | PrimitiveExpectedAfter pystr
  | PrimitiveExpected
  | UnknownPrimitive pystr
  | PrimitiveExpectedFound pystr
  | AddressExpected "pystr option"
  | InvalidAddress pystr
  | PortExpected "pystr option"
  | PortOutOfRange nat
  | JumpTooFar int

datatype compile_error =
    BPFCompileError compile_reason
  | IntDigitsError
  | LabelKeyError

fun is_compile_error :: "compile_error \<Rightarrow> bool" where
  "is_compile_error (BPFCompileError r) = True"
| "is_compile_error IntDigitsError = False"
| "is_compile_error LabelKeyError = False"

section \<open>Tokens\<close>

datatype token_kind = K_ipv4 | K_number | K_word | K_lparen | K_rparen | K_space

record Token =
  token_kind :: token_kind
  token_text :: pystr

definition DOT :: pychar where "DOT = 46"
definition LPAREN :: pychar where "LPAREN = 40"
definition RPAREN :: pychar where "RPAREN = 41"

lemmas punct_defs = DOT_def LPAREN_def RPAREN_def

abbreviation digits_1_3 :: regex where
  "digits_1_3 \<equiv> Rep is_digit (Suc 0) (Some 3)"

abbreviation lit :: "pychar \<Rightarrow> regex" where
  "lit c \<equiv> Cls (\<lambda>x. x = c)"

definition ipv4_re :: regex where
  "ipv4_re =
     Seq digits_1_3 (Seq (lit DOT) (Seq digits_1_3 (Seq (lit DOT)
       (Seq digits_1_3 (Seq (lit DOT) digits_1_3)))))"

definition TOKEN_RE :: "(token_kind \<times> regex) list" where
  "TOKEN_RE =
    [(K_ipv4, ipv4_re),
     (K_number, Rep is_digit (Suc 0) None),
     (K_word, Seq (Cls is_alpha) (Rep is_alnum 0 None)),
     (K_lparen, lit LPAREN),
     (K_rparen, lit RPAREN),
     (K_space, Rep is_space (Suc 0) None)]"

lemma TOKEN_RE_consumes: "\<forall>(g, r) \<in> set TOKEN_RE. 0 < min_len r"
  by (simp add: TOKEN_RE_def ipv4_re_def)

lemma token_match_bounds:
  "first_match TOKEN_RE s = Some (g, m) \<Longrightarrow> 0 < m \<and> m \<le> length s"
  by (rule first_match_bounds [OF _ TOKEN_RE_consumes])

section \<open>\<^verbatim>\<open>_tokenize\<close>\<close>

text \<open>The loop of \<^verbatim>\<open>_tokenize\<close>, from position \<open>pos\<close> with the tokens read so far.\<close>

function tokenize_from :: "pystr \<Rightarrow> nat \<Rightarrow> Token list \<Rightarrow> compile_error + Token list" where
  "tokenize_from expr pos tokens =
     (if pos < length expr then
        case first_match TOKEN_RE (drop pos expr) of
          None \<Rightarrow> Inl (BPFCompileError (UnexpectedCharacter (expr ! pos) pos))
        | Some (kind, m) \<Rightarrow>
            tokenize_from expr (pos + m)
              (if kind \<noteq> K_space
               then tokens @ [\<lparr>token_kind = kind, token_text = py_slice expr pos (pos + m)\<rparr>]
               else tokens)
      else Inr tokens)"
  by pat_completeness auto
termination
  by (relation "measure (\<lambda>(expr, pos, tokens). length expr - pos)")
    (auto dest: token_match_bounds)

declare tokenize_from.simps [simp del]

definition tokenize :: "pystr \<Rightarrow> compile_error + Token list" where
  "tokenize expr = tokenize_from expr 0 []"

section \<open>What one match reads\<close>

text \<open>
  The address alternative backtracks only inside its digit groups, and no shorter group
  can succeed: what follows it is a digit, not a dot.
\<close>

lemma run_length_nth: "i < run_length P s \<Longrightarrow> P (s ! i)"
  unfolding run_length_def by (metis nth_mem set_takeWhileD takeWhile_nth)

lemma run_length_end: "run_length P s < length s \<Longrightarrow> \<not> P (s ! run_length P s)"
  by (simp add: run_length_def nth_length_takeWhile)

lemma DOT_not_digit: "\<not> is_digit DOT"
  by (simp add: is_digit_def nd_zeros_def DOT_def)

lemma lit_digit_empty:
  "i < run_length is_digit s \<Longrightarrow> matches (Seq (lit DOT) q) (drop i s) = []"
proof -
  assume i: "i < run_length is_digit s"
  then have "i < length s" using run_length_le [of is_digit s] by (simp del: run_length_le)
  then have "drop i s = s ! i # drop (Suc i) s" by (simp add: Cons_nth_drop_Suc)
  moreover have "s ! i \<noteq> DOT" using run_length_nth [OF i] DOT_not_digit by auto
  ultimately show ?thesis by simp
qed

definition dot_after :: "nat \<Rightarrow> pystr \<Rightarrow> bool" where
  "dot_after n s \<longleftrightarrow> 1 \<le> n \<and> n \<le> 3 \<and> n < length s \<and> s ! n = DOT"

lemma digits_dot_matches:
  "matches (Seq digits_1_3 (Seq (lit DOT) q)) s =
     (let n = run_length is_digit s
      in if dot_after n s then map (\<lambda>k. Suc (n + k)) (matches q (drop (Suc n) s)) else [])"
proof -
  define n where "n = run_length is_digit s"
  let ?f = "\<lambda>m. map (\<lambda>k. m + k) (matches (Seq (lit DOT) q) (drop m s))"
  have short: "concat (map ?f (rev [1 ..< m])) = []" if "m \<le> n" for m
    using that lit_digit_empty [of _ s q] by (auto simp: n_def)
  show ?thesis
  proof (cases "1 \<le> n \<and> n \<le> 3")
    case True
    then have "min 3 n = n" by simp
    with True have "rev [1 ..< Suc (min 3 n)] = n # rev [1 ..< n]" by simp
    then have "matches (Seq digits_1_3 (Seq (lit DOT) q)) s = ?f n"
      using short [of n] True by (simp add: n_def [symmetric])
    also have "\<dots> = (if dot_after n s then map (\<lambda>k. Suc (n + k)) (matches q (drop (Suc n) s)) else [])"
    proof (cases "n < length s")
      case True
      then have "drop n s = s ! n # drop (Suc n) s" by (simp add: Cons_nth_drop_Suc)
      with True \<open>1 \<le> n \<and> n \<le> 3\<close> show ?thesis
        by (simp add: dot_after_def o_def)
    next
      case False
      then show ?thesis by (simp add: dot_after_def)
    qed
    finally show ?thesis by (simp add: n_def Let_def)
  next
    case False
    then have top: "Suc (min 3 n) \<le> n \<or> n = 0" by auto
    have "concat (map ?f (rev [1 ..< Suc (min 3 n)])) = []"
    proof (cases "n = 0")
      case True
      then show ?thesis by simp
    next
      case False
      with top show ?thesis by (intro short) simp
    qed
    then have "matches (Seq digits_1_3 (Seq (lit DOT) q)) s = []"
      by (simp add: n_def [symmetric] del: upt_Suc matches.simps(1))
    then show ?thesis using False by (auto simp: n_def dot_after_def Let_def)
  qed
qed

section \<open>The lexer drops white space and nothing else\<close>

fun class_of :: "regex \<Rightarrow> pychar \<Rightarrow> bool" where
  "class_of (Cls P) c \<longleftrightarrow> P c"
| "class_of (Rep P lo hi) c \<longleftrightarrow> P c"
| "class_of (Seq r q) c \<longleftrightarrow> class_of r c \<or> class_of q c"

lemma matches_class: "m \<in> set (matches r s) \<Longrightarrow> c \<in> set (take m s) \<Longrightarrow> class_of r c"
proof (induction r arbitrary: m s)
  case (Cls P)
  then show ?case by (cases s) (auto split: if_splits)
next
  case (Rep P lo hi)
  then have "m \<le> run_length P s"
    by (auto simp: Let_def min_def split: option.splits if_splits)
  then have "take m s = take m (takeWhile P s)"
    by (metis run_length_def min.absorb1 take_take takeWhile_eq_take)
  with Rep.prems(2) show ?case by (auto dest: in_set_takeD set_takeWhileD)
next
  case (Seq r q)
  from Seq.prems(1) obtain i k where ik: "i \<in> set (matches r s)"
      "k \<in> set (matches q (drop i s))" "m = i + k"
    by auto
  with Seq.prems(2) have "c \<in> set (take i s) \<or> c \<in> set (take k (drop i s))"
    by (auto simp: take_add)
  with Seq.IH ik show ?case by auto
qed

lemma first_match_class:
  "first_match alts s = Some (g, m) \<Longrightarrow> \<exists>r. (g, r) \<in> set alts \<and> m \<in> set (matches r s)"
  by (induction alts) (fastforce split: list.splits)+

lemma first_match_None:
  "first_match alts s = None \<longleftrightarrow> (\<forall>(g, r) \<in> set alts. matches r s = [])"
  by (induction alts) (auto split: list.splits)

lemma token_classes:
  assumes "(g, r) \<in> set TOKEN_RE" and "class_of r c"
  shows "if g = K_space then is_space c else \<not> is_space c"
proof -
  have d: "\<not> is_space x" if "is_digit x" for x
    using digit_class [OF that] that by (auto simp: is_space_def is_digit_def nd_zeros_def)
  have a: "\<not> is_space x" if "is_alnum x" for x
    using that by (auto simp: is_alnum_def is_alpha_def is_space_def)
  have p: "\<not> is_space DOT" "\<not> is_space LPAREN" "\<not> is_space RPAREN"
    by (simp_all add: is_space_def punct_defs)
  show ?thesis
    using assms d a p letter_not_space by (auto simp: TOKEN_RE_def ipv4_re_def)
qed

lemma token_match_text:
  assumes "first_match TOKEN_RE s = Some (g, m)"
  shows "filter (\<lambda>c. \<not> is_space c) (take m s) = (if g = K_space then [] else take m s)"
proof -
  from first_match_class [OF assms] obtain r where
    "(g, r) \<in> set TOKEN_RE" "m \<in> set (matches r s)" by blast
  then have "\<forall>c \<in> set (take m s). if g = K_space then is_space c else \<not> is_space c"
    using token_classes matches_class by blast
  then show ?thesis by (cases "g = K_space") (auto simp: filter_empty_conv filter_id_conv)
qed

definition spell :: "Token list \<Rightarrow> pystr" where
  "spell tokens = concat (map token_text tokens)"

lemma spell_append [simp]: "spell (ts @ us) = spell ts @ spell us"
  by (simp add: spell_def)

lemma tokenize_from_spell:
  "tokenize_from expr pos tokens = Inr ts \<Longrightarrow>
    spell ts = spell tokens @ filter (\<lambda>c. \<not> is_space c) (drop pos expr)"
proof (induction expr pos tokens rule: tokenize_from.induct)
  case (1 expr pos tokens)
  show ?case
  proof (cases "pos < length expr")
    case False
    with "1.prems" show ?thesis by (simp add: tokenize_from.simps [of expr])
  next
    case True
    with "1.prems" obtain k m where km: "first_match TOKEN_RE (drop pos expr) = Some (k, m)"
      by (auto simp: tokenize_from.simps [of expr pos] split: option.splits)
    have split: "drop pos expr = take m (drop pos expr) @ drop (pos + m) expr"
      by (metis append_take_drop_id drop_drop add.commute)
    have "filter (\<lambda>c. \<not> is_space c) (drop pos expr) =
        (if k = K_space then [] else take m (drop pos expr))
          @ filter (\<lambda>c. \<not> is_space c) (drop (pos + m) expr)"
      by (subst split) (simp add: token_match_text [OF km])
    with "1.IH" [OF True km refl] "1.prems" True km show ?thesis
      by (simp add: tokenize_from.simps [of expr pos] py_slice_def spell_def split: if_splits)
  qed
qed

lemma tokenize_spell:
  "tokenize expr = Inr ts \<Longrightarrow> spell ts = filter (\<lambda>c. \<not> is_space c) expr"
  using tokenize_from_spell [of expr 0 "[]" ts] by (simp add: tokenize_def spell_def)

section \<open>The shape of the tokens\<close>

definition digit_group :: "pystr \<Rightarrow> bool" where
  "digit_group d \<longleftrightarrow> 1 \<le> length d \<and> length d \<le> 3 \<and> list_all is_digit d"

definition dotted_quad :: "pystr \<Rightarrow> pystr \<Rightarrow> pystr \<Rightarrow> pystr \<Rightarrow> pystr" where
  "dotted_quad a b c d = a @ DOT # b @ DOT # c @ DOT # d"

fun wf_token_text :: "token_kind \<Rightarrow> pystr \<Rightarrow> bool" where
  "wf_token_text K_ipv4 t \<longleftrightarrow>
     (\<exists>a b c d. t = dotted_quad a b c d \<and> digit_group a \<and> digit_group b \<and>
        digit_group c \<and> digit_group d)"
| "wf_token_text K_number t \<longleftrightarrow> t \<noteq> [] \<and> list_all is_digit t"
| "wf_token_text K_word t \<longleftrightarrow> t \<noteq> [] \<and> is_alpha (hd t) \<and> list_all is_alnum (tl t)"
| "wf_token_text K_lparen t \<longleftrightarrow> t = [LPAREN]"
| "wf_token_text K_rparen t \<longleftrightarrow> t = [RPAREN]"
| "wf_token_text K_space t \<longleftrightarrow> False"

definition wf_token :: "Token \<Rightarrow> bool" where
  "wf_token t \<longleftrightarrow> wf_token_text (token_kind t) (token_text t)"

lemma matches_SeqE:
  assumes "m \<in> set (matches (Seq r q) s)"
  obtains i k where "i \<in> set (matches r s)" "k \<in> set (matches q (drop i s))" "m = i + k"
  using assms by auto

lemma matches_Seq_take:
  assumes "m \<in> set (matches (Seq r q) s)"
  shows "\<exists>i k. i \<in> set (matches r s) \<and> k \<in> set (matches q (drop i s)) \<and>
      take m s = take i s @ take k (drop i s)"
  using assms by (rule matches_SeqE) (auto simp: take_add simp del: matches.simps)

lemma take_run: "m \<le> run_length P s \<Longrightarrow> list_all P (take m s) \<and> length (take m s) = m"
proof -
  assume m: "m \<le> run_length P s"
  then have "m \<le> length s" using run_length_le [of P s] by (simp del: run_length_le)
  moreover have "P (take m s ! i)" if "i < m" for i
    using run_length_nth [of i P s] that m by simp
  ultimately show ?thesis by (auto simp: list_all_length)
qed

lemma matches_Rep_take:
  "m \<in> set (matches (Rep P lo hi) s) \<Longrightarrow>
    list_all P (take m s) \<and> lo \<le> length (take m s) \<and>
    (case hi of None \<Rightarrow> True | Some h \<Rightarrow> length (take m s) \<le> h)"
  using take_run [of m P s] run_length_le [of P s]
  by (auto simp: Let_def simp del: run_length_le split: option.splits)

lemma matches_lit_take: "m \<in> set (matches (lit c) s) \<Longrightarrow> take m s = [c]"
  by (cases s) (auto split: if_splits)

lemma matches_digit_group: "m \<in> set (matches digits_1_3 s) \<Longrightarrow> digit_group (take m s)"
  using matches_Rep_take [of m is_digit "Suc 0" "Some 3" s] by (auto simp: digit_group_def)

lemma matches_ipv4_take:
  assumes "m \<in> set (matches ipv4_re s)"
  shows "wf_token_text K_ipv4 (take m s)"
proof -
  have step: "\<exists>g k s'. digit_group g \<and> k \<in> set (matches q s') \<and> take m s = g @ DOT # take k s'"
    if "m \<in> set (matches (Seq digits_1_3 (Seq (lit DOT) q)) s)" for m s q
  proof -
    from that obtain i j k where i: "i \<in> set (matches digits_1_3 s)"
      and j: "j \<in> set (matches (lit DOT) (drop i s))"
      and k: "k \<in> set (matches q (drop j (drop i s)))" and m: "m = i + (j + k)"
      by (elim matches_SeqE) blast
    have "take m s = take i s @ take j (drop i s) @ take k (drop j (drop i s))"
      by (simp add: m take_add add.commute)
    with matches_digit_group [OF i] matches_lit_take [OF j] k show ?thesis by auto
  qed
  from step [OF assms [unfolded ipv4_re_def]] obtain a k1 s1 where
    a: "digit_group a" "take m s = a @ DOT # take k1 s1"
    and k1: "k1 \<in> set (matches (Seq digits_1_3 (Seq (lit DOT) (Seq digits_1_3
              (Seq (lit DOT) digits_1_3)))) s1)"
    by blast
  from step [OF k1] obtain b k2 s2 where
    b: "digit_group b" "take k1 s1 = b @ DOT # take k2 s2"
    and k2: "k2 \<in> set (matches (Seq digits_1_3 (Seq (lit DOT) digits_1_3)) s2)"
    by blast
  from step [OF k2] obtain c k3 s3 where
    c: "digit_group c" "take k2 s2 = c @ DOT # take k3 s3"
    and k3: "k3 \<in> set (matches digits_1_3 s3)"
    by blast
  from a b c matches_digit_group [OF k3] show ?thesis
    by (auto simp: dotted_quad_def)
qed

lemma token_match_wf:
  assumes "first_match TOKEN_RE s = Some (g, m)" and "g \<noteq> K_space"
  shows "wf_token_text g (take m s)"
proof -
  from first_match_class [OF assms(1)] obtain r where
    r: "(g, r) \<in> set TOKEN_RE" "m \<in> set (matches r s)" by blast
  have word: "wf_token_text K_word (take m s)"
    if m: "m \<in> set (matches (Seq (Cls is_alpha) (Rep is_alnum 0 None)) s)"
  proof -
    from matches_Seq_take [OF m] obtain i k where
      "i \<in> set (matches (Cls is_alpha) s)" "k \<in> set (matches (Rep is_alnum 0 None) (drop i s))"
      "take m s = take i s @ take k (drop i s)" by blast
    with matches_Rep_take [of k is_alnum 0 None "drop i s"] show ?thesis
      by (cases s) (auto split: if_splits)
  qed
  have number: "wf_token_text K_number (take m s)" if "m \<in> set (matches (Rep is_digit (Suc 0) None) s)"
    using matches_Rep_take [OF that] by auto
  show ?thesis
    using r assms(2) word number matches_ipv4_take matches_lit_take
    by (auto simp: TOKEN_RE_def simp del: matches.simps)
qed

text \<open>What every match has, every token has.\<close>

lemma tokenize_from_all:
  "tokenize_from expr pos tokens = Inr ts \<Longrightarrow>
     (\<And>k m p. first_match TOKEN_RE (drop p expr) = Some (k, m) \<Longrightarrow> k \<noteq> K_space \<Longrightarrow>
       P \<lparr>token_kind = k, token_text = take m (drop p expr)\<rparr>) \<Longrightarrow>
     list_all P tokens \<Longrightarrow> list_all P ts"
proof (induction expr pos tokens rule: tokenize_from.induct)
  case (1 expr pos tokens)
  show ?case
  proof (cases "pos < length expr")
    case False
    with "1.prems" show ?thesis by (simp add: tokenize_from.simps [of expr])
  next
    case True
    with "1.prems" obtain k m where km: "first_match TOKEN_RE (drop pos expr) = Some (k, m)"
      by (auto simp: tokenize_from.simps [of expr pos] split: option.splits)
    have "k \<noteq> K_space \<Longrightarrow> P \<lparr>token_kind = k, token_text = py_slice expr pos (pos + m)\<rparr>"
      using "1.prems"(2) [OF km] by (simp add: py_slice_def)
    with "1.IH" [OF True km refl] "1.prems" True km show ?thesis
      by (simp add: tokenize_from.simps [of expr pos] split: if_splits)
  qed
qed

lemma tokenize_wf: "tokenize expr = Inr ts \<Longrightarrow> list_all wf_token ts"
  using tokenize_from_all [of expr 0 "[]" ts wf_token] token_match_wf
  by (fastforce simp: tokenize_def wf_token_def)

lemma tokenize_slices:
  assumes "tokenize expr = Inr ts" "t \<in> set ts"
  shows "\<exists>before behind. expr = before @ token_text t @ behind"
proof -
  have slice: "\<exists>before behind. expr = before @ take m (drop p expr) @ behind" for m p
    by (intro exI [of _ "take p expr"] exI [of _ "drop m (drop p expr)"]) (simp only: append_take_drop_id)
  have "list_all (\<lambda>t. \<exists>before behind. expr = before @ token_text t @ behind) ts"
    using assms(1) slice by (intro tokenize_from_all [of expr 0 "[]" ts]) (simp_all add: tokenize_def)
  with assms(2) show ?thesis by (simp add: list_all_iff)
qed

section \<open>Lexing what was rendered\<close>

text \<open>A token list as an expression text: each token followed by one space.\<close>

definition SPACE :: pychar where "SPACE = 32"

fun render :: "Token list \<Rightarrow> pystr" where
  "render [] = []"
| "render (t # ts) = token_text t @ SPACE # render ts"

lemma run_length_append:
  "list_all P xs \<Longrightarrow> (ys = [] \<or> \<not> P (hd ys)) \<Longrightarrow> run_length P (xs @ ys) = length xs"
  using takeWhile_append_stop [of xs P ys] by (simp add: run_length_def list_all_iff)

lemma space_classes: "is_space SPACE" "\<not> is_digit SPACE" "\<not> is_alpha SPACE" "\<not> is_alnum SPACE"
  "SPACE \<noteq> DOT" "SPACE \<noteq> LPAREN" "SPACE \<noteq> RPAREN"
  by (simp_all add: SPACE_def char_class_defs punct_defs)

lemma paren_classes: "\<not> is_digit LPAREN" "\<not> is_alpha LPAREN" "\<not> is_digit RPAREN" "\<not> is_alpha RPAREN"
  "LPAREN \<noteq> RPAREN" "\<not> is_space LPAREN" "\<not> is_space RPAREN"
  by (simp_all add: char_class_defs punct_defs)

lemma digits_dot_group:
  assumes "digit_group d"
  shows "matches (Seq digits_1_3 (Seq (lit DOT) q)) (d @ DOT # s) =
           map (\<lambda>k. Suc (length d + k)) (matches q s)"
proof -
  have "run_length is_digit (d @ DOT # s) = length d"
    using assms DOT_not_digit by (intro run_length_append) (auto simp: digit_group_def)
  moreover have "dot_after (length d) (d @ DOT # s)"
    using assms by (simp add: dot_after_def digit_group_def nth_append)
  ultimately show ?thesis by (simp add: digits_dot_matches Let_def del: matches.simps)
qed

lemma digits_dot_none:
  "dot_after (run_length is_digit s) s \<or> matches (Seq digits_1_3 (Seq (lit DOT) q)) s = []"
  by (simp add: digits_dot_matches Let_def del: matches.simps)

lemma ipv4_none:
  "\<not> dot_after (run_length is_digit s) s \<Longrightarrow> matches ipv4_re s = []"
  using digits_dot_none unfolding ipv4_re_def by blast

lemma last_group_matches:
  assumes "digit_group d"
  shows "matches digits_1_3 (d @ SPACE # s) = rev [1 ..< Suc (length d)]"
proof -
  have "run_length is_digit (d @ SPACE # s) = length d"
    using assms space_classes by (intro run_length_append) (auto simp: digit_group_def)
  moreover have "min 3 (length d) = length d"
    using assms by (simp add: digit_group_def)
  ultimately show ?thesis by (simp add: Let_def del: upt_Suc)
qed

lemma ipv4_first:
  assumes "digit_group a" "digit_group b" "digit_group c" "digit_group d"
  shows "\<exists>ms. matches ipv4_re (dotted_quad a b c d @ SPACE # s) =
           length (dotted_quad a b c d) # ms"
proof -
  have d: "rev [1 ..< Suc (length d)] = length d # rev [1 ..< length d]"
    using assms(4) by (simp add: digit_group_def)
  show ?thesis
    using assms last_group_matches [OF assms(4), of s] unfolding ipv4_re_def d
    by (simp add: digits_dot_group dotted_quad_def del: matches.simps)
qed

lemma no_dot_after_number:
  assumes "list_all is_digit t"
  shows "\<not> dot_after (run_length is_digit (t @ SPACE # s)) (t @ SPACE # s)"
proof -
  have "run_length is_digit (t @ SPACE # s) = length t"
    using assms space_classes by (intro run_length_append) auto
  then show ?thesis using space_classes by (simp add: dot_after_def nth_append)
qed

lemma not_digit_start: "\<not> is_digit c \<Longrightarrow> run_length is_digit (c # s) = 0"
  by (simp add: run_length_def)

lemma no_digit_matches:
  assumes "\<not> is_digit c"
  shows "matches ipv4_re (c # s) = []" "matches (Rep is_digit (Suc 0) None) (c # s) = []"
proof -
  show "matches ipv4_re (c # s) = []"
    using assms by (intro ipv4_none) (simp add: not_digit_start dot_after_def)
  show "matches (Rep is_digit (Suc 0) None) (c # s) = []"
    using assms by (simp add: not_digit_start)
qed

lemma open_rep_first:
  "lo \<le> run_length P s \<Longrightarrow> 0 < run_length P s \<or> lo = 0 \<Longrightarrow>
    \<exists>ms. matches (Rep P lo None) s = run_length P s # ms"
  by (auto simp: Let_def)

lemma first_match_number:
  assumes "t \<noteq> []" and "list_all is_digit t"
  shows "first_match TOKEN_RE (t @ SPACE # s) = Some (K_number, length t)"
proof -
  have run: "run_length is_digit (t @ SPACE # s) = length t"
    using assms space_classes by (intro run_length_append) auto
  have "\<exists>ms. matches (Rep is_digit (Suc 0) None) (t @ SPACE # s) = length t # ms"
    using open_rep_first [of "Suc 0" is_digit "t @ SPACE # s"] assms(1)
    unfolding run by (auto simp: Suc_le_eq simp del: matches.simps)
  then show ?thesis
    using ipv4_none [OF no_dot_after_number [OF assms(2), of s]]
    by (auto simp: TOKEN_RE_def simp del: matches.simps)
qed

lemma first_match_ipv4:
  assumes "wf_token_text K_ipv4 t"
  shows "first_match TOKEN_RE (t @ SPACE # s) = Some (K_ipv4, length t)"
proof -
  from assms obtain a b c d where "t = dotted_quad a b c d" and
    "digit_group a" "digit_group b" "digit_group c" "digit_group d" by auto
  with ipv4_first [of a b c d s] show ?thesis
    by (auto simp: TOKEN_RE_def simp del: matches.simps)
qed

lemma first_match_word:
  assumes "is_alpha c" and "list_all is_alnum cs"
  shows "first_match TOKEN_RE (c # cs @ SPACE # s) = Some (K_word, Suc (length cs))"
proof -
  have run: "run_length is_alnum (cs @ SPACE # s) = length cs"
    using assms space_classes by (intro run_length_append) auto
  then have "\<exists>ms. matches (Rep is_alnum 0 None) (cs @ SPACE # s) = length cs # ms"
    using open_rep_first [of 0 is_alnum "cs @ SPACE # s"] by simp
  then obtain ms where "matches (Rep is_alnum 0 None) (cs @ SPACE # s) = length cs # ms" ..
  then have "matches (Seq (Cls is_alpha) (Rep is_alnum 0 None)) (c # cs @ SPACE # s) =
      Suc (length cs) # map Suc ms"
    using assms(1) by (simp del: matches.simps(2))
  then show ?thesis
    using no_digit_matches [OF letter_not_digit [OF assms(1)], of "cs @ SPACE # s"]
    by (simp add: TOKEN_RE_def del: matches.simps)
qed

lemma first_match_paren:
  "first_match TOKEN_RE (LPAREN # s) = Some (K_lparen, 1)"
  "first_match TOKEN_RE (RPAREN # s) = Some (K_rparen, 1)"
  using paren_classes no_digit_matches [of LPAREN s] no_digit_matches [of RPAREN s]
  by (simp_all add: TOKEN_RE_def del: matches.simps(2))

lemma first_match_space:
  assumes "s = [] \<or> \<not> is_space (hd s)"
  shows "first_match TOKEN_RE (SPACE # s) = Some (K_space, 1)"
proof -
  have run: "run_length is_space ([SPACE] @ s) = 1"
    using assms space_classes run_length_append [of is_space "[SPACE]" s] by simp
  then have "\<exists>ms. matches (Rep is_space (Suc 0) None) (SPACE # s) = 1 # ms"
    using open_rep_first [of "Suc 0" is_space "SPACE # s"] by simp
  then show ?thesis
    using no_digit_matches [of SPACE s] space_classes
    by (auto simp: TOKEN_RE_def simp del: matches.simps(2))
qed

lemma first_match_token:
  assumes "wf_token t"
  shows "first_match TOKEN_RE (token_text t @ SPACE # s) =
           Some (token_kind t, length (token_text t))"
proof (cases "token_kind t")
  case K_ipv4
  with assms show ?thesis by (simp only: wf_token_def first_match_ipv4)
next
  case K_word
  with assms obtain c cs where "token_text t = c # cs" "is_alpha c" "list_all is_alnum cs"
    by (cases "token_text t") (auto simp: wf_token_def)
  with K_word show ?thesis by (simp add: first_match_word)
qed (use assms in \<open>auto simp: wf_token_def first_match_number first_match_paren\<close>)

lemma wf_token_start: "wf_token t \<Longrightarrow> token_text t \<noteq> [] \<and> \<not> is_space (hd (token_text t))"
proof -
  assume "wf_token t"
  moreover have "\<not> is_space c" if "is_digit c" for c
    using digit_class [OF that] that by (auto simp: is_space_def is_digit_def nd_zeros_def)
  ultimately show ?thesis
    using letter_not_space paren_classes
    by (cases "token_kind t"; cases "token_text t")
      (auto simp: wf_token_def dotted_quad_def digit_group_def Suc_le_length_iff)
qed

lemma tokenize_from_render:
  "list_all wf_token ts \<Longrightarrow> tokenize_from (pre @ render ts) (length pre) acc = Inr (acc @ ts)"
proof (induction ts arbitrary: pre acc)
  case Nil
  then show ?case by (simp add: tokenize_from.simps)
next
  case (Cons t ts)
  let ?expr = "pre @ render (t # ts)"
  have wf: "wf_token t" "list_all wf_token ts" using Cons.prems by auto
  from wf_token_start [OF wf(1)] have ne: "token_text t \<noteq> []" by blast
  have sep: "render ts = [] \<or> \<not> is_space (hd (render ts))"
    using wf(2) by (cases ts) (auto dest: wf_token_start)
  have tok: "\<lparr>token_kind = token_kind t, token_text = token_text t\<rparr> = t" by simp
  have "tokenize_from ?expr (length pre) acc =
      tokenize_from ?expr (length pre + length (token_text t)) (acc @ [t])"
    using ne wf(1) first_match_token [OF wf(1), of "render ts"]
    by (subst tokenize_from.simps) (auto simp: wf_token_def py_slice_def tok simp del: Token.surjective)
  also have "\<dots> = tokenize_from ?expr (length pre + length (token_text t) + 1) (acc @ [t])"
    using first_match_space [OF sep]
    by (subst tokenize_from.simps) simp
  also have "\<dots> = Inr ((acc @ [t]) @ ts)"
    using Cons.IH [OF wf(2), of "pre @ token_text t @ [SPACE]" "acc @ [t]"] by simp
  finally show ?case by simp
qed

lemma tokenize_render: "list_all wf_token ts \<Longrightarrow> tokenize (render ts) = Inr ts"
  using tokenize_from_render [of ts "[]" "[]"] by (simp add: tokenize_def)

lemma tokenize_error:
  "tokenize_from expr pos tokens = Inl e \<Longrightarrow>
     \<exists>c p. e = BPFCompileError (UnexpectedCharacter c p) \<and> pos \<le> p \<and> p < length expr \<and>
       c = expr ! p \<and> \<not> is_digit c \<and> \<not> is_alpha c \<and> \<not> is_space c \<and> c \<noteq> LPAREN \<and> c \<noteq> RPAREN"
proof (induction expr pos tokens rule: tokenize_from.induct)
  case (1 expr pos tokens)
  then have pos: "pos < length expr"
    by (auto simp: tokenize_from.simps [of expr pos] split: if_splits)
  show ?case
  proof (cases "first_match TOKEN_RE (drop pos expr)")
    case None
    have "drop pos expr = expr ! pos # drop (Suc pos) expr"
      using pos by (simp add: Cons_nth_drop_Suc)
    with None [unfolded first_match_None] have "\<not> is_digit (expr ! pos) \<and> \<not> is_alpha (expr ! pos) \<and> \<not> is_space (expr ! pos) \<and>
        expr ! pos \<noteq> LPAREN \<and> expr ! pos \<noteq> RPAREN"
      by (auto simp: TOKEN_RE_def run_length_def Let_def)
    with None pos "1.prems" show ?thesis
      by (auto simp: tokenize_from.simps [of expr pos])
  next
    case (Some km)
    obtain k m where km: "km = (k, m)" by force
    have "pos \<le> p" if "pos + m \<le> p" for p using that by simp
    with "1.IH" [OF pos, of km k m] "1.prems" pos Some km show ?thesis
      by (fastforce simp: tokenize_from.simps [of expr pos])
  qed
qed

text \<open>A single word is read whole, with no white space after it.\<close>

lemma run_length_all: "list_all P cs \<Longrightarrow> run_length P cs = length cs"
  by (simp add: run_length_def list_all_iff flip: takeWhile_eq_all_conv)

lemma tokenize_word:
  assumes "is_alpha c" and "list_all is_alnum cs"
  shows "tokenize (c # cs) = Inr [\<lparr>token_kind = K_word, token_text = c # cs\<rparr>]"
proof -
  have "\<exists>ms. matches (Rep is_alnum 0 None) cs = length cs # ms"
    using open_rep_first [of 0 is_alnum cs] run_length_all [OF assms(2)] by simp
  then obtain ms where "matches (Rep is_alnum 0 None) cs = length cs # ms" ..
  then have "matches (Seq (Cls is_alpha) (Rep is_alnum 0 None)) (c # cs) = Suc (length cs) # map Suc ms"
    using assms(1) by (simp del: matches.simps(2))
  then have "first_match TOKEN_RE (c # cs) = Some (K_word, Suc (length cs))"
    using no_digit_matches [OF letter_not_digit [OF assms(1)], of cs]
    by (simp add: TOKEN_RE_def del: matches.simps)
  then show ?thesis
    by (simp add: tokenize_def tokenize_from.simps py_slice_def)
qed

end
