(* ===== verification/Bpf_Parser.thy ===== *)
theory Bpf_Parser
  imports Bpf_Lexer
begin

unbundle bit_operations_syntax

text \<open>
  The abstract syntax and the recursive-descent parser of
  \<^verbatim>\<open>src/rootwire/bpf_compiler.py\<close> (\<^verbatim>\<open>_Node\<close> and its subclasses, \<^verbatim>\<open>_Parser\<close>). The
  parser object's mutable position is passed along explicitly; the token list never
  changes. The source text the object also keeps only goes into messages.
\<close>

section \<open>Abstract syntax\<close>

datatype direction = Src | Dst

datatype Node =
    Proto pystr
  | Host nat "direction option"
  | Port nat "direction option"
  | NotE Node
  | AndE Node Node
  | OrE Node Node

definition PROTOCOLS :: "pystr list" where
  "PROTOCOLS = [ascii ''tcp'', ascii ''udp'', ascii ''icmp'', ascii ''arp'', ascii ''ip'', ascii ''ip6'']"

definition KEYWORDS :: "pystr list" where
  "KEYWORDS = PROTOCOLS @
     [ascii ''host'', ascii ''port'', ascii ''src'', ascii ''dst'',
      ascii ''and'', ascii ''or'', ascii ''not'']"

fun direction_word :: "direction \<Rightarrow> pystr" where
  "direction_word Src = ascii ''src''"
| "direction_word Dst = ascii ''dst''"

section \<open>The parser object\<close>

record Parser =
  p_tokens :: "Token list"
  p_pos :: nat

type_synonym 'a parsed = "compile_error + 'a \<times> Parser"

definition at_end :: "Parser \<Rightarrow> bool" where
  "at_end p \<longleftrightarrow> p_pos p \<ge> length (p_tokens p)"

definition peek :: "Parser \<Rightarrow> compile_error + Token" where
  "peek p = (if at_end p then Inl (BPFCompileError UnexpectedEnd) else Inr (p_tokens p ! p_pos p))"

definition advance :: "Parser \<Rightarrow> Token parsed" where
  "advance p = then_do (peek p) (\<lambda>token. Inr (token, p\<lparr>p_pos := p_pos p + 1\<rparr>))"

text \<open>\<^verbatim>\<open>_match_word\<close>: whether it matched, and the parser, moved on if it did.\<close>

definition match_word :: "pystr list \<Rightarrow> Parser \<Rightarrow> bool \<times> Parser" where
  "match_word words p =
     (case advance p of
        Inl e \<Rightarrow> (False, p)
      | Inr (token, q) \<Rightarrow>
          if token_kind token = K_word \<and> token_text token \<in> set words then (True, q)
          else (False, p))"

text \<open>\<^verbatim>\<open>not self._at_end() and self._peek().kind == k\<close>.\<close>

definition next_is :: "token_kind \<Rightarrow> Parser \<Rightarrow> bool" where
  "next_is k p \<longleftrightarrow> (case peek p of Inl e \<Rightarrow> False | Inr token \<Rightarrow> token_kind token = k)"

definition found_text :: "Parser \<Rightarrow> pystr option" where
  "found_text p = (case peek p of Inl e \<Rightarrow> None | Inr token \<Rightarrow> Some (token_text token))"

section \<open>Addresses and ports\<close>

text \<open>\<^verbatim>\<open>text.split(".")\<close>\<close>

fun split_on :: "pychar \<Rightarrow> pystr \<Rightarrow> pystr list" where
  "split_on sep [] = [[]]"
| "split_on sep (c # cs) =
     (if c = sep then [] # split_on sep cs
      else case split_on sep cs of
             [] \<Rightarrow> [[c]]
           | part # parts \<Rightarrow> (c # part) # parts)"

fun ints :: "pystr list \<Rightarrow> nat list option" where
  "ints [] = Some []"
| "ints (part # parts) =
     (case int_of_digits part of
        None \<Rightarrow> None
      | Some n \<Rightarrow> (case ints parts of None \<Rightarrow> None | Some ns \<Rightarrow> Some (n # ns)))"

definition pack_octets :: "nat list \<Rightarrow> nat" where
  "pack_octets octets = foldl (\<lambda>value octet. push_bit 8 value OR octet) 0 octets"

definition parse_ipv4 :: "Parser \<Rightarrow> nat parsed" where
  "parse_ipv4 p =
     (if \<not> next_is K_ipv4 p then Inl (BPFCompileError (AddressExpected (found_text p)))
      else then_do (advance p) (\<lambda>(token, q).
        case ints (split_on DOT (token_text token)) of
          None \<Rightarrow> Inl IntDigitsError
        | Some octets \<Rightarrow>
            if \<exists>octet \<in> set octets. octet > 255
            then Inl (BPFCompileError (InvalidAddress (token_text token)))
            else Inr (pack_octets octets, q)))"

definition parse_port :: "Parser \<Rightarrow> nat parsed" where
  "parse_port p =
     (if \<not> next_is K_number p then Inl (BPFCompileError (PortExpected (found_text p)))
      else then_do (advance p) (\<lambda>(token, q).
        case int_of_digits (token_text token) of
          None \<Rightarrow> Inl IntDigitsError
        | Some port \<Rightarrow>
            if port > 0xFFFF then Inl (BPFCompileError (PortOutOfRange port))
            else Inr (port, q)))"

section \<open>Primitives\<close>

definition match_direction :: "Parser \<Rightarrow> direction option \<times> Parser" where
  "match_direction p =
     (case match_word [ascii ''src''] p of
        (True, q) \<Rightarrow> (Some Src, q)
      | (False, _) \<Rightarrow>
          (case match_word [ascii ''dst''] p of
             (True, q) \<Rightarrow> (Some Dst, q)
           | (False, _) \<Rightarrow> (None, p)))"

definition primitive :: "Parser \<Rightarrow> Node parsed" where
  "primitive p0 =
     (case match_direction p0 of (direction, p) \<Rightarrow>
      case peek p of
        Inl _ \<Rightarrow>
          (case direction of
             Some d \<Rightarrow> Inl (BPFCompileError (PrimitiveExpectedAfter (direction_word d)))
           | None \<Rightarrow> Inl (BPFCompileError PrimitiveExpected))
      | Inr token \<Rightarrow>
          if direction = None \<and> token_kind token = K_word \<and> token_text token \<in> set PROTOCOLS
          then then_do (advance p) (\<lambda>(t, q). Inr (Proto (token_text token), q))
          else
            (case match_word [ascii ''host''] p of
               (True, q) \<Rightarrow> then_do (parse_ipv4 q) (\<lambda>(addr, r). Inr (Host addr direction, r))
             | (False, _) \<Rightarrow>
                 (case match_word [ascii ''port''] p of
                    (True, q) \<Rightarrow> then_do (parse_port q) (\<lambda>(port, r). Inr (Port port direction, r))
                  | (False, _) \<Rightarrow>
                      if token_kind token = K_word \<and> token_text token \<notin> set KEYWORDS
                      then Inl (BPFCompileError (UnknownPrimitive (token_text token)))
                      else Inl (BPFCompileError (PrimitiveExpectedFound (token_text token))))))"

section \<open>Progress of the token-reading operations\<close>

definition consumed :: "Parser \<Rightarrow> Parser \<Rightarrow> bool" where
  "consumed p q \<longleftrightarrow> p_tokens q = p_tokens p \<and> p_pos p < p_pos q \<and> p_pos q \<le> length (p_tokens p)"

definition remaining :: "Parser \<Rightarrow> nat" where
  "remaining p = length (p_tokens p) - p_pos p"

lemma consumed_trans: "consumed p q \<Longrightarrow> consumed q r \<Longrightarrow> consumed p r"
  by (auto simp: consumed_def)

lemma consumed_remaining: "consumed p q \<Longrightarrow> remaining q < remaining p"
  by (auto simp: consumed_def remaining_def)

lemma advance_consumed: "advance p = Inr (t, q) \<Longrightarrow> consumed p q"
  by (auto simp: advance_def peek_def at_end_def consumed_def split: if_splits)

lemma match_word_cases:
  "match_word ws p = (b, q) \<Longrightarrow> (b \<and> consumed p q) \<or> (\<not> b \<and> q = p)"
  by (auto simp: match_word_def split: sum.splits if_splits dest: advance_consumed)

lemma match_word_consumed: "match_word ws p = (True, q) \<Longrightarrow> consumed p q"
  using match_word_cases by blast

lemma parse_ipv4_consumed: "parse_ipv4 p = Inr (n, q) \<Longrightarrow> consumed p q"
  by (auto simp: parse_ipv4_def then_do_Inr_iff split: if_splits option.splits dest: advance_consumed)

lemma parse_port_consumed: "parse_port p = Inr (n, q) \<Longrightarrow> consumed p q"
  by (auto simp: parse_port_def then_do_Inr_iff split: if_splits option.splits dest: advance_consumed)

lemma match_direction_cases:
  "match_direction p = (d, q) \<Longrightarrow> consumed p q \<or> q = p"
  by (auto simp: match_direction_def split: prod.splits bool.splits dest: match_word_consumed)

lemma primitive_consumed: "primitive p = Inr (n, q) \<Longrightarrow> consumed p q"
proof -
  assume *: "primitive p = Inr (n, q)"
  obtain d p1 where d: "match_direction p = (d, p1)" by force
  have "consumed p1 q"
    using * d unfolding primitive_def
    by (auto simp: then_do_Inr_iff
        split: sum.splits option.splits if_splits prod.splits bool.splits
        dest: advance_consumed match_word_consumed parse_ipv4_consumed parse_port_consumed
        intro: consumed_trans)
  with match_direction_cases [OF d] show ?thesis by (auto intro: consumed_trans)
qed

text \<open>
  The measure of the expression parser below, for its mutually recursive functions in
  order: the tokens left, then how far down the grammar the function stands.
\<close>

fun parser_rank :: "(Parser + Node \<times> Parser + Parser) + (Node \<times> Parser + Parser + Parser) \<Rightarrow> nat \<times> nat" where
  "parser_rank (Inl (Inl p)) = (remaining p, 4)"
| "parser_rank (Inl (Inr (Inl (node, p)))) = (remaining p, 0)"
| "parser_rank (Inl (Inr (Inr p))) = (remaining p, 3)"
| "parser_rank (Inr (Inl (node, p))) = (remaining p, 0)"
| "parser_rank (Inr (Inr (Inl p))) = (remaining p, 2)"
| "parser_rank (Inr (Inr (Inr p))) = (remaining p, 1)"

section \<open>Expressions\<close>

text \<open>
  The five mutually recursive methods; the two \<^verbatim>\<open>while\<close> loops are the functions
  \<open>or_loop\<close> and \<open>and_loop\<close> from the node built so far.
\<close>

function or_expr :: "Parser \<Rightarrow> Node parsed"
  and or_loop :: "Node \<Rightarrow> Parser \<Rightarrow> Node parsed"
  and and_expr :: "Parser \<Rightarrow> Node parsed"
  and and_loop :: "Node \<Rightarrow> Parser \<Rightarrow> Node parsed"
  and not_expr :: "Parser \<Rightarrow> Node parsed"
  and primary :: "Parser \<Rightarrow> Node parsed"
where
  "or_expr p =
     (case and_expr p of Inl e \<Rightarrow> Inl e | Inr (node, q) \<Rightarrow> or_loop node q)"
| "or_loop node p =
     (case match_word [ascii ''or''] p of
        (True, q) \<Rightarrow>
          (case and_expr q of Inl e \<Rightarrow> Inl e | Inr (rhs, r) \<Rightarrow> or_loop (OrE node rhs) r)
      | (False, _) \<Rightarrow> Inr (node, p))"
| "and_expr p =
     (case not_expr p of Inl e \<Rightarrow> Inl e | Inr (node, q) \<Rightarrow> and_loop node q)"
| "and_loop node p =
     (case match_word [ascii ''and''] p of
        (True, q) \<Rightarrow>
          (case not_expr q of Inl e \<Rightarrow> Inl e | Inr (rhs, r) \<Rightarrow> and_loop (AndE node rhs) r)
      | (False, _) \<Rightarrow> Inr (node, p))"
| "not_expr p =
     (case match_word [ascii ''not''] p of
        (True, q) \<Rightarrow> (case not_expr q of Inl e \<Rightarrow> Inl e | Inr (node, r) \<Rightarrow> Inr (NotE node, r))
      | (False, _) \<Rightarrow> primary p)"
| "primary p =
     (if next_is K_lparen p then
        (case advance p of
           Inl e \<Rightarrow> Inl e
         | Inr (_, q) \<Rightarrow>
             (case or_expr q of
                Inl e \<Rightarrow> Inl e
              | Inr (node, r) \<Rightarrow>
                  if \<not> next_is K_rparen r then Inl (BPFCompileError UnclosedParen)
                  else (case advance r of Inl e \<Rightarrow> Inl e | Inr (_, s) \<Rightarrow> Inr (node, s))))
      else primitive p)"
  by pat_completeness auto

text \<open>
  Termination is a nested argument: a loop goes on from where the operand before it
  stopped, so it needs the operand to have consumed a token. That is proved on the
  domain of the functions first, then used in the measure.
\<close>

lemmas parser_psimps =
  or_expr.psimps or_loop.psimps and_expr.psimps and_loop.psimps not_expr.psimps primary.psimps

lemma parser_progress:
  "or_expr_or_loop_and_expr_and_loop_not_expr_primary_dom (Inl (Inl p0)) \<Longrightarrow>
     \<forall>n q. or_expr p0 = Inr (n, q) \<longrightarrow> consumed p0 q"
  "or_expr_or_loop_and_expr_and_loop_not_expr_primary_dom (Inl (Inr (Inl (m1, p1)))) \<Longrightarrow>
     \<forall>n q. or_loop m1 p1 = Inr (n, q) \<longrightarrow> consumed p1 q \<or> q = p1"
  "or_expr_or_loop_and_expr_and_loop_not_expr_primary_dom (Inl (Inr (Inr p2))) \<Longrightarrow>
     \<forall>n q. and_expr p2 = Inr (n, q) \<longrightarrow> consumed p2 q"
  "or_expr_or_loop_and_expr_and_loop_not_expr_primary_dom (Inr (Inl (m3, p3))) \<Longrightarrow>
     \<forall>n q. and_loop m3 p3 = Inr (n, q) \<longrightarrow> consumed p3 q \<or> q = p3"
  "or_expr_or_loop_and_expr_and_loop_not_expr_primary_dom (Inr (Inr (Inl p4))) \<Longrightarrow>
     \<forall>n q. not_expr p4 = Inr (n, q) \<longrightarrow> consumed p4 q"
  "or_expr_or_loop_and_expr_and_loop_not_expr_primary_dom (Inr (Inr (Inr p5))) \<Longrightarrow>
     \<forall>n q. primary p5 = Inr (n, q) \<longrightarrow> consumed p5 q"
proof (induction p0 and m1 p1 and p2 and m3 p3 and p4 and p5
    rule: or_expr_or_loop_and_expr_and_loop_not_expr_primary.pinduct)
  case (1 p)
  then show ?case
    by (fastforce simp: parser_psimps split: sum.splits intro: consumed_trans)
next
  case (2 node p)
  then show ?case
    by (fastforce simp: parser_psimps split: sum.splits prod.splits bool.splits
        dest: match_word_consumed intro: consumed_trans)
next
  case (3 p)
  then show ?case
    by (fastforce simp: parser_psimps split: sum.splits intro: consumed_trans)
next
  case (4 node p)
  then show ?case
    by (fastforce simp: parser_psimps split: sum.splits prod.splits bool.splits
        dest: match_word_consumed intro: consumed_trans)
next
  case (5 p)
  then show ?case
    by (fastforce simp: parser_psimps split: sum.splits prod.splits bool.splits
        dest: match_word_consumed intro: consumed_trans)
next
  case (6 p)
  then show ?case
    by (fastforce simp: parser_psimps split: sum.splits prod.splits if_splits
        dest: advance_consumed primitive_consumed intro: consumed_trans)
qed

lemma parser_total: "All or_expr_or_loop_and_expr_and_loop_not_expr_primary_dom"
proof (rule "or_expr_or_loop_and_expr_and_loop_not_expr_primary.termination"
    [of "inv_image (less_than <*lex*> less_than) parser_rank"], goal_cases)
  case 1
  show ?case by (intro wf_inv_image wf_lex_prod wf_less_than)
qed (auto dest!: parser_progress match_word_consumed [OF sym] advance_consumed consumed_remaining)

termination or_expr
  by (rule parser_total)

declare or_expr.simps [simp del] or_loop.simps [simp del] and_expr.simps [simp del]
  and_loop.simps [simp del] not_expr.simps [simp del] primary.simps [simp del]

lemmas parser_simps =
  or_expr.simps or_loop.simps and_expr.simps and_loop.simps not_expr.simps primary.simps

text \<open>\<^verbatim>\<open>_Parser(tokens, source).parse()\<close>\<close>

definition parse :: "Token list \<Rightarrow> compile_error + Node" where
  "parse tokens =
     then_do (or_expr \<lparr>p_tokens = tokens, p_pos = 0\<rparr>) (\<lambda>(node, p).
       if p_pos p \<noteq> length tokens
       then then_do (peek p) (\<lambda>token. Inl (BPFCompileError (UnexpectedToken (token_text token))))
       else Inr node)"

section \<open>The documented grammar\<close>

text \<open>
  The grammar of the module's documentation, as derivations of token lists, with the
  tree each derivation stands for (\<open>and\<close> and \<open>or\<close> associate to the left, as repeated
  \<^verbatim>\<open>( "or" and_expr )*\<close> does when read left to right).
\<close>

definition word :: "pystr \<Rightarrow> Token" where
  "word w = \<lparr>token_kind = K_word, token_text = w\<rparr>"

fun address_value :: "pystr \<Rightarrow> pystr \<Rightarrow> pystr \<Rightarrow> pystr \<Rightarrow> nat" where
  "address_value a b c d =
     ((digits_value a * 256 + digits_value b) * 256 + digits_value c) * 256 + digits_value d"

definition octet :: "pystr \<Rightarrow> bool" where
  "octet d \<longleftrightarrow> digit_group d \<and> digits_value d \<le> 255"

inductive derives_dir :: "Token list \<Rightarrow> direction option \<Rightarrow> bool" where
  dir_none: "derives_dir [] None"
| dir_src: "derives_dir [word (ascii ''src'')] (Some Src)"
| dir_dst: "derives_dir [word (ascii ''dst'')] (Some Dst)"

inductive derives_primitive :: "Token list \<Rightarrow> Node \<Rightarrow> bool" where
  prim_proto: "name \<in> set PROTOCOLS \<Longrightarrow> derives_primitive [word name] (Proto name)"
| prim_host: "derives_dir ds dir \<Longrightarrow> octet a \<Longrightarrow> octet b \<Longrightarrow> octet c \<Longrightarrow> octet d \<Longrightarrow>
    derives_primitive
      (ds @ [word (ascii ''host''), \<lparr>token_kind = K_ipv4, token_text = dotted_quad a b c d\<rparr>])
      (Host (address_value a b c d) dir)"
| prim_port: "derives_dir ds dir \<Longrightarrow> t \<noteq> [] \<Longrightarrow> list_all is_digit t \<Longrightarrow> digits_value t \<le> 65535 \<Longrightarrow>
    derives_primitive
      (ds @ [word (ascii ''port''), \<lparr>token_kind = K_number, token_text = t\<rparr>])
      (Port (digits_value t) dir)"

inductive derives_or :: "Token list \<Rightarrow> Node \<Rightarrow> bool"
  and derives_and :: "Token list \<Rightarrow> Node \<Rightarrow> bool"
  and derives_not :: "Token list \<Rightarrow> Node \<Rightarrow> bool"
  and derives_primary :: "Token list \<Rightarrow> Node \<Rightarrow> bool"
where
  or_one: "derives_and ts n \<Longrightarrow> derives_or ts n"
| or_more: "derives_or ts n \<Longrightarrow> derives_and us m \<Longrightarrow>
    derives_or (ts @ word (ascii ''or'') # us) (OrE n m)"
| and_one: "derives_not ts n \<Longrightarrow> derives_and ts n"
| and_more: "derives_and ts n \<Longrightarrow> derives_not us m \<Longrightarrow>
    derives_and (ts @ word (ascii ''and'') # us) (AndE n m)"
| not_not: "derives_not ts n \<Longrightarrow> derives_not (word (ascii ''not'') # ts) (NotE n)"
| not_primary: "derives_primary ts n \<Longrightarrow> derives_not ts n"
| primary_paren: "derives_or ts n \<Longrightarrow>
    derives_primary
      (\<lparr>token_kind = K_lparen, token_text = [LPAREN]\<rparr> # ts @
         [\<lparr>token_kind = K_rparen, token_text = [RPAREN]\<rparr>]) n"
| primary_primitive: "derives_primitive ts n \<Longrightarrow> derives_primary ts n"

section \<open>Reading the token list from a position\<close>

definition rest :: "Parser \<Rightarrow> Token list" where
  "rest p = drop (p_pos p) (p_tokens p)"

definition skip :: "nat \<Rightarrow> Parser \<Rightarrow> Parser" where
  "skip k p = p\<lparr>p_pos := p_pos p + k\<rparr>"

lemma rest_skip [simp]: "rest (skip k p) = drop k (rest p)"
  by (simp add: rest_def skip_def add.commute)

lemma skip_skip [simp]: "skip i (skip k p) = skip (k + i) p"
  by (simp add: skip_def add.assoc)

lemma skip_0 [simp]: "skip 0 p = p"
  by (simp add: skip_def)

lemma p_tokens_skip [simp]: "p_tokens (skip k p) = p_tokens p"
  by (simp add: skip_def)

lemma at_end_rest: "at_end p \<longleftrightarrow> rest p = []"
  by (simp add: at_end_def rest_def)

lemma peek_rest: "peek p = (case rest p of [] \<Rightarrow> Inl (BPFCompileError UnexpectedEnd) | t # _ \<Rightarrow> Inr t)"
  by (auto simp: peek_def at_end_def rest_def Cons_nth_drop_Suc [symmetric] split: list.splits)

lemma advance_rest:
  "advance p = (case rest p of [] \<Rightarrow> Inl (BPFCompileError UnexpectedEnd) | t # _ \<Rightarrow> Inr (t, skip 1 p))"
  by (auto simp: advance_def peek_rest skip_def split: list.splits)

lemma match_word_rest:
  "match_word ws p =
     (case rest p of
        [] \<Rightarrow> (False, p)
      | t # _ \<Rightarrow> if token_kind t = K_word \<and> token_text t \<in> set ws then (True, skip 1 p) else (False, p))"
  by (auto simp: match_word_def advance_rest split: list.splits)

lemma next_is_rest: "next_is k p \<longleftrightarrow> (case rest p of [] \<Rightarrow> False | t # _ \<Rightarrow> token_kind t = k)"
  by (auto simp: next_is_def peek_rest split: list.splits)

lemmas reading_simps = peek_rest advance_rest match_word_rest next_is_rest

section \<open>Values of addresses and ports\<close>

lemma push_or: "b < 256 \<Longrightarrow> push_bit 8 v OR b = 256 * v + b" for v b :: nat
proof -
  assume "b < 256"
  then have b: "take_bit 8 b = b" by (simp add: take_bit_eq_mod)
  have "push_bit 8 v AND take_bit 8 b = 0"
    by (rule bit_eqI) (auto simp: bit_simps)
  then have "push_bit 8 v + b = push_bit 8 v OR b"
    by (simp add: b disjunctive_add_eq_or)
  then show ?thesis by (simp add: push_bit_eq_mult)
qed

lemma octet_value: "octet d \<Longrightarrow> digits_value d < 256"
  by (simp add: octet_def)

lemma pack_octets_value:
  "list_all (\<lambda>b. b < 256) bs \<Longrightarrow> pack_octets bs = foldl (\<lambda>v b. 256 * v + b) 0 bs"
proof -
  have "list_all (\<lambda>b. b < 256) bs \<Longrightarrow>
      foldl (\<lambda>v b. push_bit 8 v OR b) v bs = foldl (\<lambda>v b. 256 * v + b) v bs" for v
    by (induction bs arbitrary: v) (auto simp: push_or)
  then show "list_all (\<lambda>b. b < 256) bs \<Longrightarrow> ?thesis" by (simp add: pack_octets_def)
qed

lemma split_on_group: "list_all (\<lambda>c. c \<noteq> sep) d \<Longrightarrow> split_on sep d = [d]"
  by (induction d) auto

lemma split_on_sep:
  "list_all (\<lambda>c. c \<noteq> sep) d \<Longrightarrow> split_on sep (d @ sep # s) = d # split_on sep s"
  by (induction d) auto

lemma digit_group_no_dot: "digit_group d \<Longrightarrow> list_all (\<lambda>c. c \<noteq> DOT) d"
  using DOT_not_digit by (auto simp: digit_group_def list_all_iff)

lemma split_quad:
  "digit_group a \<Longrightarrow> digit_group b \<Longrightarrow> digit_group c \<Longrightarrow> digit_group d \<Longrightarrow>
    split_on DOT (dotted_quad a b c d) = [a, b, c, d]"
  by (simp add: dotted_quad_def split_on_sep split_on_group digit_group_no_dot)

lemma int_of_group: "digit_group d \<Longrightarrow> int_of_digits d = Some (digits_value d)"
  by (auto simp: int_of_digits_def digit_group_def max_str_digits_def)

lemma int_of_digits_Some:
  "int_of_digits t = Some n \<longleftrightarrow>
     t \<noteq> [] \<and> list_all is_digit t \<and> length t \<le> max_str_digits \<and> n = digits_value t"
  by (auto simp: int_of_digits_def)

lemma address_value_bound:
  "octet a \<Longrightarrow> octet b \<Longrightarrow> octet c \<Longrightarrow> octet d \<Longrightarrow> address_value a b c d < 4294967296"
  using octet_value [of a] octet_value [of b] octet_value [of c] octet_value [of d] by simp

text \<open>What \<open>parse_ipv4\<close> and \<open>parse_port\<close> do on a well-formed next token, error by error.\<close>

lemma parse_ipv4_token:
  assumes r: "rest p = \<lparr>token_kind = K_ipv4, token_text = dotted_quad a b c d\<rparr> # ts"
    and g: "digit_group a" "digit_group b" "digit_group c" "digit_group d"
  shows "parse_ipv4 p =
    (if octet a \<and> octet b \<and> octet c \<and> octet d then Inr (address_value a b c d, skip 1 p)
     else Inl (BPFCompileError (InvalidAddress (dotted_quad a b c d))))"
proof -
  have "ints (split_on DOT (dotted_quad a b c d)) = Some (map digits_value [a, b, c, d])"
    using g by (simp add: split_quad int_of_group)
  moreover have "pack_octets (map digits_value [a, b, c, d]) = address_value a b c d"
    if "octet a" "octet b" "octet c" "octet d"
    using that by (subst pack_octets_value) (auto simp: octet_value algebra_simps)
  moreover have "(\<exists>x \<in> set (map digits_value [a, b, c, d]). x > 255) \<longleftrightarrow>
      \<not> (octet a \<and> octet b \<and> octet c \<and> octet d)"
    using g by (auto simp: octet_def)
  ultimately show ?thesis
    using r by (auto simp: parse_ipv4_def reading_simps)
qed

lemma parse_port_token:
  assumes r: "rest p = \<lparr>token_kind = K_number, token_text = t\<rparr> # ts"
    and g: "t \<noteq> []" "list_all is_digit t"
  shows "parse_port p =
    (if length t > max_str_digits then Inl IntDigitsError
     else if digits_value t > 65535 then Inl (BPFCompileError (PortOutOfRange (digits_value t)))
     else Inr (digits_value t, skip 1 p))"
  using r g by (auto simp: parse_port_def reading_simps int_of_digits_def)

lemma token_eta: "token_kind t = k \<Longrightarrow> token_text t = x \<Longrightarrow> t = \<lparr>token_kind = k, token_text = x\<rparr>"
  by (cases t) simp

lemma parse_ipv4_sound:
  assumes "parse_ipv4 p = Inr (v, q)" and "list_all wf_token (rest p)"
  obtains a b c d where
    "rest p = \<lparr>token_kind = K_ipv4, token_text = dotted_quad a b c d\<rparr> # rest q"
    "octet a" "octet b" "octet c" "octet d" "v = address_value a b c d" "q = skip 1 p"
proof -
  from assms(1) obtain t ts where r: "rest p = t # ts" "token_kind t = K_ipv4"
    by (auto simp: parse_ipv4_def reading_simps split: list.splits if_splits)
  with assms(2) obtain a b c d where shape: "token_text t = dotted_quad a b c d"
    and g: "digit_group a" "digit_group b" "digit_group c" "digit_group d"
    by (auto simp: wf_token_def)
  from token_eta [OF r(2) shape]
  have t: "t = \<lparr>token_kind = K_ipv4, token_text = dotted_quad a b c d\<rparr>" .
  from parse_ipv4_token [of p a b c d ts] r t g assms(1)
  have "octet a \<and> octet b \<and> octet c \<and> octet d" "v = address_value a b c d" "q = skip 1 p"
    by (auto split: if_splits)
  with that r t show ?thesis by auto
qed

lemma parse_port_sound:
  assumes "parse_port p = Inr (v, q)" and "list_all wf_token (rest p)"
  obtains t where
    "rest p = \<lparr>token_kind = K_number, token_text = t\<rparr> # rest q"
    "t \<noteq> []" "list_all is_digit t" "v = digits_value t" "v \<le> 65535" "q = skip 1 p"
proof -
  from assms(1) obtain t ts where r: "rest p = t # ts" "token_kind t = K_number"
    by (auto simp: parse_port_def reading_simps split: list.splits if_splits)
  with assms(2) have g: "token_text t \<noteq> []" "list_all is_digit (token_text t)"
    by (auto simp: wf_token_def)
  have t: "t = \<lparr>token_kind = K_number, token_text = token_text t\<rparr>"
    using r(2) by (intro token_eta) auto
  from parse_port_token [of p "token_text t" ts] r t g assms(1)
  have "v = digits_value (token_text t)" "v \<le> 65535" "q = skip 1 p"
    by (auto split: if_splits)
  with that r t g show ?thesis by (metis drop_Suc_Cons One_nat_def drop0 rest_skip)
qed

section \<open>Primitives: the parser and the grammar agree\<close>

definition short_numbers :: "Token list \<Rightarrow> bool" where
  "short_numbers ts \<longleftrightarrow> list_all (\<lambda>t. token_kind t = K_number \<longrightarrow> length (token_text t) \<le> max_str_digits) ts"

lemma short_numbers_append [simp]:
  "short_numbers (ts @ us) \<longleftrightarrow> short_numbers ts \<and> short_numbers us"
  by (simp add: short_numbers_def)

lemma short_numbers_Cons [simp]:
  "short_numbers (t # us) \<longleftrightarrow>
     (token_kind t = K_number \<longrightarrow> length (token_text t) \<le> max_str_digits) \<and> short_numbers us"
  by (simp add: short_numbers_def)

lemma word_simps [simp]: "token_kind (word w) = K_word" "token_text (word w) = w"
  by (simp_all add: word_def)

lemma word_iff: "token_kind t = K_word \<and> token_text t = w \<longleftrightarrow> t = word w"
  by (cases t) (auto simp: word_def)

lemma word_eta: "token_kind t = K_word \<Longrightarrow> t = word (token_text t)"
  by (simp add: word_def)

lemma word_inject [simp]: "word v = word w \<longleftrightarrow> v = w"
  by (simp add: word_def)

lemma match_word_single:
  "match_word [w] p =
     (case rest p of [] \<Rightarrow> (False, p) | t # _ \<Rightarrow> if t = word w then (True, skip 1 p) else (False, p))"
  by (auto simp: match_word_rest word_iff split: list.splits)

lemma match_direction_rest:
  "match_direction p =
     (case rest p of
        [] \<Rightarrow> (None, p)
      | t # _ \<Rightarrow>
          if t = word (ascii ''src'') then (Some Src, skip 1 p)
          else if t = word (ascii ''dst'') then (Some Dst, skip 1 p)
          else (None, p))"
  by (simp add: match_direction_def match_word_single split: list.splits)

lemma match_direction_sound:
  assumes "match_direction p = (d, q)"
  shows "\<exists>ds. derives_dir ds d \<and> rest p = ds @ rest q \<and> q = skip (length ds) p"
proof (cases "rest p")
  case Nil
  with assms show ?thesis
    by (intro exI [of _ "[]"]) (auto simp: match_direction_rest intro: dir_none)
next
  case (Cons t ts)
  with assms consider "t = word (ascii ''src'')" "d = Some Src" "q = skip 1 p"
    | "t = word (ascii ''dst'')" "d = Some Dst" "q = skip 1 p"
    | "d = None" "q = p"
    by (auto simp: match_direction_rest split: if_splits)
  then show ?thesis
  proof cases
    case 1
    with Cons dir_src show ?thesis by (intro exI [of _ "[t]"]) auto
  next
    case 2
    with Cons dir_dst show ?thesis by (intro exI [of _ "[t]"]) auto
  next
    case 3
    with dir_none show ?thesis by (intro exI [of _ "[]"]) auto
  qed
qed

lemma match_direction_complete:
  assumes "derives_dir ds d" and "rest p = ds @ t # ts"
    and "t \<noteq> word (ascii ''src'')" "t \<noteq> word (ascii ''dst'')"
  shows "match_direction p = (d, skip (length ds) p)"
  using assms(1)
proof (cases rule: derives_dir.cases)
  case dir_none
  with assms show ?thesis by (simp add: match_direction_rest)
next
  case dir_src
  with assms(2) show ?thesis by (simp add: match_direction_rest)
next
  case dir_dst
  with assms(2) show ?thesis by (simp add: match_direction_rest)
qed

lemma host_sound:
  assumes "parse_ipv4 (skip 1 p) = Inr (v, q)" and "rest p = word (ascii ''host'') # ts"
    and "list_all wf_token (rest p)" and "derives_dir ds d"
  shows "\<exists>us. derives_primitive (ds @ us) (Host v d) \<and> rest p = us @ rest q \<and> p_tokens q = p_tokens p"
proof -
  have "list_all wf_token (rest (skip 1 p))" using assms(2,3) by simp
  from parse_ipv4_sound [OF assms(1) this] obtain a b c e where
    r: "rest (skip 1 p) = \<lparr>token_kind = K_ipv4, token_text = dotted_quad a b c e\<rparr> # rest q"
    and o: "octet a" "octet b" "octet c" "octet e" and v: "v = address_value a b c e"
    and q: "q = skip 1 (skip 1 p)" .
  from prim_host [OF assms(4) o] v have "derives_primitive (ds @ [word (ascii ''host''),
      \<lparr>token_kind = K_ipv4, token_text = dotted_quad a b c e\<rparr>]) (Host v d)" by simp
  with r assms(2) q show ?thesis by (intro exI conjI) auto
qed

lemma port_sound:
  assumes "parse_port (skip 1 p) = Inr (v, q)" and "rest p = word (ascii ''port'') # ts"
    and "list_all wf_token (rest p)" and "derives_dir ds d"
  shows "\<exists>us. derives_primitive (ds @ us) (Port v d) \<and> rest p = us @ rest q \<and> p_tokens q = p_tokens p"
proof -
  have "list_all wf_token (rest (skip 1 p))" using assms(2,3) by simp
  from parse_port_sound [OF assms(1) this] obtain x where
    r: "rest (skip 1 p) = \<lparr>token_kind = K_number, token_text = x\<rparr> # rest q"
    and x: "x \<noteq> []" "list_all is_digit x" and v: "v = digits_value x" "v \<le> 65535"
    and q: "q = skip 1 (skip 1 p)" .
  from prim_port [OF assms(4) x] v have "derives_primitive (ds @ [word (ascii ''port''),
      \<lparr>token_kind = K_number, token_text = x\<rparr>]) (Port v d)" by simp
  with r assms(2) q show ?thesis by (intro exI conjI) auto
qed

lemma primitive_sound:
  assumes "primitive p = Inr (n, q)" and "list_all wf_token (rest p)"
  shows "\<exists>ts. derives_primitive ts n \<and> rest p = ts @ rest q \<and> p_tokens q = p_tokens p"
proof -
  obtain d p1 where d: "match_direction p = (d, p1)" by force
  from match_direction_sound [OF d] obtain ds where
    ds: "derives_dir ds d" and pds: "rest p = ds @ rest p1" and p1: "p1 = skip (length ds) p"
    by blast
  from assms(2) have wf: "list_all wf_token (rest p1)" unfolding pds by simp
  have toks: "p_tokens p1 = p_tokens p" by (simp add: p1)
  show ?thesis
  proof (cases "rest p1")
    case Nil
    with assms(1) d show ?thesis
      by (auto simp: primitive_def reading_simps split: option.splits)
  next
    case (Cons t ts)
    consider (proto) "d = None" "token_kind t = K_word" "token_text t \<in> set PROTOCOLS"
      | (other) "\<not> (d = None \<and> token_kind t = K_word \<and> token_text t \<in> set PROTOCOLS)" by blast
    then show ?thesis
    proof cases
      case proto
      with assms(1) d Cons have "n = Proto (token_text t)" "q = skip 1 p1"
        by (auto simp: primitive_def reading_simps)
      moreover from ds proto have "ds = []" by (cases rule: derives_dir.cases) auto
      ultimately show ?thesis
        using pds toks Cons word_eta [OF proto(2)] prim_proto [OF proto(3)]
        by (intro exI [of _ "[t]"]) auto
    next
      case other
      consider (host) v where "t = word (ascii ''host'')" "parse_ipv4 (skip 1 p1) = Inr (v, q)"
          "n = Host v d"
        | (port) v where "t = word (ascii ''port'')" "parse_port (skip 1 p1) = Inr (v, q)"
          "n = Port v d"
        using assms(1) d Cons other word_eta [of t]
        by (auto simp: primitive_def reading_simps then_do_Inr_iff
            split: if_splits prod.splits)
      then show ?thesis
      proof cases
        case host
        from host_sound [OF host(2) _ wf ds] Cons host(1,3) pds toks show ?thesis by auto
      next
        case port
        from port_sound [OF port(2) _ wf ds] Cons port(1,3) pds toks show ?thesis by auto
      qed
    qed
  qed
qed

lemma primitive_host:
  assumes "match_direction p = (dir, q)"
    and "rest q = word (ascii ''host'') # \<lparr>token_kind = K_ipv4, token_text = dotted_quad a b c d\<rparr> # us"
    and "octet a" "octet b" "octet c" "octet d"
  shows "primitive p = Inr (Host (address_value a b c d) dir, skip 2 q)"
proof -
  have "rest (skip 1 q) = \<lparr>token_kind = K_ipv4, token_text = dotted_quad a b c d\<rparr> # us"
    using assms(2) by simp
  from parse_ipv4_token [OF this] assms(3-6)
  have "parse_ipv4 (skip 1 q) = Inr (address_value a b c d, skip 2 q)"
    by (simp add: octet_def numeral_2_eq_2)
  with assms(1,2) show ?thesis
    by (simp add: primitive_def reading_simps PROTOCOLS_def)
qed

lemma primitive_port:
  assumes "match_direction p = (dir, q)"
    and "rest q = word (ascii ''port'') # \<lparr>token_kind = K_number, token_text = t\<rparr> # us"
    and "t \<noteq> []" "list_all is_digit t" "digits_value t \<le> 65535" "length t \<le> max_str_digits"
  shows "primitive p = Inr (Port (digits_value t) dir, skip 2 q)"
proof -
  have "rest (skip 1 q) = \<lparr>token_kind = K_number, token_text = t\<rparr> # us"
    using assms(2) by simp
  from parse_port_token [OF this] assms(3-6)
  have "parse_port (skip 1 q) = Inr (digits_value t, skip 2 q)"
    by (simp add: numeral_2_eq_2)
  with assms(1,2) show ?thesis
    by (simp add: primitive_def reading_simps PROTOCOLS_def)
qed

lemma primitive_complete:
  assumes "derives_primitive ts n" and "rest p = ts @ us" and "short_numbers ts"
  shows "primitive p = Inr (n, skip (length ts) p)"
  using assms(1)
proof (cases rule: derives_primitive.cases)
  case (prim_proto name)
  have "name \<noteq> ascii ''src''" "name \<noteq> ascii ''dst''"
    using prim_proto(3) by (auto simp: PROTOCOLS_def)
  with assms(2) prim_proto show ?thesis
    by (simp add: primitive_def match_direction_rest reading_simps)
next
  case (prim_host ds dir a b c d)
  let ?t = "\<lparr>token_kind = K_ipv4, token_text = dotted_quad a b c d\<rparr>"
  have r: "rest p = ds @ word (ascii ''host'') # ?t # us"
    using assms(2) prim_host(1) by simp
  then have "match_direction p = (dir, skip (length ds) p)"
    by (rule match_direction_complete [OF prim_host(3)]) simp_all
  from primitive_host [OF this, of a b c d us] r prim_host show ?thesis
    by simp
next
  case (prim_port ds dir t)
  let ?t = "\<lparr>token_kind = K_number, token_text = t\<rparr>"
  have r: "rest p = ds @ word (ascii ''port'') # ?t # us"
    using assms(2) prim_port(1) by simp
  then have "match_direction p = (dir, skip (length ds) p)"
    by (rule match_direction_complete [OF prim_port(3)]) simp_all
  from primitive_port [OF this, of t us] r prim_port assms(3) show ?thesis
    by simp
qed

section \<open>Expressions: the parser and the grammar agree\<close>

lemmas parser_consumes =
  parser_progress [OF parser_total [rule_format], rule_format]

text \<open>
  Soundness is stated as what a function reads from one parser state to another: a
  derivation of its category; a loop reads an extension of any derivation of the tree it
  starts from.
\<close>

type_synonym category = "Token list \<Rightarrow> Node \<Rightarrow> bool"

definition reads :: "category \<Rightarrow> Parser \<Rightarrow> Node \<Rightarrow> Parser \<Rightarrow> bool" where
  "reads D p n q \<longleftrightarrow> (\<exists>ts. D ts n \<and> rest p = ts @ rest q)"

definition reads_on :: "category \<Rightarrow> Node \<Rightarrow> Parser \<Rightarrow> Node \<Rightarrow> Parser \<Rightarrow> bool" where
  "reads_on D m p n q \<longleftrightarrow> (\<exists>ts. (\<forall>us. D us m \<longrightarrow> D (us @ ts) n) \<and> rest p = ts @ rest q)"

definition sound_at :: "category \<Rightarrow> (Parser \<Rightarrow> Node parsed) \<Rightarrow> Parser \<Rightarrow> bool" where
  "sound_at D f p \<longleftrightarrow> (list_all wf_token (rest p) \<longrightarrow> (\<forall>n q. f p = Inr (n, q) \<longrightarrow> reads D p n q))"

lemma sound_atI:
  "(\<And>n q. list_all wf_token (rest p) \<Longrightarrow> f p = Inr (n, q) \<Longrightarrow> reads D p n q) \<Longrightarrow> sound_at D f p"
  by (simp add: sound_at_def)

lemma sound_atD:
  "sound_at D f p \<Longrightarrow> list_all wf_token (rest p) \<Longrightarrow> f p = Inr (n, q) \<Longrightarrow> reads D p n q"
  by (simp add: sound_at_def)

lemma reads_wf: "reads D p n q \<Longrightarrow> list_all wf_token (rest p) \<Longrightarrow> list_all wf_token (rest q)"
  by (auto simp: reads_def)

lemma match_word_True:
  "match_word [w] p = (True, q) \<longleftrightarrow> rest p = word w # rest q \<and> q = skip 1 p"
  by (auto simp: match_word_single split: list.splits if_splits)

lemma remaining_rest: "remaining p = length (rest p)"
  by (simp add: remaining_def rest_def)

text \<open>
  The interface of one level of left-associative operators: an operand, the loop over
  the operator word, and the laws of the grammar for that level. Both levels of the
  parser (\<open>and\<close> over \<open>not_expr\<close>, \<open>or\<close> over \<open>and_expr\<close>) are instances.
\<close>

locale operator_level =
  fixes operand whole :: "Parser \<Rightarrow> Node parsed"
    and loop :: "Node \<Rightarrow> Parser \<Rightarrow> Node parsed"
    and kw :: pystr
    and mk :: "Node \<Rightarrow> Node \<Rightarrow> Node"
    and D_operand D_whole :: category
  assumes whole_eq: "whole p =
      (case operand p of Inl e \<Rightarrow> Inl e | Inr (node, q) \<Rightarrow> loop node q)"
    and loop_eq: "loop node p =
      (case match_word [kw] p of
         (True, q) \<Rightarrow>
           (case operand q of Inl e \<Rightarrow> Inl e | Inr (rhs, r) \<Rightarrow> loop (mk node rhs) r)
       | (False, _) \<Rightarrow> Inr (node, p))"
    and operand_consumes: "operand p = Inr (n, q) \<Longrightarrow> consumed p q"
    and level_one: "D_operand ts n \<Longrightarrow> D_whole ts n"
    and level_more: "D_whole ts n \<Longrightarrow> D_operand us m \<Longrightarrow> D_whole (ts @ word kw # us) (mk n m)"
begin

lemma loop_stop: "(\<And>ts. rest p \<noteq> word kw # ts) \<Longrightarrow> loop node p = Inr (node, p)"
  by (subst loop_eq) (auto simp: match_word_single split: list.splits)

lemma loop_more:
  "rest p = word kw # ts \<Longrightarrow> operand (skip 1 p) = Inr (rhs, r) \<Longrightarrow> loop node p = loop (mk node rhs) r"
  by (subst loop_eq) (simp add: match_word_single)

lemma whole_one: "operand p = Inr (node, q) \<Longrightarrow> whole p = loop node q"
  by (simp add: whole_eq)

lemma reads_on_more:
  assumes p: "rest p = word kw # rest q" and rhs: "reads D_operand q rhs r"
    and n: "reads_on D_whole (mk m rhs) r n s"
  shows "reads_on D_whole m p n s"
proof -
  from rhs n obtain ts us where ts: "D_operand ts rhs" "rest q = ts @ rest r"
    and us: "\<And>vs. D_whole vs (mk m rhs) \<Longrightarrow> D_whole (vs @ us) n" "rest r = us @ rest s"
    unfolding reads_def reads_on_def by blast
  have "D_whole (vs @ word kw # ts @ us) n" if "D_whole vs m" for vs
    using us(1) [OF level_more [OF that ts(1)]] by simp
  with p ts(2) us(2) show ?thesis
    unfolding reads_on_def by (intro exI [of _ "word kw # ts @ us"]) auto
qed

lemma loop_sound:
  assumes "\<And>q. remaining q < remaining p \<Longrightarrow> sound_at D_operand operand q"
    and "list_all wf_token (rest p)" and "loop m p = Inr (n, s)"
  shows "reads_on D_whole m p n s"
  using assms
proof (induction "remaining p" arbitrary: p m rule: less_induct)
  case less
  show ?case
  proof (cases "\<exists>ts. rest p = word kw # ts")
    case False
    then have "loop m p = Inr (m, p)" by (intro loop_stop) auto
    with less.prems(3) show ?thesis by (auto simp: reads_on_def)
  next
    case True
    then obtain ts where ts: "rest p = word kw # ts" by blast
    then have p: "rest p = word kw # rest (skip 1 p)" by simp
    then have small: "remaining (skip 1 p) < remaining p" by (metis length_Cons lessI remaining_rest)
    from p less.prems(2) have wf: "list_all wf_token (rest (skip 1 p))" by (metis list.pred_inject(2))
    from less.prems(3) ts obtain rhs r where rhs: "operand (skip 1 p) = Inr (rhs, r)"
      by (subst (asm) loop_eq) (auto simp: match_word_single split: sum.splits)
    have rd: "reads D_operand (skip 1 p) rhs r"
      by (rule sound_atD [OF less.prems(1) [OF small] wf rhs])
    have r: "remaining r < remaining p"
      using consumed_remaining [OF operand_consumes [OF rhs]] small by simp
    have "reads_on D_whole (mk m rhs) r n s"
    proof (rule less.hyps [OF r])
      show "sound_at D_operand operand q" if "remaining q < remaining r" for q
        using less.prems(1) r that by simp
      show "list_all wf_token (rest r)" by (rule reads_wf [OF rd wf])
      show "loop (mk m rhs) r = Inr (n, s)"
        using loop_more [OF p rhs] less.prems(3) by simp
    qed
    with p rd show ?thesis by (rule reads_on_more)
  qed
qed

lemma whole_sound:
  assumes here: "sound_at D_operand operand p"
    and below: "\<And>q. remaining q < remaining p \<Longrightarrow> sound_at D_operand operand q"
  shows "sound_at D_whole whole p"
proof (rule sound_atI)
  fix n q
  assume wf: "list_all wf_token (rest p)" and ok: "whole p = Inr (n, q)"
  from ok obtain m r where m: "operand p = Inr (m, r)" "loop m r = Inr (n, q)"
    by (auto simp: whole_eq split: sum.splits)
  have rd: "reads D_operand p m r" by (rule sound_atD [OF here wf m(1)])
  have "remaining r < remaining p" by (rule consumed_remaining [OF operand_consumes [OF m(1)]])
  with below have "reads_on D_whole m r n q"
    by (intro loop_sound [OF _ reads_wf [OF rd wf] m(2)]) simp
  with rd show "reads D_whole p n q"
    unfolding reads_def reads_on_def by (metis append.assoc level_one)
qed

end

interpretation and_level: operator_level not_expr and_expr and_loop "ascii ''and''" AndE derives_not derives_and
proof
  show "and_expr p = (case not_expr p of Inl e \<Rightarrow> Inl e | Inr (node, q) \<Rightarrow> and_loop node q)" for p
    by (rule and_expr.simps)
  show "and_loop node p =
      (case match_word [ascii ''and''] p of
         (True, q) \<Rightarrow> (case not_expr q of Inl e \<Rightarrow> Inl e | Inr (rhs, r) \<Rightarrow> and_loop (AndE node rhs) r)
       | (False, _) \<Rightarrow> Inr (node, p))" for node p
    by (rule and_loop.simps)
qed (rule parser_consumes and_one and_more; assumption)+

interpretation or_level: operator_level and_expr or_expr or_loop "ascii ''or''" OrE derives_and derives_or
proof
  show "or_expr p = (case and_expr p of Inl e \<Rightarrow> Inl e | Inr (node, q) \<Rightarrow> or_loop node q)" for p
    by (rule or_expr.simps)
  show "or_loop node p =
      (case match_word [ascii ''or''] p of
         (True, q) \<Rightarrow> (case and_expr q of Inl e \<Rightarrow> Inl e | Inr (rhs, r) \<Rightarrow> or_loop (OrE node rhs) r)
       | (False, _) \<Rightarrow> Inr (node, p))" for node p
    by (rule or_loop.simps)
qed (rule parser_consumes or_one or_more; assumption)+

lemma wf_paren:
  "wf_token t \<Longrightarrow> token_kind t = K_lparen \<Longrightarrow> t = \<lparr>token_kind = K_lparen, token_text = [LPAREN]\<rparr>"
  "wf_token t \<Longrightarrow> token_kind t = K_rparen \<Longrightarrow> t = \<lparr>token_kind = K_rparen, token_text = [RPAREN]\<rparr>"
  by (auto simp: wf_token_def intro: token_eta)

lemma next_is_paren:
  "next_is K_lparen p \<Longrightarrow> list_all wf_token (rest p) \<Longrightarrow>
     \<exists>ts. rest p = \<lparr>token_kind = K_lparen, token_text = [LPAREN]\<rparr> # ts"
  "next_is K_rparen p \<Longrightarrow> list_all wf_token (rest p) \<Longrightarrow>
     \<exists>ts. rest p = \<lparr>token_kind = K_rparen, token_text = [RPAREN]\<rparr> # ts"
  by (cases "rest p"; simp add: next_is_rest wf_paren)+

lemma reads_paren:
  assumes "rest p = \<lparr>token_kind = K_lparen, token_text = [LPAREN]\<rparr> # ts" and "rest q = ts"
    and "reads derives_or q n r"
    and "rest r = \<lparr>token_kind = K_rparen, token_text = [RPAREN]\<rparr> # us" and "rest s = us"
  shows "reads derives_primary p n s"
proof -
  from assms(3) obtain vs where vs: "derives_or vs n" "rest q = vs @ rest r"
    by (auto simp: reads_def)
  have "rest p = (\<lparr>token_kind = K_lparen, token_text = [LPAREN]\<rparr> # vs @
      [\<lparr>token_kind = K_rparen, token_text = [RPAREN]\<rparr>]) @ rest s"
    using assms vs(2) by simp
  with primary_paren [OF vs(1)] show ?thesis unfolding reads_def by blast
qed

lemma reads_not:
  assumes "rest p = word (ascii ''not'') # ts" and "rest q = ts" and "reads derives_not q n r"
  shows "reads derives_not p (NotE n) r"
proof -
  from assms(3) obtain vs where vs: "derives_not vs n" "rest q = vs @ rest r"
    by (auto simp: reads_def)
  have "rest p = (word (ascii ''not'') # vs) @ rest r"
    using assms vs(2) by simp
  with not_not [OF vs(1)] show ?thesis unfolding reads_def by blast
qed

lemma primary_sound:
  assumes below: "\<And>q. remaining q < remaining p \<Longrightarrow> sound_at derives_or or_expr q"
  shows "sound_at derives_primary primary p"
proof (rule sound_atI)
  fix n q
  assume wf: "list_all wf_token (rest p)" and ok: "primary p = Inr (n, q)"
  show "reads derives_primary p n q"
  proof (cases "next_is K_lparen p")
    case False
    with ok have "primitive p = Inr (n, q)" by (simp add: primary.simps)
    from primitive_sound [OF this wf] primary_primitive show ?thesis
      by (auto simp: reads_def)
  next
    case True
    then obtain ts where p: "rest p = \<lparr>token_kind = K_lparen, token_text = [LPAREN]\<rparr> # ts"
      using next_is_paren(1) wf by blast
    then have s1: "rest (skip 1 p) = ts" by simp
    from ok True p obtain r where r: "or_expr (skip 1 p) = Inr (n, r)" "next_is K_rparen r"
        "\<exists>t. advance r = Inr (t, q)"
      by (auto simp: primary.simps advance_rest split: sum.splits if_splits)
    have "remaining (skip 1 p) < remaining p" by (simp add: remaining_rest p)
    moreover have wf': "list_all wf_token (rest (skip 1 p))" using wf p by simp
    ultimately have rd: "reads derives_or (skip 1 p) n r"
      using sound_atD [OF below _ r(1)] by blast
    from next_is_paren(2) [OF r(2) reads_wf [OF rd wf']] obtain us where
      us: "rest r = \<lparr>token_kind = K_rparen, token_text = [RPAREN]\<rparr> # us" by blast
    with r(3) have "rest q = us" by (auto simp: advance_rest)
    with p s1 rd us show ?thesis by (rule reads_paren)
  qed
qed

lemma not_sound:
  assumes below: "\<And>q. remaining q < remaining p \<Longrightarrow> sound_at derives_not not_expr q"
    and prim: "sound_at derives_primary primary p"
  shows "sound_at derives_not not_expr p"
proof (rule sound_atI)
  fix n q
  assume wf: "list_all wf_token (rest p)" and ok: "not_expr p = Inr (n, q)"
  show "reads derives_not p n q"
  proof (cases "\<exists>ts. rest p = word (ascii ''not'') # ts")
    case False
    then have "match_word [ascii ''not''] p = (False, p)"
      by (auto simp: match_word_single split: list.splits)
    with ok have "primary p = Inr (n, q)" by (simp add: not_expr.simps)
    with prim wf not_primary show ?thesis by (auto simp: reads_def dest!: sound_atD)
  next
    case True
    then obtain ts where w: "rest p = word (ascii ''not'') # ts" by blast
    then have s1: "rest (skip 1 p) = ts" by simp
    from ok w obtain m where m: "not_expr (skip 1 p) = Inr (m, q)" "n = NotE m"
      by (auto simp: not_expr.simps [of p] match_word_single split: sum.splits)
    have "remaining (skip 1 p) < remaining p" by (simp add: remaining_rest w)
    moreover have "list_all wf_token (rest (skip 1 p))" using wf w by simp
    ultimately have "reads derives_not (skip 1 p) m q" using sound_atD [OF below _ m(1)] by blast
    with w s1 show ?thesis unfolding m(2) by (rule reads_not)
  qed
qed

lemma parser_sound:
  "sound_at derives_not not_expr p \<and> sound_at derives_and and_expr p \<and> sound_at derives_or or_expr p"
proof (induction "remaining p" arbitrary: p rule: less_induct)
  case less
  have below: "sound_at derives_not not_expr q" "sound_at derives_and and_expr q"
    "sound_at derives_or or_expr q" if "remaining q < remaining p" for q
    using less [OF that] by blast+
  have n: "sound_at derives_not not_expr p"
    by (rule not_sound [OF below(1) primary_sound [OF below(3)]])
  have a: "sound_at derives_and and_expr p"
    by (rule and_level.whole_sound [OF n below(1)])
  have "sound_at derives_or or_expr p"
    by (rule or_level.whole_sound [OF a below(2)])
  with n a show ?case by blast
qed

text \<open>
  Completeness: a derivation is read back whatever follows it, as long as what follows
  does not continue it. An operand's derivation leads its level's loop.
\<close>

definition starts_with :: "pystr \<Rightarrow> Token list \<Rightarrow> bool" where
  "starts_with w ts \<longleftrightarrow> (\<exists>us. ts = word w # us)"

lemma primitive_start:
  assumes "derives_primitive ts n"
  shows "\<exists>w us. ts = word w # us \<and> w \<noteq> ascii ''not''"
  using assms
proof (cases rule: derives_primitive.cases)
  case (prim_proto name)
  then show ?thesis by (auto simp: PROTOCOLS_def)
next
  case (prim_host ds dir a b c d)
  from prim_host(3) show ?thesis
    by (cases rule: derives_dir.cases) (use prim_host(1) in auto)
next
  case (prim_port ds dir t)
  from prim_port(3) show ?thesis
    by (cases rule: derives_dir.cases) (use prim_port(1) in auto)
qed

text \<open>
  Completeness by induction on the derivation. The claim for \<open>and\<close> and \<open>or\<close>: reading
  a derivation of the level arrives at the level's loop with the derivation's tree. What
  follows must not be the operator of a tighter level.
\<close>

lemma drop_word: "rest p = ts @ word w # us \<Longrightarrow> rest (skip (length ts) p) = word w # us"
  by simp

lemma or_more_complete:
  assumes p: "rest p = ts @ word (ascii ''or'') # vs @ us"
    and left: "or_expr p = or_loop n (skip (length ts) p)"
    and right: "and_expr (skip 1 (skip (length ts) p)) = and_loop m (skip (length vs) (skip 1 (skip (length ts) p)))"
    and stop: "\<not> starts_with (ascii ''and'') us"
  shows "or_expr p = or_loop (OrE n m) (skip (length (ts @ word (ascii ''or'') # vs)) p)"
proof -
  let ?r = "skip (length (ts @ word (ascii ''or'') # vs)) p"
  have "and_loop m ?r = Inr (m, ?r)"
    by (rule and_level.loop_stop) (use p stop in \<open>auto simp: starts_with_def\<close>)
  with right have "and_expr (skip 1 (skip (length ts) p)) = Inr (m, ?r)" by simp
  with left show ?thesis using or_level.loop_more [OF drop_word [OF p]] by simp
qed

lemma paren_complete:
  assumes p: "rest p = \<lparr>token_kind = K_lparen, token_text = [LPAREN]\<rparr> # ts @
      \<lparr>token_kind = K_rparen, token_text = [RPAREN]\<rparr> # us"
    and inside: "or_expr (skip 1 p) = or_loop n (skip (length ts) (skip 1 p))"
  shows "primary p = Inr (n, skip (length ts + 2) p) \<and> not_expr p = Inr (n, skip (length ts + 2) p)"
proof -
  let ?r = "skip (length ts) (skip 1 p)"
  have "or_loop n ?r = Inr (n, ?r)"
    by (rule or_level.loop_stop) (use p in \<open>auto simp: word_def\<close>)
  with inside have "primary p = Inr (n, skip 1 ?r)"
    using p by (simp add: primary.simps next_is_rest advance_rest)
  moreover have "not_expr p = primary p"
    using p by (simp add: not_expr.simps [of p] match_word_single word_def)
  ultimately show ?thesis by simp
qed

lemma parser_complete:
  "derives_or ts n \<Longrightarrow> short_numbers ts \<Longrightarrow> rest p = ts @ us \<Longrightarrow>
     \<not> starts_with (ascii ''and'') us \<Longrightarrow> or_expr p = or_loop n (skip (length ts) p)"
  "derives_and ts n \<Longrightarrow> short_numbers ts \<Longrightarrow> rest p = ts @ us \<Longrightarrow>
     and_expr p = and_loop n (skip (length ts) p)"
  "derives_not ts n \<Longrightarrow> short_numbers ts \<Longrightarrow> rest p = ts @ us \<Longrightarrow>
     not_expr p = Inr (n, skip (length ts) p)"
  "derives_primary ts n \<Longrightarrow> short_numbers ts \<Longrightarrow> rest p = ts @ us \<Longrightarrow>
     primary p = Inr (n, skip (length ts) p) \<and> not_expr p = Inr (n, skip (length ts) p)"
proof (induction arbitrary: p us and p us and p us and p us
    rule: derives_or_derives_and_derives_not_derives_primary.inducts)
  case (or_one ts n)
  have "and_loop n (skip (length ts) p) = Inr (n, skip (length ts) p)"
    by (rule and_level.loop_stop) (use or_one.prems in \<open>auto simp: starts_with_def\<close>)
  with or_one.IH [OF or_one.prems(1,2)] show ?case by (intro or_level.whole_one) simp
next
  case (or_more ts n vs m)
  have p: "rest p = ts @ word (ascii ''or'') # vs @ us" using or_more.prems by simp
  have s: "short_numbers ts" "short_numbers vs" using or_more.prems(1) by simp_all
  have "or_expr p = or_loop n (skip (length ts) p)"
    by (rule or_more.IH(1) [OF s(1) p]) (simp add: starts_with_def)
  moreover have "and_expr (skip 1 (skip (length ts) p)) = and_loop m (skip (length vs) (skip 1 (skip (length ts) p)))"
    by (rule or_more.IH(2) [OF s(2)]) (use p in simp)
  ultimately show ?case by (rule or_more_complete [OF p]) (use or_more.prems in simp)
next
  case (and_one ts n)
  from and_one.IH [OF and_one.prems] show ?case by (rule and_level.whole_one)
next
  case (and_more ts n vs m)
  let ?q = "skip (length ts) p"
  have p: "rest p = ts @ word (ascii ''and'') # vs @ us" using and_more.prems by simp
  have s: "short_numbers ts" "short_numbers vs" using and_more.prems(1) by simp_all
  have "and_expr p = and_loop n ?q" by (rule and_more.IH(1) [OF s(1) p])
  moreover have "not_expr (skip 1 ?q) = Inr (m, skip (length vs) (skip 1 ?q))"
    by (rule and_more.IH(2) [OF s(2)]) (use p in simp)
  ultimately show ?case
    using and_level.loop_more [OF drop_word [OF p]] by simp
next
  case (not_not ts n)
  have "not_expr (skip 1 p) = Inr (n, skip (length ts) (skip 1 p))"
    by (rule not_not.IH) (use not_not.prems in simp_all)
  with not_not.prems(2) show ?case
    by (simp add: not_expr.simps [of p] match_word_single)
next
  case (not_primary ts n)
  then show ?case by blast
next
  case (primary_paren ts n)
  have "or_expr (skip 1 p) = or_loop n (skip (length ts) (skip 1 p))"
    by (rule primary_paren.IH) (use primary_paren.prems in \<open>auto simp: starts_with_def word_def\<close>)
  from paren_complete [OF _ this] primary_paren.prems show ?case by simp
next
  case (primary_primitive ts n)
  from primitive_start [OF primary_primitive.hyps] obtain w vs where
    w: "ts = word w # vs" "w \<noteq> ascii ''not''" by blast
  have "primary p = primitive p"
    using w primary_primitive.prems by (simp add: primary.simps next_is_rest)
  moreover have "not_expr p = primary p"
    using w primary_primitive.prems by (simp add: not_expr.simps [of p] match_word_single)
  ultimately show ?case
    using primitive_complete [OF primary_primitive.hyps] primary_primitive.prems by simp
qed

section \<open>The whole parse\<close>

lemma rest_start [simp]: "rest \<lparr>p_tokens = tokens, p_pos = 0\<rparr> = tokens"
  by (simp add: rest_def)

lemma parse_sound:
  assumes "parse ts = Inr n" and "list_all wf_token ts"
  shows "derives_or ts n"
proof -
  let ?p = "\<lparr>p_tokens = ts, p_pos = 0\<rparr>"
  from assms(1) obtain q where q: "or_expr ?p = Inr (n, q)" "p_pos q = length ts"
    by (auto simp: parse_def then_do_Inr_iff split: if_splits)
  have "p_tokens q = ts" using parser_consumes(1) [OF q(1)] by (simp add: consumed_def)
  with q(2) have "rest q = []" by (simp add: rest_def)
  moreover have "reads derives_or ?p n q"
    using parser_sound [of ?p] q(1) assms(2) by (auto dest: sound_atD)
  ultimately show ?thesis by (auto simp: reads_def)
qed

lemma parse_complete:
  assumes "derives_or ts n" and "short_numbers ts"
  shows "parse ts = Inr n"
proof -
  let ?p = "\<lparr>p_tokens = ts, p_pos = 0\<rparr>" and ?q = "skip (length ts) \<lparr>p_tokens = ts, p_pos = 0\<rparr>"
  have "or_expr ?p = or_loop n ?q"
    by (rule parser_complete(1) [OF assms, of _ "[]"]) (simp_all add: starts_with_def)
  moreover have "or_loop n ?q = Inr (n, ?q)"
    by (rule or_level.loop_stop) simp
  ultimately show ?thesis by (simp add: parse_def skip_def)
qed

lemma parse_iff:
  "list_all wf_token ts \<Longrightarrow> short_numbers ts \<Longrightarrow> parse ts = Inr n \<longleftrightarrow> derives_or ts n"
  using parse_sound parse_complete by blast

text \<open>The trees the parser builds: known protocol names, 32-bit addresses, 16-bit ports.\<close>

fun wf_node :: "Node \<Rightarrow> bool" where
  "wf_node (Proto name) \<longleftrightarrow> name \<in> set PROTOCOLS"
| "wf_node (Host addr dir) \<longleftrightarrow> addr < 2 ^ 32"
| "wf_node (Port port dir) \<longleftrightarrow> port < 2 ^ 16"
| "wf_node (NotE n) \<longleftrightarrow> wf_node n"
| "wf_node (AndE n m) \<longleftrightarrow> wf_node n \<and> wf_node m"
| "wf_node (OrE n m) \<longleftrightarrow> wf_node n \<and> wf_node m"

lemma derives_primitive_wf: "derives_primitive ts n \<Longrightarrow> wf_node n"
  by (induction rule: derives_primitive.induct)
    (use address_value_bound in \<open>auto simp del: address_value.simps\<close>)

lemma derives_wf_node:
  "derives_or ts n \<Longrightarrow> wf_node n"
  "derives_and ts n \<Longrightarrow> wf_node n"
  "derives_not ts n \<Longrightarrow> wf_node n"
  "derives_primary ts n \<Longrightarrow> wf_node n"
  by (induction rule: derives_or_derives_and_derives_not_derives_primary.inducts)
    (auto dest: derives_primitive_wf)

lemma derives_nonempty:
  "derives_or ts n \<Longrightarrow> ts \<noteq> []"
  "derives_and ts n \<Longrightarrow> ts \<noteq> []"
  "derives_not ts n \<Longrightarrow> ts \<noteq> []"
  "derives_primary ts n \<Longrightarrow> ts \<noteq> []"
  by (induction rule: derives_or_derives_and_derives_not_derives_primary.inducts)
    (auto dest: primitive_start)

lemma parse_wf_node: "parse ts = Inr n \<Longrightarrow> list_all wf_token ts \<Longrightarrow> wf_node n"
  using parse_sound derives_wf_node(1) by blast

section \<open>The errors of the parser\<close>

text \<open>
  What the parser can raise: an error of its own checks, or, on a token list with a
  number of more than 4300 digits, the \<^verbatim>\<open>ValueError\<close> of \<^verbatim>\<open>int()\<close>, which it does not catch.
\<close>

fun parser_error :: "compile_error \<Rightarrow> bool" where
  "parser_error (BPFCompileError (JumpTooFar d)) = False"
| "parser_error (BPFCompileError EmptyExpression) = False"
| "parser_error (BPFCompileError r) = True"
| "parser_error IntDigitsError = False"
| "parser_error LabelKeyError = False"

text \<open>The text of the expression an error shows.\<close>

fun quoted_text :: "compile_error \<Rightarrow> pystr option" where
  "quoted_text (BPFCompileError (UnexpectedCharacter c p)) = Some [c]"
| "quoted_text (BPFCompileError (UnexpectedToken t)) = Some t"
| "quoted_text (BPFCompileError (PrimitiveExpectedAfter t)) = Some t"
| "quoted_text (BPFCompileError (UnknownPrimitive t)) = Some t"
| "quoted_text (BPFCompileError (PrimitiveExpectedFound t)) = Some t"
| "quoted_text (BPFCompileError (AddressExpected t)) = t"
| "quoted_text (BPFCompileError (InvalidAddress t)) = Some t"
| "quoted_text (BPFCompileError (PortExpected t)) = t"
| "quoted_text e = None"

definition quotes_token :: "Token list \<Rightarrow> compile_error \<Rightarrow> bool" where
  "quotes_token ts e \<longleftrightarrow> (\<forall>t. quoted_text e = Some t \<longrightarrow> (\<exists>tok \<in> set ts. token_text tok = t))"

definition fails_well :: "Parser \<Rightarrow> compile_error \<Rightarrow> bool" where
  "fails_well p e \<longleftrightarrow> parser_error e \<and> quotes_token (p_tokens p) e \<or>
     (e = IntDigitsError \<and> \<not> (list_all wf_token (p_tokens p) \<and> short_numbers (p_tokens p)))"

lemma fails_well_tokens: "fails_well q e \<Longrightarrow> p_tokens q = p_tokens p \<Longrightarrow> fails_well p e"
  by (simp add: fails_well_def)

lemma rest_in_tokens: "rest p = t # ts \<Longrightarrow> t \<in> set (p_tokens p)"
  unfolding rest_def by (metis in_set_dropD list.set_intros(1))

lemma fails_quoting_nothing [simp]:
  "parser_error e \<Longrightarrow> quoted_text e = None \<Longrightarrow> fails_well p e"
  by (simp add: fails_well_def quotes_token_def)

lemma fails_quoting_next:
  "rest p = t # ts \<Longrightarrow> parser_error e \<Longrightarrow> quoted_text e = Some (token_text t) \<Longrightarrow> fails_well p e"
  by (auto simp: fails_well_def quotes_token_def dest: rest_in_tokens)

lemma advance_fails: "advance p = Inl e \<Longrightarrow> fails_well p e"
  by (auto simp: advance_rest split: list.splits)

lemma found_text_fails:
  assumes "parser_error e" "quoted_text e = found_text p"
  shows "fails_well p e"
proof (cases "rest p")
  case Nil
  with assms show ?thesis by (simp add: found_text_def peek_rest)
next
  case (Cons t ts)
  from fails_quoting_next [OF this assms(1)] assms(2) Cons show ?thesis by (simp add: found_text_def peek_rest)
qed

lemma match_direction_word:
  "match_direction p = (Some dir, q) \<Longrightarrow> \<exists>tok \<in> set (p_tokens p). token_text tok = direction_word dir"
  by (cases "rest p")
    (auto simp: match_direction_def match_word_rest dest!: rest_in_tokens split: if_splits)

lemma int_digits_fails:
  "\<not> (list_all wf_token (p_tokens p) \<and> short_numbers (p_tokens p)) \<Longrightarrow> fails_well p IntDigitsError"
  by (simp add: fails_well_def)

lemma parse_ipv4_fails: "parse_ipv4 p = Inl e \<Longrightarrow> fails_well p e"
proof -
  assume e: "parse_ipv4 p = Inl e"
  show ?thesis
  proof (cases "next_is K_ipv4 p")
    case False
    with e show ?thesis by (auto simp: parse_ipv4_def intro: found_text_fails)
  next
    case True
    then obtain t ts where r: "rest p = t # ts" "token_kind t = K_ipv4"
      by (auto simp: next_is_rest split: list.splits)
    note quote = fails_quoting_next [OF r(1), of "BPFCompileError (InvalidAddress (token_text t))"]
    show ?thesis
    proof (cases "list_all wf_token (p_tokens p)")
      case False
      with e True r quote show ?thesis
        by (auto simp: parse_ipv4_def advance_rest int_digits_fails split: if_splits option.splits)
    next
      case wf: True
      with rest_in_tokens [OF r(1)] have "wf_token t" by (auto simp: list_all_iff)
      with r obtain a b c d where shape: "token_text t = dotted_quad a b c d"
        and g: "digit_group a" "digit_group b" "digit_group c" "digit_group d"
        by (auto simp: wf_token_def)
      from parse_ipv4_token [of p a b c d ts] token_eta [OF r(2) shape] r g e quote shape
      show ?thesis by (auto split: if_splits)
    qed
  qed
qed

lemma parse_port_fails: "parse_port p = Inl e \<Longrightarrow> fails_well p e"
proof -
  assume e: "parse_port p = Inl e"
  show ?thesis
  proof (cases "next_is K_number p")
    case False
    with e show ?thesis by (auto simp: parse_port_def intro: found_text_fails)
  next
    case True
    then obtain t ts where r: "rest p = t # ts" "token_kind t = K_number"
      by (auto simp: next_is_rest split: list.splits)
    show ?thesis
    proof (cases "list_all wf_token (p_tokens p) \<and> short_numbers (p_tokens p)")
      case False
      with e True r show ?thesis
        by (auto simp: parse_port_def advance_rest int_digits_fails split: if_splits option.splits)
    next
      case wf: True
      with rest_in_tokens [OF r(1)] r(2) have "wf_token t" "length (token_text t) \<le> max_str_digits"
        by (auto simp: list_all_iff short_numbers_def)
      with r have g: "token_text t \<noteq> []" "list_all is_digit (token_text t)"
        by (auto simp: wf_token_def)
      from parse_port_token [of p "token_text t" ts] token_eta [OF r(2) refl] r g e
        \<open>length (token_text t) \<le> max_str_digits\<close>
      show ?thesis by (auto split: if_splits)
    qed
  qed
qed

lemma primitive_fails: "primitive p = Inl e \<Longrightarrow> fails_well p e"
proof -
  assume e: "primitive p = Inl e"
  obtain d q where d: "match_direction p = (d, q)" by force
  have toks: "p_tokens q = p_tokens p"
    using match_direction_cases [OF d] by (auto simp: consumed_def)
  show ?thesis
  proof (cases "rest q")
    case Nil
    with e d match_direction_word [of p _ q] show ?thesis
      by (auto simp: primitive_def reading_simps fails_well_def quotes_token_def split: option.splits)
  next
    case (Cons t ts)
    note quote = fails_quoting_next [OF Cons]
    from e d Cons have "fails_well q e"
      by (auto simp: primitive_def reading_simps quote split: if_splits sum.splits
          elim!: then_do_Inl_cases intro: fails_well_tokens dest!: parse_ipv4_fails parse_port_fails)
    with toks show ?thesis by (auto intro: fails_well_tokens)
  qed
qed

lemma consumed_tokens: "consumed p q \<Longrightarrow> p_tokens q = p_tokens p"
  by (simp add: consumed_def)

lemma fails_well_later: "fails_well q e \<Longrightarrow> consumed p q \<Longrightarrow> fails_well p e"
  by (auto intro: fails_well_tokens dest: consumed_tokens)

definition fails_well_at :: "(Parser \<Rightarrow> Node parsed) \<Rightarrow> Parser \<Rightarrow> bool" where
  "fails_well_at f p \<longleftrightarrow> (\<forall>e. f p = Inl e \<longrightarrow> fails_well p e)"

lemma fails_well_atD: "fails_well_at f p \<Longrightarrow> f p = Inl e \<Longrightarrow> fails_well p e"
  by (simp add: fails_well_at_def)

context operator_level
begin

lemma loop_fails:
  assumes "\<And>q. remaining q < remaining p \<Longrightarrow> fails_well_at operand q" and "loop m p = Inl e"
  shows "fails_well p e"
  using assms
proof (induction "remaining p" arbitrary: p m rule: less_induct)
  case less
  obtain b q where bq: "match_word [kw] p = (b, q)" by force
  show ?case
  proof (cases b)
    case False
    with less.prems(2) bq show ?thesis by (subst (asm) loop_eq) simp
  next
    case True
    then have q: "consumed p q" using match_word_consumed bq by simp
    note small = consumed_remaining [OF q]
    show ?thesis
    proof (cases "operand q")
      case (Inl f)
      with less.prems(2) bq True have "f = e" by (subst (asm) loop_eq) simp
      with less.prems(1) [OF small] Inl have "fails_well q e" by (simp add: fails_well_at_def)
      with q show ?thesis by (rule fails_well_later [rotated])
    next
      case (Inr r)
      obtain rhs s where rs: "r = (rhs, s)" by force
      with Inr have s: "consumed q s" using operand_consumes by simp
      have "loop (mk m rhs) s = Inl e"
        using less.prems(2) bq True Inr rs by (subst (asm) loop_eq) simp
      moreover have le: "remaining s < remaining p" using consumed_remaining [OF s] small by simp
      ultimately have "fails_well s e" using less.hyps [OF le, of "mk m rhs"] less.prems(1) by force
      with s have "fails_well q e" by (rule fails_well_later [rotated])
      with q show ?thesis by (rule fails_well_later [rotated])
    qed
  qed
qed

lemma whole_fails:
  assumes here: "fails_well_at operand p"
    and below: "\<And>q. remaining q < remaining p \<Longrightarrow> fails_well_at operand q"
  shows "fails_well_at whole p"
  unfolding fails_well_at_def
proof (intro allI impI)
  fix e
  assume e: "whole p = Inl e"
  show "fails_well p e"
  proof (cases "operand p")
    case (Inl f)
    with e fails_well_atD [OF here Inl] show ?thesis by (simp add: whole_eq)
  next
    case (Inr r)
    obtain n q where q: "r = (n, q)" by force
    with Inr have c: "consumed p q" using operand_consumes by simp
    have "loop n q = Inl e" using e Inr q by (simp add: whole_eq)
    then have "fails_well q e"
      by (rule loop_fails [rotated]) (use below consumed_remaining [OF c] in force)
    with c show ?thesis by (rule fails_well_later [rotated])
  qed
qed

end

lemma primary_fails:
  assumes "\<And>q. remaining q < remaining p \<Longrightarrow> fails_well_at or_expr q"
  shows "fails_well_at primary p"
  unfolding fails_well_at_def
proof (intro allI impI)
  fix e
  assume e: "primary p = Inl e"
  show "fails_well p e"
  proof (cases "next_is K_lparen p")
    case False
    with e primitive_fails show ?thesis by (simp add: primary.simps [of p])
  next
    case True
    then obtain t ts where r: "rest p = t # ts" by (auto simp: next_is_rest split: list.splits)
    then have adv: "advance p = Inr (t, skip 1 p)" by (simp add: advance_rest)
    note c = advance_consumed [OF adv]
    show ?thesis
    proof (cases "or_expr (skip 1 p)")
      case (Inl f)
      with e True adv have "f = e" by (simp add: primary.simps [of p])
      with Inl assms [OF consumed_remaining [OF c]] have "fails_well (skip 1 p) e"
        by (simp add: fails_well_at_def)
      with c show ?thesis by (rule fails_well_later [rotated])
    next
      case (Inr r)
      with e True adv show ?thesis
        by (auto simp: primary.simps [of p] next_is_rest advance_rest
            split: prod.splits if_splits list.splits)
    qed
  qed
qed

lemma not_fails:
  assumes "\<And>q. remaining q < remaining p \<Longrightarrow> fails_well_at not_expr q" and "fails_well_at primary p"
  shows "fails_well_at not_expr p"
  unfolding fails_well_at_def
proof (intro allI impI)
  fix e
  assume e: "not_expr p = Inl e"
  obtain b q where bq: "match_word [ascii ''not''] p = (b, q)" by force
  show "fails_well p e"
  proof (cases b)
    case False
    with e bq assms(2) show ?thesis by (simp add: not_expr.simps [of p] fails_well_at_def)
  next
    case True
    then have c: "consumed p q" using match_word_consumed bq by simp
    have "not_expr q = Inl e"
      using e bq True by (auto simp: not_expr.simps [of p] split: sum.splits)
    with assms(1) [OF consumed_remaining [OF c]] have "fails_well q e" by (rule fails_well_atD)
    with c show ?thesis by (rule fails_well_later [rotated])
  qed
qed

lemma parser_fails:
  "fails_well_at not_expr p \<and> fails_well_at and_expr p \<and> fails_well_at or_expr p"
proof (induction "remaining p" arbitrary: p rule: less_induct)
  case less
  have below: "fails_well_at not_expr q" "fails_well_at and_expr q" "fails_well_at or_expr q"
    if "remaining q < remaining p" for q
    using less [OF that] by blast+
  have n: "fails_well_at not_expr p" by (rule not_fails [OF below(1) primary_fails [OF below(3)]])
  have a: "fails_well_at and_expr p" by (rule and_level.whole_fails [OF n below(1)])
  have "fails_well_at or_expr p" by (rule or_level.whole_fails [OF a below(2)])
  with n a show ?case by blast
qed

lemma parse_fails_quoting:
  assumes "parse ts = Inl e"
  shows "parser_error e \<and> quotes_token ts e \<or>
    (e = IntDigitsError \<and> \<not> (list_all wf_token ts \<and> short_numbers ts))"
proof -
  let ?p = "\<lparr>p_tokens = ts, p_pos = 0\<rparr>"
  show ?thesis
  proof (cases "or_expr ?p")
    case (Inl f)
    then have "fails_well ?p e"
      using assms parser_fails [of ?p] by (auto simp: parse_def fails_well_at_def)
    then show ?thesis by (simp add: fails_well_def)
  next
    case (Inr r)
    obtain n q where q: "r = (n, q)" by force
    with Inr have toks: "p_tokens q = ts" using parser_consumes(1) [of ?p n q] by (simp add: consumed_def)
    show ?thesis
    proof (cases "rest q")
      case Nil
      with assms Inr q show ?thesis by (auto simp: parse_def peek_rest quotes_token_def split: if_splits)
    next
      case (Cons t us)
      with assms Inr q rest_in_tokens [OF Cons] toks show ?thesis
        by (auto simp: parse_def peek_rest quotes_token_def split: if_splits)
    qed
  qed
qed

lemma parse_fails:
  "parse ts = Inl e \<Longrightarrow> parser_error e \<or> (e = IntDigitsError \<and> \<not> (list_all wf_token ts \<and> short_numbers ts))"
  using parse_fails_quoting by blast

text \<open>The \<^verbatim>\<open>ValueError\<close>: \<open>port\<close> with a number of more than 4300 digits.\<close>

lemma parse_overlong_port:
  assumes "list_all is_digit t" and "max_str_digits < length t"
  shows "parse [word (ascii ''port''), \<lparr>token_kind = K_number, token_text = t\<rparr>] = Inl IntDigitsError"
proof -
  let ?p = "\<lparr>p_tokens = [word (ascii ''port''), \<lparr>token_kind = K_number, token_text = t\<rparr>], p_pos = 0\<rparr>"
  have "t \<noteq> []" using assms(2) by auto
  have "rest (skip 1 ?p) = [\<lparr>token_kind = K_number, token_text = t\<rparr>]" by simp
  from parse_port_token [OF this \<open>t \<noteq> []\<close> assms(1)] assms(2)
  have "parse_port (skip 1 ?p) = Inl IntDigitsError" by simp
  then have "primitive ?p = Inl IntDigitsError"
    by (simp add: primitive_def match_direction_rest reading_simps PROTOCOLS_def)
  then have "primary ?p = Inl IntDigitsError"
    by (subst primary.simps) (simp add: next_is_rest)
  then have "not_expr ?p = Inl IntDigitsError"
    by (subst not_expr.simps) (simp add: match_word_single)
  then have "or_expr ?p = Inl IntDigitsError"
    by (subst or_expr.simps, subst and_expr.simps) simp
  then show ?thesis by (simp add: parse_def)
qed

end
