(* ===== verification/Py_Struct.thy ===== *)
theory Py_Struct
  imports RW_Prelude
begin

text \<open>
  Python's \<^verbatim>\<open>struct\<close> module for the formats the sources use: fields of standard size with
  no alignment (the prefixes \<^verbatim>\<open>=\<close>, \<^verbatim>\<open><\<close>, \<^verbatim>\<open>>\<close>), the codes \<^verbatim>\<open>B\<close>, \<^verbatim>\<open>H\<close>, \<^verbatim>\<open>I\<close> and
  \<^verbatim>\<open>i\<close>. Packing an integer outside its field's range raises \<^verbatim>\<open>struct.error\<close>. The
  theory ends with the interface of a fixed-size codec and what a sequence of packed
  records promises, proved once for every codec.
\<close>

section \<open>Formats\<close>

datatype fmt_code = F_B | F_H | F_I | F_i

datatype struct_error = StructError

fun code_size :: "fmt_code \<Rightarrow> nat" where
  "code_size F_B = 1"
| "code_size F_H = 2"
| "code_size F_I = 4"
| "code_size F_i = 4"

fun in_range :: "fmt_code \<Rightarrow> int \<Rightarrow> bool" where
  "in_range F_B v \<longleftrightarrow> 0 \<le> v \<and> v < 256"
| "in_range F_H v \<longleftrightarrow> 0 \<le> v \<and> v < 65536"
| "in_range F_I v \<longleftrightarrow> 0 \<le> v \<and> v < 4294967296"
| "in_range F_i v \<longleftrightarrow> - 2147483648 \<le> v \<and> v < 2147483648"

definition calcsize :: "fmt_code list \<Rightarrow> nat" where
  "calcsize fs = sum_list (map code_size fs)"

definition pack1 :: "endian \<Rightarrow> fmt_code \<Rightarrow> int \<Rightarrow> bytes" where
  "pack1 e f v = to_bytes e (code_size f) (nat (v mod 256 ^ code_size f))"

definition unpack1 :: "endian \<Rightarrow> fmt_code \<Rightarrow> bytes \<Rightarrow> int" where
  "unpack1 e f bs =
     (let v = int (from_bytes e (take (code_size f) bs))
      in if f = F_i \<and> v \<ge> 2147483648 then v - 4294967296 else v)"

text \<open>\<^verbatim>\<open>Struct.pack(*values)\<close>: also a \<^verbatim>\<open>struct.error\<close> when the number of values is wrong.\<close>

fun pack :: "endian \<Rightarrow> fmt_code list \<Rightarrow> int list \<Rightarrow> struct_error + bytes" where
  "pack e [] [] = Inr []"
| "pack e (f # fs) (v # vs) =
     (if in_range f v
      then then_do (pack e fs vs) (\<lambda>bs. Inr (pack1 e f v @ bs))
      else Inl StructError)"
| "pack e _ _ = Inl StructError"

text \<open>\<^verbatim>\<open>Struct.unpack_from(buffer, offset)\<close>: the buffer must hold the whole record.\<close>

fun unpack_fields :: "endian \<Rightarrow> fmt_code list \<Rightarrow> bytes \<Rightarrow> int list" where
  "unpack_fields e [] bs = []"
| "unpack_fields e (f # fs) bs =
     unpack1 e f bs # unpack_fields e fs (drop (code_size f) bs)"

definition unpack_from :: "endian \<Rightarrow> fmt_code list \<Rightarrow> bytes \<Rightarrow> nat \<Rightarrow> struct_error + int list" where
  "unpack_from e fs bs off =
     (if off + calcsize fs \<le> length bs then Inr (unpack_fields e fs (drop off bs))
      else Inl StructError)"

lemma calcsize_simps [simp]:
  "calcsize [] = 0" "calcsize (f # fs) = code_size f + calcsize fs"
  by (simp_all add: calcsize_def)

lemma length_pack1 [simp]: "length (pack1 e f v) = code_size f"
  by (simp add: pack1_def)

lemma pack_length: "pack e fs vs = Inr bs \<Longrightarrow> length bs = calcsize fs"
  by (induction e fs vs arbitrary: bs rule: pack.induct)
    (auto simp: then_do_Inr_iff split: if_splits)

lemma from_bytes_pack1:
  "int (from_bytes e (take (code_size f) (pack1 e f v @ bs))) = v mod 256 ^ code_size f"
proof -
  have "nat (v mod 256 ^ code_size f) < 256 ^ code_size f"
    by (simp add: nat_less_iff)
  then show ?thesis by (simp add: pack1_def from_bytes_to_bytes_fits)
qed

lemma signed_mod:
  "- 2147483648 \<le> v \<Longrightarrow> v < 2147483648 \<Longrightarrow>
    v mod 4294967296 = (if 0 \<le> v then v else v + 4294967296)" for v :: int
  using mod_add_self2 [of v 4294967296] mod_pos_pos_trivial [of "v + 4294967296" 4294967296]
  by simp

lemma unpack1_pack1: "in_range f v \<Longrightarrow> unpack1 e f (pack1 e f v @ bs) = v"
  using from_bytes_pack1 [of e f v bs]
  by (cases f) (auto simp: unpack1_def Let_def signed_mod)

lemma unpack_fields_pack:
  "pack e fs vs = Inr bs \<Longrightarrow> unpack_fields e fs (bs @ rest) = vs"
  by (induction e fs vs arbitrary: bs rule: pack.induct)
    (auto simp: then_do_Inr_iff unpack1_pack1 split: if_splits)

lemma pack_total:
  "list_all2 in_range fs vs \<Longrightarrow> \<exists>bs. pack e fs vs = Inr bs"
proof (induction fs vs rule: list_all2_induct)
  case Nil
  then show ?case by simp
next
  case (Cons f fs v vs)
  then show ?case by auto
qed

lemma pack_Inr_iff: "(\<exists>bs. pack e fs vs = Inr bs) \<longleftrightarrow> list_all2 in_range fs vs"
proof
  assume "\<exists>bs. pack e fs vs = Inr bs"
  then show "list_all2 in_range fs vs"
    by (induction e fs vs rule: pack.induct) (auto simp: then_do_Inr_iff split: if_splits)
qed (rule pack_total)

section \<open>Sequences of fixed-size records\<close>

text \<open>\<^verbatim>\<open>b"".join(S.pack(*r) for r in records)\<close>: the first record out of range raises.\<close>

fun pack_all :: "('a \<Rightarrow> struct_error + bytes) \<Rightarrow> 'a list \<Rightarrow> struct_error + bytes" where
  "pack_all enc [] = Inr []"
| "pack_all enc (r # rs) =
     then_do (enc r) (\<lambda>b. then_do (pack_all enc rs) (\<lambda>bs. Inr (b @ bs)))"

text \<open>Reading \<open>n\<close> records of \<open>sz\<close> bytes one after the other.\<close>

fun unpack_all :: "(bytes \<Rightarrow> 'a) \<Rightarrow> nat \<Rightarrow> nat \<Rightarrow> bytes \<Rightarrow> 'a list" where
  "unpack_all dec sz 0 bs = []"
| "unpack_all dec sz (Suc n) bs = dec bs # unpack_all dec sz n (drop sz bs)"

text \<open>
  The interface of a record format: every packed record has the same size, and reading
  a buffer that starts with a packed record gives the record back.
\<close>

locale fixed_codec =
  fixes enc :: "'a \<Rightarrow> struct_error + bytes"
    and dec :: "bytes \<Rightarrow> 'a"
    and sz :: nat
  assumes enc_length: "enc r = Inr b \<Longrightarrow> length b = sz"
    and dec_enc: "enc r = Inr b \<Longrightarrow> dec (b @ rest) = r"
begin

lemma pack_all_length: "pack_all enc rs = Inr bs \<Longrightarrow> length bs = sz * length rs"
  by (induction rs arbitrary: bs) (auto simp: then_do_Inr_iff enc_length)

lemma unpack_pack_all:
  "pack_all enc rs = Inr bs \<Longrightarrow> unpack_all dec sz (length rs) (bs @ rest) = rs"
  by (induction rs arbitrary: bs) (auto simp: then_do_Inr_iff enc_length dec_enc)

lemma unpack_pack_prefix:
  "pack_all enc rs = Inr bs \<Longrightarrow> n \<le> length rs \<Longrightarrow> unpack_all dec sz n (bs @ rest) = take n rs"
proof (induction rs arbitrary: bs n)
  case Nil
  then show ?case by simp
next
  case (Cons r rs)
  then show ?case
    by (cases n) (auto simp: then_do_Inr_iff enc_length dec_enc)
qed

lemma pack_all_total: "\<forall>r \<in> set rs. \<exists>b. enc r = Inr b \<Longrightarrow> \<exists>bs. pack_all enc rs = Inr bs"
  by (induction rs) (fastforce simp: then_do_Inr_iff)+

lemma pack_all_inj: "pack_all enc rs = Inr bs \<Longrightarrow> pack_all enc rs' = Inr bs \<Longrightarrow>
    length rs = length rs' \<Longrightarrow> rs = rs'"
  using unpack_pack_all [of rs bs "[]"] unpack_pack_all [of rs' bs "[]"] by simp

end

end
