(* ===== verification/Bpf.thy ===== *)
theory Bpf
  imports Py_Struct Py_Regex
begin

text \<open>
  \<^verbatim>\<open>src/rootwire/bpf.py\<close>: the classic-BPF instruction tuple, its 8-byte encoding, the
  canned filter programs, and \<^verbatim>\<open>FilterProgram\<close>, the \<^verbatim>\<open>sock_fprog\<close> handed to
  \<^verbatim>\<open>setsockopt\<close>.
\<close>

section \<open>Instructions\<close>

text \<open>One instruction, \<^verbatim>\<open>(code, jt, jf, k)\<close>; all four fields are unsigned.\<close>

type_synonym SockFilter = "nat \<times> nat \<times> nat \<times> nat"

definition INSTRUCTION_format :: "fmt_code list" where
  "INSTRUCTION_format = [F_H, F_B, F_B, F_I]"

definition INSTRUCTION_size :: nat where
  "INSTRUCTION_size = calcsize INSTRUCTION_format"

text \<open>\<open>e\<close> is the machine's native byte order (format prefix \<^verbatim>\<open>=\<close>).\<close>

fun pack_instruction :: "endian \<Rightarrow> SockFilter \<Rightarrow> struct_error + bytes" where
  "pack_instruction e (code, jt, jf, k) =
     pack e INSTRUCTION_format [int code, int jt, int jf, int k]"

definition unpack_instruction :: "endian \<Rightarrow> bytes \<Rightarrow> SockFilter" where
  "unpack_instruction e bs =
     (case unpack_fields e INSTRUCTION_format bs of
        [code, jt, jf, k] \<Rightarrow> (nat code, nat jt, nat jf, nat k)
      | _ \<Rightarrow> (0, 0, 0, 0))"

definition pack_instructions :: "endian \<Rightarrow> SockFilter list \<Rightarrow> struct_error + bytes" where
  "pack_instructions e instructions = pack_all (pack_instruction e) instructions"

fun insn_fits :: "SockFilter \<Rightarrow> bool" where
  "insn_fits (code, jt, jf, k) \<longleftrightarrow>
     code < 65536 \<and> jt < 256 \<and> jf < 256 \<and> k < 4294967296"

lemma pack_instruction_iff: "(\<exists>b. pack_instruction e i = Inr b) \<longleftrightarrow> insn_fits i"
proof (cases i)
  case (fields code jt jf k)
  have "list_all2 in_range INSTRUCTION_format [int code, int jt, int jf, int k] \<longleftrightarrow> insn_fits i"
    using fields by (auto simp: INSTRUCTION_format_def)
  then show ?thesis using fields by (simp add: pack_Inr_iff)
qed

interpretation insn_codec: fixed_codec "pack_instruction e" "unpack_instruction e" INSTRUCTION_size
  for e
proof
  fix r b
  assume "pack_instruction e r = Inr b"
  then show "length b = INSTRUCTION_size"
    by (cases r) (auto simp: INSTRUCTION_size_def dest: pack_length)
next
  fix r b rest
  assume "pack_instruction e r = Inr b"
  then show "unpack_instruction e (b @ rest) = r"
    by (cases r) (auto simp: unpack_instruction_def unpack_fields_pack)
qed

section \<open>The \<^verbatim>\<open>sock_fprog\<close>\<close>

text \<open>
  \<^verbatim>\<open>FilterProgram\<close> keeps the packed instructions in a buffer it owns, and the C structure
  \<^verbatim>\<open>{unsigned short len; struct sock_filter *filter;}\<close> with a pointer to that buffer.
  \<^verbatim>\<open>ctypes.c_ushort\<close> does no range check: a length is reduced to 16 bits. The address
  the allocator gives the buffer is an argument, \<open>addr\<close>.
\<close>

record FilterProgram =
  buffer :: bytes
  buffer_addr :: "64 word"
  fprog_len :: "16 word"
  fprog_filter :: "64 word"

definition new_FilterProgram ::
    "endian \<Rightarrow> 64 word \<Rightarrow> SockFilter list \<Rightarrow> struct_error + FilterProgram" where
  "new_FilterProgram e addr instructions =
     then_do (pack_instructions e instructions)
       (\<lambda>packed. Inr \<lparr>buffer = packed, buffer_addr = addr,
                      fprog_len = of_nat (length instructions), fprog_filter = addr\<rparr>)"

text \<open>
  \<^verbatim>\<open>as_bytes\<close>, in the layout the platform's C ABI gives the structure on the 64-bit
  targets: two bytes of length, six of padding, eight of pointer.
\<close>

definition as_bytes :: "endian \<Rightarrow> FilterProgram \<Rightarrow> bytes" where
  "as_bytes e p =
     to_bytes e 2 (unat (fprog_len p)) @ replicate 6 0 @ to_bytes e 8 (unat (fprog_filter p))"

text \<open>
  What the receiver of the \<^verbatim>\<open>sock_fprog\<close> reads: the length and the pointer out of the
  structure, then that many instructions from the memory at the pointer, where
  \<open>FilterProgram\<close> keeps its buffer (\<^verbatim>\<open>_resolve\<close> of \<^verbatim>\<open>tests/test_bpf.py\<close> does the same).
  Memory that is not the buffer is not readable: \<open>None\<close>.
\<close>

definition read_fprog :: "endian \<Rightarrow> FilterProgram \<Rightarrow> SockFilter list option" where
  "read_fprog e p =
     (let raw = as_bytes e p;
          n = from_bytes e (py_slice raw 0 2);
          ptr = from_bytes e (py_slice raw 8 16)
      in if ptr = unat (buffer_addr p) \<and> n * INSTRUCTION_size \<le> length (buffer p)
         then Some (unpack_all (unpack_instruction e) INSTRUCTION_size n (buffer p))
         else None)"

section \<open>Canned filters\<close>

definition TCP_filter :: "SockFilter list" where
  "TCP_filter =
    [(0x28, 0, 0, 0x0000000C),
     (0x15, 0, 5, 0x000086DD),
     (0x30, 0, 0, 0x00000014),
     (0x15, 6, 0, 0x00000006),
     (0x15, 0, 6, 0x0000002C),
     (0x30, 0, 0, 0x00000036),
     (0x15, 3, 4, 0x00000006),
     (0x15, 0, 3, 0x00000800),
     (0x30, 0, 0, 0x00000017),
     (0x15, 0, 1, 0x00000006),
     (0x06, 0, 0, 0x00040000),
     (0x06, 0, 0, 0x00000000)]"

definition UDP_filter :: "SockFilter list" where
  "UDP_filter =
    [(0x28, 0, 0, 0x0000000C),
     (0x15, 0, 5, 0x000086DD),
     (0x30, 0, 0, 0x00000014),
     (0x15, 6, 0, 0x00000011),
     (0x15, 0, 6, 0x0000002C),
     (0x30, 0, 0, 0x00000036),
     (0x15, 3, 4, 0x00000011),
     (0x15, 0, 3, 0x00000800),
     (0x30, 0, 0, 0x00000017),
     (0x15, 0, 1, 0x00000011),
     (0x06, 0, 0, 0x00040000),
     (0x06, 0, 0, 0x00000000)]"

definition ARP_filter :: "SockFilter list" where
  "ARP_filter =
    [(0x28, 0, 0, 0x0000000C),
     (0x15, 0, 1, 0x00000806),
     (0x06, 0, 0, 0x00040000),
     (0x06, 0, 0, 0x00000000)]"

definition IP6_filter :: "SockFilter list" where
  "IP6_filter =
    [(0x28, 0, 0, 0x0000000C),
     (0x15, 0, 1, 0x000086DD),
     (0x06, 0, 0, 0x00040000),
     (0x06, 0, 0, 0x00000000)]"

definition CANNED_FILTERS :: "(pystr \<times> SockFilter list) list" where
  "CANNED_FILTERS =
    [(ascii ''tcp'', TCP_filter),
     (ascii ''udp'', UDP_filter),
     (ascii ''arp'', ARP_filter),
     (ascii ''ip6'', IP6_filter)]"

section \<open>What a \<^verbatim>\<open>FilterProgram\<close> hands to the kernel\<close>

lemma pack_instructions_iff:
  "(\<exists>bs. pack_instructions e is = Inr bs) \<longleftrightarrow> (\<forall>i \<in> set is. insn_fits i)"
proof
  assume "\<exists>bs. pack_instructions e is = Inr bs"
  then show "\<forall>i \<in> set is. insn_fits i"
    unfolding pack_instructions_def
    by (induction "is") (auto simp: then_do_Inr_iff simp flip: pack_instruction_iff [of e])
next
  assume "\<forall>i \<in> set is. insn_fits i"
  then show "\<exists>bs. pack_instructions e is = Inr bs"
    unfolding pack_instructions_def
    by (intro insn_codec.pack_all_total) (simp add: pack_instruction_iff)
qed

lemma new_FilterProgram_Inr:
  "new_FilterProgram e addr is = Inr p \<longleftrightarrow>
     (\<exists>bs. pack_instructions e is = Inr bs \<and>
        p = \<lparr>buffer = bs, buffer_addr = addr, fprog_len = of_nat (length is), fprog_filter = addr\<rparr>)"
  by (auto simp: new_FilterProgram_def then_do_Inr_iff)

lemma as_bytes_fields:
  "length (as_bytes e p) = 16"
  "from_bytes e (py_slice (as_bytes e p) 0 2) = unat (fprog_len p)"
  "from_bytes e (py_slice (as_bytes e p) 8 16) = unat (fprog_filter p)"
proof -
  have l: "unat (fprog_len p) < 256 ^ 2"
    using unsigned_less [of "fprog_len p"] by simp
  have f: "unat (fprog_filter p) < 256 ^ 8"
    using unsigned_less [of "fprog_filter p"] by simp
  show "length (as_bytes e p) = 16" by (simp add: as_bytes_def)
  show "from_bytes e (py_slice (as_bytes e p) 0 2) = unat (fprog_len p)"
    using l by (simp add: as_bytes_def py_slice_def from_bytes_to_bytes_fits)
  show "from_bytes e (py_slice (as_bytes e p) 8 16) = unat (fprog_filter p)"
    using f by (simp add: as_bytes_def py_slice_def from_bytes_to_bytes_fits)
qed

lemma fprog_len_unat:
  "unat (of_nat n :: 16 word) = n mod 65536"
  by (simp add: unat_of_nat)

text \<open>
  A program whose fields fit is read back from what \<open>as_bytes\<close> hands out; of one with 65,536
  instructions or more, only what the 16-bit length still counts.
\<close>

lemma FilterProgram_handover:
  assumes "\<forall>i \<in> set prog. insn_fits i"
  shows "\<exists>p. new_FilterProgram e addr prog = Inr p \<and>
     read_fprog e p = Some (take (length prog mod 65536) prog)"
proof -
  from assms obtain bs where bs: "pack_instructions e prog = Inr bs"
    using pack_instructions_iff by blast
  let ?p = "\<lparr>buffer = bs, buffer_addr = addr, fprog_len = of_nat (length prog), fprog_filter = addr\<rparr>"
  have len: "length bs = length prog * INSTRUCTION_size"
    using insn_codec.pack_all_length bs by (simp add: pack_instructions_def mult.commute)
  have n: "unat (of_nat (length prog) :: 16 word) = length prog mod 65536"
    by (simp add: fprog_len_unat)
  have "read_fprog e ?p = Some (take (length prog mod 65536) prog)"
    using insn_codec.unpack_pack_prefix [of e prog bs "length prog mod 65536" "[]"] bs len n
    by (simp add: read_fprog_def as_bytes_fields pack_instructions_def Let_def)
  with bs show ?thesis by (auto simp: new_FilterProgram_Inr)
qed

end
