(* ===== verification/Bpf_Codegen.thy ===== *)
theory Bpf_Codegen
  imports Bpf_Parser Bpf
begin

text \<open>
  The code generator of \<^verbatim>\<open>src/rootwire/bpf_compiler.py\<close>: pseudo-instructions over
  symbolic labels (\<^verbatim>\<open>_Label\<close>, \<^verbatim>\<open>_PInsn\<close>, \<^verbatim>\<open>_Emitter\<close>), one function per \<^verbatim>\<open>_compile_*\<close>
  function, \<^verbatim>\<open>_resolve\<close> and \<^verbatim>\<open>compile_expression\<close>. The emitter object the Python functions
  mutate is passed in and returned.
\<close>

section \<open>Constants\<close>

definition ETHERTYPE_IPV4 :: nat where "ETHERTYPE_IPV4 = 0x0800"
definition ETHERTYPE_ARP :: nat where "ETHERTYPE_ARP = 0x0806"
definition ETHERTYPE_IPV6 :: nat where "ETHERTYPE_IPV6 = 0x86DD"
definition IPPROTO_ICMP :: nat where "IPPROTO_ICMP = 1"
definition IPPROTO_TCP :: nat where "IPPROTO_TCP = 6"
definition IPPROTO_UDP :: nat where "IPPROTO_UDP = 17"

definition LDH_ABS :: nat where "LDH_ABS = 0x28"
definition LDB_ABS :: nat where "LDB_ABS = 0x30"
definition LDW_ABS :: nat where "LDW_ABS = 0x20"
definition LDH_IND :: nat where "LDH_IND = 0x48"
definition LDXB_MSH :: nat where "LDXB_MSH = 0xB1"
definition JEQ_K :: nat where "JEQ_K = 0x15"
definition JSET_K :: nat where "JSET_K = 0x45"
definition RET_K :: nat where "RET_K = 0x06"

definition ACCEPT_LENGTH :: nat where "ACCEPT_LENGTH = 0x00040000"

definition IPV4_SRC_OFFSET :: nat where "IPV4_SRC_OFFSET = 26"
definition IPV4_DST_OFFSET :: nat where "IPV4_DST_OFFSET = 30"
definition IPV4_PROTO_OFFSET :: nat where "IPV4_PROTO_OFFSET = 23"
definition IPV4_FRAG_OFFSET :: nat where "IPV4_FRAG_OFFSET = 20"
definition IPV4_FRAG_MASK :: nat where "IPV4_FRAG_MASK = 0x1FFF"
definition IPV4_IHL_BYTE :: nat where "IPV4_IHL_BYTE = 14"
definition IPV4_SRC_PORT_IND :: nat where "IPV4_SRC_PORT_IND = 14"
definition IPV4_DST_PORT_IND :: nat where "IPV4_DST_PORT_IND = 16"
definition IPV6_NEXT_HEADER_OFFSET :: nat where "IPV6_NEXT_HEADER_OFFSET = 20"
definition IPV6_FRAGMENT_EXT_HEADER :: nat where "IPV6_FRAGMENT_EXT_HEADER = 44"
definition IPV6_SRC_PORT_OFFSET :: nat where "IPV6_SRC_PORT_OFFSET = 54"
definition IPV6_DST_PORT_OFFSET :: nat where "IPV6_DST_PORT_OFFSET = 56"

lemmas opcode_defs =
  LDH_ABS_def LDB_ABS_def LDW_ABS_def LDH_IND_def LDXB_MSH_def JEQ_K_def JSET_K_def RET_K_def

lemmas field_defs =
  ETHERTYPE_IPV4_def ETHERTYPE_ARP_def ETHERTYPE_IPV6_def IPPROTO_ICMP_def IPPROTO_TCP_def
  IPPROTO_UDP_def IPV4_SRC_OFFSET_def IPV4_DST_OFFSET_def IPV4_PROTO_OFFSET_def
  IPV4_FRAG_OFFSET_def IPV4_FRAG_MASK_def IPV4_IHL_BYTE_def IPV4_SRC_PORT_IND_def
  IPV4_DST_PORT_IND_def IPV6_NEXT_HEADER_OFFSET_def IPV6_FRAGMENT_EXT_HEADER_def
  IPV6_SRC_PORT_OFFSET_def IPV6_DST_PORT_OFFSET_def

section \<open>Labels, pseudo-instructions and the emitter\<close>

text \<open>
  A label is an object whose identity alone matters; the emitter numbers the labels it
  creates, and the model takes that number for the identity (the hint in front of it is
  only shown by \<^verbatim>\<open>repr\<close>).
\<close>

type_synonym Label = nat

record PInsn =
  insn_code :: nat
  insn_k :: nat
  insn_jt :: "Label option"
  insn_jf :: "Label option"

datatype item = LabelItem Label | InsnItem PInsn

record Emitter =
  items :: "item list"
  counter :: nat

definition new_Emitter :: Emitter where
  "new_Emitter = \<lparr>items = [], counter = 0\<rparr>"

definition new_label :: "Emitter \<Rightarrow> Label \<times> Emitter" where
  "new_label e = (counter e + 1, e\<lparr>counter := counter e + 1\<rparr>)"

definition place :: "Label \<Rightarrow> Emitter \<Rightarrow> Emitter" where
  "place label e = e\<lparr>items := items e @ [LabelItem label]\<rparr>"

definition emit :: "PInsn \<Rightarrow> Emitter \<Rightarrow> Emitter" where
  "emit insn e = e\<lparr>items := items e @ [InsnItem insn]\<rparr>"

text \<open>\<^verbatim>\<open>_PInsn(code, k=k)\<close>, and with both jump targets.\<close>

definition plain_insn :: "nat \<Rightarrow> nat \<Rightarrow> PInsn" where
  "plain_insn code k = \<lparr>insn_code = code, insn_k = k, insn_jt = None, insn_jf = None\<rparr>"

definition jump_insn :: "nat \<Rightarrow> nat \<Rightarrow> Label \<Rightarrow> Label \<Rightarrow> PInsn" where
  "jump_insn code k jt jf = \<lparr>insn_code = code, insn_k = k, insn_jt = Some jt, insn_jf = Some jf\<rparr>"

definition test_at :: "nat \<Rightarrow> nat \<Rightarrow> nat \<Rightarrow> Label \<Rightarrow> Label \<Rightarrow> Emitter \<Rightarrow> Emitter" where
  "test_at code offset value on_true on_false e =
     (let e = emit (plain_insn code offset) e
      in emit (jump_insn JEQ_K value on_true on_false) e)"

section \<open>Primitives\<close>

definition compile_tcp_or_udp :: "nat \<Rightarrow> Label \<Rightarrow> Label \<Rightarrow> Emitter \<Rightarrow> Emitter" where
  "compile_tcp_or_udp proto_num on_true on_false e =
     (let (v6, e) = new_label e;
          (v4, e) = new_label e;
          e = test_at LDH_ABS 12 ETHERTYPE_IPV6 v6 v4 e;
          e = place v6 e;
          (after_frag, e) = new_label e;
          e = test_at LDB_ABS IPV6_NEXT_HEADER_OFFSET proto_num on_true after_frag e;
          e = place after_frag e;
          (peek, e) = new_label e;
          e = test_at LDB_ABS IPV6_NEXT_HEADER_OFFSET IPV6_FRAGMENT_EXT_HEADER peek on_false e;
          e = place peek e;
          e = test_at LDB_ABS 0x36 proto_num on_true on_false e;
          e = place v4 e;
          (v4_proto, e) = new_label e;
          e = test_at LDH_ABS 12 ETHERTYPE_IPV4 v4_proto on_false e;
          e = place v4_proto e
      in test_at LDB_ABS IPV4_PROTO_OFFSET proto_num on_true on_false e)"

definition compile_proto :: "pystr \<Rightarrow> Label \<Rightarrow> Label \<Rightarrow> Emitter \<Rightarrow> Emitter" where
  "compile_proto name on_true on_false e =
     (if name = ascii ''ip'' then test_at LDH_ABS 12 ETHERTYPE_IPV4 on_true on_false e
      else if name = ascii ''arp'' then test_at LDH_ABS 12 ETHERTYPE_ARP on_true on_false e
      else if name = ascii ''ip6'' then test_at LDH_ABS 12 ETHERTYPE_IPV6 on_true on_false e
      else if name = ascii ''icmp'' then
        (let (v4, e) = new_label e;
             e = test_at LDH_ABS 12 ETHERTYPE_IPV4 v4 on_false e;
             e = place v4 e
         in test_at LDB_ABS IPV4_PROTO_OFFSET IPPROTO_ICMP on_true on_false e)
      else
        (let proto_num = (if name = ascii ''tcp'' then IPPROTO_TCP else IPPROTO_UDP)
         in compile_tcp_or_udp proto_num on_true on_false e))"

definition compile_host ::
    "nat \<Rightarrow> direction option \<Rightarrow> Label \<Rightarrow> Label \<Rightarrow> Emitter \<Rightarrow> Emitter" where
  "compile_host addr direction on_true on_false e =
     (let (v4, e) = new_label e;
          e = test_at LDH_ABS 12 ETHERTYPE_IPV4 v4 on_false e;
          e = place v4 e
      in case direction of
           Some Src \<Rightarrow> test_at LDW_ABS IPV4_SRC_OFFSET addr on_true on_false e
         | Some Dst \<Rightarrow> test_at LDW_ABS IPV4_DST_OFFSET addr on_true on_false e
         | None \<Rightarrow>
             (let (check_dst, e) = new_label e;
                  e = test_at LDW_ABS IPV4_SRC_OFFSET addr on_true check_dst e;
                  e = place check_dst e
              in test_at LDW_ABS IPV4_DST_OFFSET addr on_true on_false e))"

definition compile_port_value ::
    "nat \<Rightarrow> nat \<Rightarrow> nat \<Rightarrow> direction option \<Rightarrow> nat \<Rightarrow> Label \<Rightarrow> Label \<Rightarrow> Emitter \<Rightarrow> Emitter" where
  "compile_port_value code src_offset dst_offset direction port on_true on_false e =
     (case direction of
        Some Src \<Rightarrow> test_at code src_offset port on_true on_false e
      | Some Dst \<Rightarrow> test_at code dst_offset port on_true on_false e
      | None \<Rightarrow>
          (let (check_dst, e) = new_label e;
               e = test_at code src_offset port on_true check_dst e;
               e = place check_dst e
           in test_at code dst_offset port on_true on_false e))"

definition compile_port_v6 ::
    "nat \<Rightarrow> direction option \<Rightarrow> Label \<Rightarrow> Label \<Rightarrow> Emitter \<Rightarrow> Emitter" where
  "compile_port_v6 port direction on_true on_false e =
     (let (check_udp, e) = new_label e;
          (matched, e) = new_label e;
          e = test_at LDB_ABS IPV6_NEXT_HEADER_OFFSET IPPROTO_TCP matched check_udp e;
          e = place check_udp e;
          e = test_at LDB_ABS IPV6_NEXT_HEADER_OFFSET IPPROTO_UDP matched on_false e;
          e = place matched e
      in compile_port_value LDH_ABS IPV6_SRC_PORT_OFFSET IPV6_DST_PORT_OFFSET direction port
           on_true on_false e)"

definition compile_port_v4 ::
    "nat \<Rightarrow> direction option \<Rightarrow> Label \<Rightarrow> Label \<Rightarrow> Emitter \<Rightarrow> Emitter" where
  "compile_port_v4 port direction on_true on_false e =
     (let (check_udp, e) = new_label e;
          (matched, e) = new_label e;
          e = test_at LDB_ABS IPV4_PROTO_OFFSET IPPROTO_TCP matched check_udp e;
          e = place check_udp e;
          e = test_at LDB_ABS IPV4_PROTO_OFFSET IPPROTO_UDP matched on_false e;
          e = place matched e;
          (not_fragment, e) = new_label e;
          e = emit (plain_insn LDH_ABS IPV4_FRAG_OFFSET) e;
          e = emit (jump_insn JSET_K IPV4_FRAG_MASK on_false not_fragment) e;
          e = place not_fragment e;
          e = emit (plain_insn LDXB_MSH IPV4_IHL_BYTE) e
      in compile_port_value LDH_IND IPV4_SRC_PORT_IND IPV4_DST_PORT_IND direction port
           on_true on_false e)"

definition compile_port ::
    "nat \<Rightarrow> direction option \<Rightarrow> Label \<Rightarrow> Label \<Rightarrow> Emitter \<Rightarrow> Emitter" where
  "compile_port port direction on_true on_false e =
     (let (v6, e) = new_label e;
          (v4, e) = new_label e;
          e = test_at LDH_ABS 12 ETHERTYPE_IPV6 v6 v4 e;
          e = place v6 e;
          e = compile_port_v6 port direction on_true on_false e;
          e = place v4 e
      in compile_port_v4 port direction on_true on_false e)"

section \<open>Expressions\<close>

text \<open>\<^verbatim>\<open>_compile\<close>\<close>

fun compile_node :: "Node \<Rightarrow> Label \<Rightarrow> Label \<Rightarrow> Emitter \<Rightarrow> Emitter" where
  "compile_node (Proto name) on_true on_false e = compile_proto name on_true on_false e"
| "compile_node (Host addr direction) on_true on_false e =
     compile_host addr direction on_true on_false e"
| "compile_node (Port port direction) on_true on_false e =
     compile_port port direction on_true on_false e"
| "compile_node (NotE operand) on_true on_false e = compile_node operand on_false on_true e"
| "compile_node (AndE left right) on_true on_false e =
     (let (mid, e) = new_label e;
          e = compile_node left mid on_false e;
          e = place mid e
      in compile_node right on_true on_false e)"
| "compile_node (OrE left right) on_true on_false e =
     (let (mid, e) = new_label e;
          e = compile_node left on_true mid e;
          e = place mid e
      in compile_node right on_true on_false e)"

section \<open>Resolving the labels\<close>

text \<open>
  The first loop of \<^verbatim>\<open>_resolve\<close>, from a position and the dictionary filled so far (a
  label placed twice keeps its last position), and the list of the instructions.
\<close>

fun label_positions :: "item list \<Rightarrow> nat \<Rightarrow> (Label \<rightharpoonup> nat) \<Rightarrow> (Label \<rightharpoonup> nat)" where
  "label_positions [] position positions = positions"
| "label_positions (LabelItem l # its) position positions =
     label_positions its position (positions(l \<mapsto> position))"
| "label_positions (InsnItem i # its) position positions =
     label_positions its (position + 1) positions"

fun instructions :: "item list \<Rightarrow> PInsn list" where
  "instructions [] = []"
| "instructions (LabelItem l # its) = instructions its"
| "instructions (InsnItem i # its) = i # instructions its"

definition offset_to :: "(Label \<rightharpoonup> nat) \<Rightarrow> Label \<Rightarrow> nat \<Rightarrow> compile_error + nat" where
  "offset_to positions label from_index =
     (case positions label of
        None \<Rightarrow> Inl LabelKeyError
      | Some target \<Rightarrow>
          let offset = int target - (int from_index + 1)
          in if \<not> (0 \<le> offset \<and> offset \<le> 255) then Inl (BPFCompileError (JumpTooFar offset))
             else Inr (nat offset))"

fun jump_offset :: "(Label \<rightharpoonup> nat) \<Rightarrow> Label option \<Rightarrow> nat \<Rightarrow> compile_error + nat" where
  "jump_offset positions None i = Inr 0"
| "jump_offset positions (Some label) i = offset_to positions label i"

fun resolve_from :: "(Label \<rightharpoonup> nat) \<Rightarrow> nat \<Rightarrow> PInsn list \<Rightarrow> compile_error + SockFilter list" where
  "resolve_from positions i [] = Inr []"
| "resolve_from positions i (insn # insns) =
     then_do (jump_offset positions (insn_jt insn) i) (\<lambda>jt.
     then_do (jump_offset positions (insn_jf insn) i) (\<lambda>jf.
     then_do (resolve_from positions (i + 1) insns) (\<lambda>program.
       Inr ((insn_code insn, jt, jf, insn_k insn) # program))))"

definition resolve :: "item list \<Rightarrow> compile_error + SockFilter list" where
  "resolve its = resolve_from (label_positions its 0 Map.empty) 0 (instructions its)"

section \<open>\<^verbatim>\<open>compile_expression\<close>\<close>

definition compile_program :: "Node \<Rightarrow> Emitter" where
  "compile_program ast =
     (let e = new_Emitter;
          (accept, e) = new_label e;
          (reject, e) = new_label e;
          e = compile_node ast accept reject e;
          e = place accept e;
          e = emit (plain_insn RET_K ACCEPT_LENGTH) e;
          e = place reject e
      in emit (plain_insn RET_K 0) e)"

definition compile_expression :: "pystr \<Rightarrow> compile_error + SockFilter list" where
  "compile_expression expr =
     then_do (tokenize expr) (\<lambda>tokens.
       if tokens = [] then Inl (BPFCompileError EmptyExpression)
       else then_do (parse tokens) (\<lambda>ast. resolve (items (compile_program ast))))"

end
