(* ===== verification/Bpf_Vm.thy ===== *)
theory Bpf_Vm
  imports Bpf
begin

unbundle bit_operations_syntax

text \<open>
  \<^verbatim>\<open>src/tests/bpf_vm.py\<close>: the repository's own interpreter for the classic-BPF subset the
  canned filters and the compiler emit. It is the executable meaning of a filter program
  here: every theorem on what a program accepts is stated over \<open>vm_run\<close>. Instruction
  fields are unsigned (\<open>nat\<close>), so the interpreter's test \<^verbatim>\<open>offset < 0\<close> has no branch.
\<close>

section \<open>Outcomes\<close>

text \<open>
  \<open>VM_Reject\<close> is the private exception of an out-of-bounds load; the others are the
  errors the interpreter raises on a program outside its subset: an operand form it does
  not implement, the reserved load size (a failed dictionary lookup), more than 10,000
  steps, and falling off the end of the program.
\<close>

datatype vm_error =
    VM_Reject
  | VM_NotImplemented
  | VM_KeyError
  | VM_TooManySteps
  | VM_NoRet

section \<open>One instruction\<close>

definition vm_load :: "bytes \<Rightarrow> nat \<Rightarrow> nat \<Rightarrow> vm_error + nat" where
  "vm_load packet offset n =
     (if offset + n > length packet then Inl VM_Reject
      else Inr (from_be (py_slice packet offset (offset + n))))"

definition SIZE_BYTES :: "nat \<Rightarrow> nat option" where
  "SIZE_BYTES bits =
     (if bits = 0x00 then Some 4 else if bits = 0x08 then Some 2
      else if bits = 0x10 then Some 1 else None)"

definition step_ld :: "nat \<Rightarrow> nat \<Rightarrow> bytes \<Rightarrow> nat \<Rightarrow> vm_error + nat" where
  "step_ld code k packet index_reg =
     (let mode = code AND 0xE0 in
      case SIZE_BYTES (code AND 0x18) of
        None \<Rightarrow> Inl VM_KeyError
      | Some n \<Rightarrow>
          if mode = 0x20 then vm_load packet k n
          else if mode = 0x40 then vm_load packet (index_reg + k) n
          else Inl VM_NotImplemented)"

definition step_ldx :: "nat \<Rightarrow> nat \<Rightarrow> bytes \<Rightarrow> vm_error + nat" where
  "step_ldx code k packet =
     (if code AND 0xE0 \<noteq> 0xA0 then Inl VM_NotImplemented
      else then_do (vm_load packet k 1) (\<lambda>b. Inr (4 * (b AND 0x0F))))"

text \<open>\<^verbatim>\<open>_step_jmp\<close> up to the choice of branch, and the whole step: the change of \<^verbatim>\<open>pc\<close>.\<close>

definition jmp_taken :: "nat \<Rightarrow> nat \<Rightarrow> nat \<Rightarrow> vm_error + bool" where
  "jmp_taken code k accumulator =
     (if code AND 0x08 \<noteq> 0 then Inl VM_NotImplemented
      else if code AND 0xF0 = 0x10 then Inr (accumulator = k)
      else if code AND 0xF0 = 0x40 then Inr (accumulator AND k \<noteq> 0)
      else Inl VM_NotImplemented)"

definition step_jmp :: "nat \<Rightarrow> nat \<Rightarrow> nat \<Rightarrow> nat \<Rightarrow> nat \<Rightarrow> vm_error + nat" where
  "step_jmp code k jt jf accumulator =
     then_do (jmp_taken code k accumulator) (\<lambda>taken. Inr ((if taken then jt else jf) + 1))"

definition step_ret :: "nat \<Rightarrow> nat \<Rightarrow> vm_error + nat" where
  "step_ret code k = (if code AND 0x18 \<noteq> 0 then Inl VM_NotImplemented else Inr k)"

section \<open>The loop\<close>

record vm_state =
  accumulator :: nat
  index_reg :: nat
  pc :: nat
  steps :: nat

definition vm_start :: vm_state where
  "vm_start = \<lparr>accumulator = 0, index_reg = 0, pc = 0, steps = 0\<rparr>"

text \<open>One turn of the loop body: the next state, or the value returned.\<close>

definition vm_step ::
    "SockFilter list \<Rightarrow> bytes \<Rightarrow> vm_state \<Rightarrow> vm_error + (vm_state + nat)" where
  "vm_step program packet s =
     (if steps s + 1 > 10000 then Inl VM_TooManySteps
      else let s = s\<lparr>steps := steps s + 1\<rparr>;
               (code, jt, jf, k) = program ! pc s;
               instruction_class = code AND 0x07
        in if instruction_class = 0x00 then
             then_do (step_ld code k packet (index_reg s))
               (\<lambda>a. Inr (Inl (s\<lparr>accumulator := a, pc := pc s + 1\<rparr>)))
           else if instruction_class = 0x01 then
             then_do (step_ldx code k packet)
               (\<lambda>x. Inr (Inl (s\<lparr>index_reg := x, pc := pc s + 1\<rparr>)))
           else if instruction_class = 0x05 then
             then_do (step_jmp code k jt jf (accumulator s))
               (\<lambda>d. Inr (Inl (s\<lparr>pc := pc s + d\<rparr>)))
           else if instruction_class = 0x06 then
             then_do (step_ret code k) (\<lambda>n. Inr (Inr n))
           else Inl VM_NotImplemented)"

text \<open>Every turn moves \<^verbatim>\<open>pc\<close> forward, which is why the loop ends.\<close>

lemma vm_step_forward:
  "vm_step program packet s = Inr (Inl t) \<Longrightarrow> pc s < pc t \<and> steps t = steps s + 1"
  by (auto simp: vm_step_def step_jmp_def Let_def then_do_Inr_iff
      split: if_splits prod.splits)

function vm_loop :: "SockFilter list \<Rightarrow> bytes \<Rightarrow> vm_state \<Rightarrow> vm_error + nat" where
  "vm_loop program packet s =
     (if pc s < length program then
        case vm_step program packet s of
          Inl e \<Rightarrow> Inl e
        | Inr (Inl t) \<Rightarrow> vm_loop program packet t
        | Inr (Inr n) \<Rightarrow> Inr n
      else Inl VM_NoRet)"
  by pat_completeness auto
termination
  by (relation "measure (\<lambda>(program, packet, s). length program - pc s)")
    (auto dest: vm_step_forward)

declare vm_loop.simps [simp del]

definition vm_run :: "SockFilter list \<Rightarrow> bytes \<Rightarrow> vm_error + nat" where
  "vm_run program packet =
     (case vm_loop program packet vm_start of
        Inl VM_Reject \<Rightarrow> Inr 0
      | r \<Rightarrow> r)"

text \<open>\<^verbatim>\<open>bool(vm_run(program, frame))\<close>: whether the filter keeps the frame.\<close>

definition vm_accepts :: "SockFilter list \<Rightarrow> bytes \<Rightarrow> bool" where
  "vm_accepts program packet \<longleftrightarrow> (\<exists>n. vm_run program packet = Inr n \<and> n \<noteq> 0)"

lemma vm_accepts_code [code]:
  "vm_accepts program packet =
     (case vm_run program packet of Inl e \<Rightarrow> False | Inr n \<Rightarrow> n \<noteq> 0)"
  by (simp add: vm_accepts_def split: sum.split)

section \<open>The step counter\<close>

text \<open>
  The loop makes at most one turn per instruction, so a program of at most 10,000
  instructions never trips the interpreter's step limit.
\<close>

lemma vm_loop_steps:
  "vm_loop program packet s = Inl VM_TooManySteps \<Longrightarrow>
     10000 < steps s + (length program - pc s)"
proof (induction program packet s rule: vm_loop.induct)
  case (1 program packet s)
  show ?case
  proof (cases "pc s < length program")
    case False
    with "1.prems" show ?thesis by (simp add: vm_loop.simps [of program packet s])
  next
    case pc: True
    show ?thesis
    proof (cases "vm_step program packet s")
      case (Inl e)
      with "1.prems" pc have "vm_step program packet s = Inl VM_TooManySteps"
        by (simp add: vm_loop.simps [of program packet s])
      then have "steps s + 1 > 10000"
        by (auto simp: vm_step_def step_ld_def step_ldx_def step_jmp_def step_ret_def
            jmp_taken_def vm_load_def Let_def
            split: if_splits prod.splits option.splits)
      with pc show ?thesis by simp
    next
      case (Inr r)
      with "1.prems" pc obtain t where r: "r = Inl t"
        by (cases r) (auto simp: vm_loop.simps [of program packet s])
      with Inr have "pc s < pc t" "steps t = steps s + 1"
        by (auto dest: vm_step_forward)
      moreover have "10000 < steps t + (length program - pc t)"
        using "1.IH" [OF pc Inr r] "1.prems" pc Inr r
        by (simp add: vm_loop.simps [of program packet s])
      ultimately show ?thesis using pc by simp
    qed
  qed
qed

end
