(* ===== verification/Bpf_Assembler.thy ===== *)
theory Bpf_Assembler
  imports Bpf_Codegen Bpf_Vm
begin

text \<open>
  The meaning of symbolic code and the correctness of \<^verbatim>\<open>_resolve\<close>: \<open>sexec\<close> runs a list of
  labels and pseudo-instructions directly, a jump going on after the label it names. A
  resolved program run by the interpreter of \<open>Bpf_Vm\<close> does what \<open>sexec\<close> does on the
  symbolic code it came from.
\<close>

section \<open>Running symbolic code\<close>

fun placed :: "item list \<Rightarrow> Label list" where
  "placed [] = []"
| "placed (LabelItem l # its) = l # placed its"
| "placed (InsnItem i # its) = placed its"

fun goto :: "Label \<Rightarrow> item list \<Rightarrow> item list option" where
  "goto l [] = None"
| "goto l (LabelItem m # its) = (if m = l then Some its else goto l its)"
| "goto l (InsnItem i # its) = goto l its"

datatype sym_step = S_next nat nat | S_jump "Label option" | S_done "vm_error + nat"

definition sym_insn :: "bytes \<Rightarrow> PInsn \<Rightarrow> nat \<Rightarrow> nat \<Rightarrow> sym_step" where
  "sym_insn packet i a x =
     (let code = insn_code i; k = insn_k i; instruction_class = code AND 0x07
      in if instruction_class = 0x00 then
           (case step_ld code k packet x of Inl e \<Rightarrow> S_done (Inl e) | Inr v \<Rightarrow> S_next v x)
         else if instruction_class = 0x01 then
           (case step_ldx code k packet of Inl e \<Rightarrow> S_done (Inl e) | Inr v \<Rightarrow> S_next a v)
         else if instruction_class = 0x05 then
           (case jmp_taken code k a of
              Inl e \<Rightarrow> S_done (Inl e)
            | Inr taken \<Rightarrow> S_jump (if taken then insn_jt i else insn_jf i))
         else if instruction_class = 0x06 then S_done (step_ret code k)
         else S_done (Inl VM_NotImplemented))"

text \<open>How a piece of code is left: past its end, by a jump out of it, or with the result.\<close>

datatype outcome = Fall nat nat | Goto Label nat nat | Done "vm_error + nat"

lemma goto_shorter: "goto l its = Some its' \<Longrightarrow> length its' < length its"
  by (induction l its rule: goto.induct) (auto split: if_splits)

function sexec :: "bytes \<Rightarrow> item list \<Rightarrow> nat \<Rightarrow> nat \<Rightarrow> outcome" where
  "sexec packet [] a x = Fall a x"
| "sexec packet (LabelItem l # its) a x = sexec packet its a x"
| "sexec packet (InsnItem i # its) a x =
     (case sym_insn packet i a x of
        S_next a' x' \<Rightarrow> sexec packet its a' x'
      | S_jump None \<Rightarrow> sexec packet its a x
      | S_jump (Some l) \<Rightarrow>
          (case goto l its of Some its' \<Rightarrow> sexec packet its' a x | None \<Rightarrow> Goto l a x)
      | S_done r \<Rightarrow> Done r)"
  by pat_completeness auto
termination
  by (relation "measure (\<lambda>(packet, its, a, x). length its)") (auto dest: goto_shorter)

section \<open>Pieces of code in a row\<close>

lemma placed_append [simp]: "placed (its @ its') = placed its @ placed its'"
  by (induction its rule: placed.induct) auto

lemma instructions_append [simp]:
  "instructions (its @ its') = instructions its @ instructions its'"
  by (induction its rule: instructions.induct) auto

lemma goto_append:
  "goto l (its @ its') =
     (case goto l its of Some c \<Rightarrow> Some (c @ its') | None \<Rightarrow> goto l its')"
  by (induction l its rule: goto.induct) auto

lemma goto_None_iff: "goto l its = None \<longleftrightarrow> l \<notin> set (placed its)"
  by (induction l its rule: goto.induct) auto

lemma goto_None [simp]: "l \<notin> set (placed its) \<Longrightarrow> goto l its = None"
  by (simp add: goto_None_iff)

lemma goto_Some_split:
  "l \<in> set (placed its) \<Longrightarrow>
     \<exists>pre post. its = pre @ LabelItem l # post \<and> l \<notin> set (placed pre) \<and> goto l its = Some post"
proof (induction l its rule: goto.induct)
  case (2 l m its)
  show ?case
  proof (cases "m = l")
    case True
    then show ?thesis by (intro exI [of _ "[]"] exI [of _ its]) simp
  next
    case False
    with 2 obtain pre post where "its = pre @ LabelItem l # post" "l \<notin> set (placed pre)"
        "goto l its = Some post" by auto
    with False show ?thesis by (intro exI [of _ "LabelItem m # pre"] exI [of _ post]) auto
  qed
next
  case (3 l i its)
  then obtain pre post where "its = pre @ LabelItem l # post" "l \<notin> set (placed pre)"
      "goto l its = Some post" by auto
  then show ?case by (intro exI [of _ "InsnItem i # pre"] exI [of _ post]) auto
qed simp

lemma sexec_append:
  "sexec packet (c @ d) a x =
     (case sexec packet c a x of
        Fall a' x' \<Rightarrow> sexec packet d a' x'
      | Goto l a' x' \<Rightarrow>
          (case goto l d of Some d' \<Rightarrow> sexec packet d' a' x' | None \<Rightarrow> Goto l a' x')
      | Done r \<Rightarrow> Done r)"
  by (induction packet c a x rule: sexec.induct)
    (auto simp: goto_append split: sym_step.splits option.splits)

section \<open>What \<^verbatim>\<open>_resolve\<close> computes\<close>

lemma label_positions_append:
  "label_positions (its @ its') i m =
     label_positions its' (i + length (instructions its)) (label_positions its i m)"
proof (induction its arbitrary: i m)
  case (Cons it its)
  then show ?case by (cases it) (simp_all del: fun_upd_apply)
qed simp

lemma label_positions_other: "l \<notin> set (placed its) \<Longrightarrow> label_positions its i m l = m l"
proof (induction its arbitrary: i m)
  case (Cons it its)
  then show ?case by (cases it) simp_all
qed simp

lemma label_positions_at:
  "l \<notin> set (placed post) \<Longrightarrow>
     label_positions (pre @ LabelItem l # post) 0 m l = Some (length (instructions pre))"
  by (simp add: label_positions_append label_positions_other)

lemma label_positions_bound:
  "label_positions its i m l = Some p \<Longrightarrow> \<forall>q. m l = Some q \<longrightarrow> q \<le> i + length (instructions its) \<Longrightarrow>
     p \<le> i + length (instructions its)"
proof (induction its arbitrary: i m)
  case (Cons it its)
  show ?case
  proof (cases it)
    case (LabelItem k)
    have "\<forall>q. (m(k \<mapsto> i)) l = Some q \<longrightarrow> q \<le> i + length (instructions its)"
      using Cons.prems(2) LabelItem by simp
    from Cons.IH [of i "m(k \<mapsto> i)", OF _ this] Cons.prems(1) LabelItem show ?thesis by (simp del: fun_upd_apply)
  next
    case (InsnItem j)
    from Cons.IH [of "i + 1" m] Cons.prems InsnItem show ?thesis by auto
  qed
qed simp

lemma label_positions_before:
  "label_positions its 0 Map.empty l = Some p \<Longrightarrow> p \<le> length (instructions its)"
  using label_positions_bound [of its 0 Map.empty l p] by simp

lemma offset_to_Inr:
  "offset_to m l i = Inr d \<longleftrightarrow> m l = Some (i + 1 + d) \<and> d \<le> 255"
  by (auto simp: offset_to_def Let_def split: option.splits)

lemma resolve_from_nth:
  "resolve_from m i insns = Inr prog \<Longrightarrow>
     length prog = length insns \<and>
     (\<forall>j < length insns. \<exists>jt jf.
        prog ! j = (insn_code (insns ! j), jt, jf, insn_k (insns ! j)) \<and>
        jump_offset m (insn_jt (insns ! j)) (i + j) = Inr jt \<and>
        jump_offset m (insn_jf (insns ! j)) (i + j) = Inr jf)"
proof (induction insns arbitrary: i prog)
  case Nil
  then show ?case by simp
next
  case (Cons insn insns)
  from Cons.prems obtain jt jf p where p: "jump_offset m (insn_jt insn) i = Inr jt"
      "jump_offset m (insn_jf insn) i = Inr jf" "resolve_from m (i + 1) insns = Inr p"
      "prog = (insn_code insn, jt, jf, insn_k insn) # p"
    by (auto simp: then_do_Inr_iff)
  show ?case
    using Cons.IH [OF p(3)] p by (auto simp: nth_Cons less_Suc_eq_0_disj split: nat.split)
qed

lemma resolve_length: "resolve its = Inr prog \<Longrightarrow> length prog = length (instructions its)"
  by (auto simp: resolve_def dest: resolve_from_nth)

lemma resolve_at:
  assumes "resolve (pre @ InsnItem i # post) = Inr prog"
  obtains jt jf where
    "prog ! length (instructions pre) = (insn_code i, jt, jf, insn_k i)"
    "jump_offset (label_positions (pre @ InsnItem i # post) 0 Map.empty) (insn_jt i)
       (length (instructions pre)) = Inr jt"
    "jump_offset (label_positions (pre @ InsnItem i # post) 0 Map.empty) (insn_jf i)
       (length (instructions pre)) = Inr jf"
  using resolve_from_nth [OF assms [unfolded resolve_def]]
  by (auto dest!: spec [of _ "length (instructions pre)"])

text \<open>
  A resolved offset leads from the instruction to the code after the label: the one
  \<open>goto\<close> finds.
\<close>

lemma jump_lands:
  assumes dist: "distinct (placed (pre @ InsnItem i # post))"
    and off: "offset_to (label_positions (pre @ InsnItem i # post) 0 Map.empty) l
       (length (instructions pre)) = Inr d"
  shows "\<exists>mid target. post = mid @ LabelItem l # target \<and> goto l post = Some target \<and>
     d = length (instructions mid)"
proof (cases "l \<in> set (placed post)")
  case True
  then obtain mid target where m: "post = mid @ LabelItem l # target" "goto l post = Some target"
    using goto_Some_split by blast
  with dist have "l \<notin> set (placed target)" by simp
  from label_positions_at [OF this, of "pre @ InsnItem i # mid"] off m
  show ?thesis by (auto simp: offset_to_Inr)
next
  case False
  have "label_positions (pre @ InsnItem i # post) 0 Map.empty l = label_positions pre 0 Map.empty l"
    using False by (simp add: label_positions_append label_positions_other)
  with off have "label_positions pre 0 Map.empty l = Some (length (instructions pre) + 1 + d)"
    by (simp add: offset_to_Inr)
  from label_positions_before [OF this] show ?thesis by simp
qed

section \<open>A resolved program runs as its symbolic code\<close>

fun outcome_of :: "outcome \<Rightarrow> (vm_error + nat) option" where
  "outcome_of (Fall a x) = Some (Inl VM_NoRet)"
| "outcome_of (Goto l a x) = None"
| "outcome_of (Done r) = Some r"

lemma vm_loop_turn:
  "pc s < length prog \<Longrightarrow> vm_loop prog packet s =
     (case vm_step prog packet s of
        Inl e \<Rightarrow> Inl e | Inr (Inl t) \<Rightarrow> vm_loop prog packet t | Inr (Inr n) \<Rightarrow> Inr n)"
  by (simp add: vm_loop.simps [of prog packet s])

text \<open>One turn of the interpreter is one symbolic instruction.\<close>

lemma vm_step_sym:
  assumes "prog ! pc s = (insn_code i, jt, jf, insn_k i)" and "steps s < 10000"
  shows "vm_step prog packet s =
    (case sym_insn packet i (accumulator s) (index_reg s) of
       S_next a x \<Rightarrow> Inr (Inl (s\<lparr>accumulator := a, index_reg := x, pc := pc s + 1, steps := steps s + 1\<rparr>))
     | S_jump t \<Rightarrow>
         (case jmp_taken (insn_code i) (insn_k i) (accumulator s) of
            Inl e \<Rightarrow> Inl e
          | Inr taken \<Rightarrow>
              Inr (Inl (s\<lparr>pc := pc s + ((if taken then jt else jf) + 1), steps := steps s + 1\<rparr>)))
     | S_done (Inl e) \<Rightarrow> Inl e
     | S_done (Inr n) \<Rightarrow> Inr (Inr n))"
  using assms
  by (auto simp: vm_step_def sym_insn_def step_jmp_def Let_def split: sum.splits)

text \<open>The jump of a resolved instruction, against the jump of its symbolic form.\<close>

lemma jump_target:
  assumes "distinct (placed (pre @ InsnItem i # post))"
    and "jump_offset (label_positions (pre @ InsnItem i # post) 0 Map.empty) t
       (length (instructions pre)) = Inr d"
  shows "\<exists>mid target. post = mid @ target \<and> d = length (instructions mid) \<and>
     (case t of None \<Rightarrow> target = post | Some l \<Rightarrow> goto l post = Some target)"
proof (cases t)
  case None
  with assms(2) show ?thesis by (intro exI [of _ "[]"] exI [of _ post]) simp
next
  case (Some l)
  with assms(2) jump_lands [OF assms(1), of l d] obtain mid target where
    "post = mid @ LabelItem l # target" "goto l post = Some target" "d = length (instructions mid)"
    by auto
  with Some show ?thesis by (intro exI [of _ "mid @ [LabelItem l]"] exI [of _ target]) simp
qed

lemma sym_insn_jump:
  "sym_insn packet i a x = S_jump t \<Longrightarrow>
     \<exists>taken. jmp_taken (insn_code i) (insn_k i) a = Inr taken \<and>
       t = (if taken then insn_jt i else insn_jf i)"
  by (auto simp: sym_insn_def Let_def split: if_splits sum.splits)

text \<open>
  One turn on a resolved instruction: both sides are done with the same result, or both go
  on at the same place, a part \<open>target\<close> of the code behind the instruction.
\<close>

lemma resolved_turn:
  assumes res: "resolve (pre @ InsnItem i # post) = Inr prog"
    and dist: "distinct (placed (pre @ InsnItem i # post))"
    and here: "pc s = length (instructions pre)" "steps s < 10000"
  shows "(\<exists>r. sexec packet (InsnItem i # post) (accumulator s) (index_reg s) = Done r \<and>
       vm_loop prog packet s = r) \<or>
     (\<exists>mid target t. post = mid @ target \<and> vm_loop prog packet s = vm_loop prog packet t \<and>
       sexec packet (InsnItem i # post) (accumulator s) (index_reg s) =
         sexec packet target (accumulator t) (index_reg t) \<and>
       pc t = pc s + (length (instructions mid) + 1) \<and> steps t = steps s + 1)"
proof -
  from resolve_at [OF res] obtain jt jf where
    at: "prog ! pc s = (insn_code i, jt, jf, insn_k i)"
    and jumps: "jump_offset (label_positions (pre @ InsnItem i # post) 0 Map.empty) (insn_jt i)
        (length (instructions pre)) = Inr jt"
      "jump_offset (label_positions (pre @ InsnItem i # post) 0 Map.empty) (insn_jf i)
        (length (instructions pre)) = Inr jf"
    unfolding here(1) by blast
  have inside: "pc s < length prog" using here(1) resolve_length [OF res] by simp
  note turn = vm_loop_turn [OF inside] vm_step_sym [OF at here(2)]
  show ?thesis
  proof (cases "sym_insn packet i (accumulator s) (index_reg s)")
    case (S_next a x)
    let ?t = "s\<lparr>accumulator := a, index_reg := x, pc := pc s + 1, steps := steps s + 1\<rparr>"
    have "vm_loop prog packet s = vm_loop prog packet ?t" by (simp add: turn S_next)
    with S_next show ?thesis
      by (intro disjI2 exI [of _ "[]"] exI [of _ post] exI [of _ ?t]) simp
  next
    case (S_done r)
    then show ?thesis by (cases r) (simp_all add: turn)
  next
    case (S_jump tgt)
    from sym_insn_jump [OF this] obtain taken where
      tk: "jmp_taken (insn_code i) (insn_k i) (accumulator s) = Inr taken"
        "tgt = (if taken then insn_jt i else insn_jf i)" by blast
    let ?d = "if taken then jt else jf"
    let ?t = "s\<lparr>pc := pc s + (?d + 1), steps := steps s + 1\<rparr>"
    have vm: "vm_loop prog packet s = vm_loop prog packet ?t" by (simp add: turn S_jump tk)
    from jump_target [OF dist, of tgt ?d] jumps tk(2) obtain mid target where
      m: "post = mid @ target" "?d = length (instructions mid)"
        "case tgt of None \<Rightarrow> target = post | Some l \<Rightarrow> goto l post = Some target"
      by (cases taken) auto
    have "sexec packet (InsnItem i # post) (accumulator s) (index_reg s) =
        sexec packet target (accumulator s) (index_reg s)"
      using m(3) by (cases tgt) (simp_all add: S_jump)
    with vm m(1,2) show ?thesis
      by (intro disjI2 exI [of _ mid] exI [of _ target] exI [of _ ?t]) simp
  qed
qed

theorem resolved_runs:
  assumes "resolve (pre @ suf) = Inr prog" and "distinct (placed (pre @ suf))"
    and "pc s = length (instructions pre)"
    and "steps s + length (instructions suf) \<le> 10000"
  shows "outcome_of (sexec packet suf (accumulator s) (index_reg s)) = Some (vm_loop prog packet s)"
  using assms
proof (induction "length suf" arbitrary: pre suf s rule: less_induct)
  case less
  show ?case
  proof (cases suf)
    case Nil
    with less.prems(3) resolve_length [OF less.prems(1)] show ?thesis
      by (simp add: vm_loop.simps [of prog packet s])
  next
    case (Cons it post)
    show ?thesis
    proof (cases it)
      case (LabelItem l)
      have "outcome_of (sexec packet post (accumulator s) (index_reg s)) = Some (vm_loop prog packet s)"
        by (rule less.hyps [of post "pre @ [LabelItem l]"])
          (use less.prems Cons LabelItem in simp_all)
      with Cons LabelItem show ?thesis by simp
    next
      case (InsnItem i)
      have suf: "suf = InsnItem i # post" using Cons InsnItem by simp
      have "steps s < 10000" using less.prems(4) suf by simp
      from resolved_turn [OF less.prems(1,2) [unfolded suf] less.prems(3) this, of packet]
      show ?thesis
      proof (elim disjE exE conjE)
        fix mid target t
        assume t: "post = mid @ target" "vm_loop prog packet s = vm_loop prog packet t"
          "sexec packet (InsnItem i # post) (accumulator s) (index_reg s) =
             sexec packet target (accumulator t) (index_reg t)"
          "pc t = pc s + (length (instructions mid) + 1)" "steps t = steps s + 1"
        have "outcome_of (sexec packet target (accumulator t) (index_reg t)) = Some (vm_loop prog packet t)"
          by (rule less.hyps [of target "pre @ InsnItem i # mid"]) (use less.prems suf t in simp_all)
        with t(2,3) show ?thesis unfolding suf by simp
      qed (simp add: suf)
    qed
  qed
qed

section \<open>When resolving succeeds\<close>

text \<open>
  Code whose jumps all lead forward, to labels placed later in it or to the exits \<open>X\<close>.
  For such code the only error of \<^verbatim>\<open>_resolve\<close> is the documented one: a jump longer than
  255 instructions.
\<close>

definition targets :: "PInsn \<Rightarrow> Label set" where
  "targets i = set_option (insn_jt i) \<union> set_option (insn_jf i)"

fun forward :: "Label set \<Rightarrow> item list \<Rightarrow> bool" where
  "forward X [] \<longleftrightarrow> True"
| "forward X (LabelItem l # its) \<longleftrightarrow> forward X its"
| "forward X (InsnItem i # its) \<longleftrightarrow> targets i \<subseteq> X \<union> set (placed its) \<and> forward X its"

lemma forward_mono: "forward X its \<Longrightarrow> X \<subseteq> Y \<Longrightarrow> forward Y its"
  by (induction X its rule: forward.induct) auto

lemma forward_append: "forward X (c @ d) \<longleftrightarrow> forward (X \<union> set (placed d)) c \<and> forward X d"
  by (induction X c rule: forward.induct) auto

lemma offset_forward:
  assumes "distinct (placed (pre @ InsnItem i # post))" and "l \<in> set (placed post)"
  shows "\<exists>d. d \<le> length (instructions post) \<and>
     offset_to (label_positions (pre @ InsnItem i # post) 0 Map.empty) l (length (instructions pre)) =
       (if d \<le> 255 then Inr d else Inl (BPFCompileError (JumpTooFar (int d))))"
proof -
  from goto_Some_split [OF assms(2)] obtain mid target where m: "post = mid @ LabelItem l # target"
    by blast
  with assms(1) have "l \<notin> set (placed target)" by simp
  from label_positions_at [OF this, of "pre @ InsnItem i # mid"] m
  have "label_positions (pre @ InsnItem i # post) 0 Map.empty l =
      Some (length (instructions pre) + 1 + length (instructions mid))" by simp
  with m show ?thesis
    by (intro exI [of _ "length (instructions mid)"]) (auto simp: offset_to_def)
qed

lemma jump_offset_forward:
  assumes "distinct (placed (pre @ InsnItem i # post))" and "set_option t \<subseteq> set (placed post)"
  shows "\<exists>d. d \<le> length (instructions post) \<and>
     jump_offset (label_positions (pre @ InsnItem i # post) 0 Map.empty) t (length (instructions pre)) =
       (if d \<le> 255 then Inr d else Inl (BPFCompileError (JumpTooFar (int d))))"
  using offset_forward [OF assms(1)] assms(2) by (cases t) auto

lemma resolve_forward_from:
  assumes "distinct (placed (pre @ suf))" and "forward {} suf"
  defines "m \<equiv> label_positions (pre @ suf) 0 Map.empty"
  shows "(\<exists>prog. resolve_from m (length (instructions pre)) (instructions suf) = Inr prog) \<or>
     (\<exists>d. 255 < d \<and> d < length (instructions suf) \<and>
        resolve_from m (length (instructions pre)) (instructions suf) =
          Inl (BPFCompileError (JumpTooFar (int d))))"
  using assms(1,2) unfolding m_def
proof (induction suf arbitrary: pre)
  case (Cons it post)
  show ?case
  proof (cases it)
    case (LabelItem l)
    with Cons.IH [of "pre @ [it]"] Cons.prems show ?thesis by simp
  next
    case (InsnItem i)
    let ?m = "label_positions (pre @ InsnItem i # post) 0 Map.empty"
    have dist: "distinct (placed (pre @ InsnItem i # post))" using Cons.prems(1) InsnItem by simp
    have "set_option (insn_jt i) \<subseteq> set (placed post)" "set_option (insn_jf i) \<subseteq> set (placed post)"
      using Cons.prems(2) InsnItem by (auto simp: targets_def)
    from jump_offset_forward [OF dist this(1)] jump_offset_forward [OF dist this(2)]
    obtain d d' where d: "d \<le> length (instructions post)" "d' \<le> length (instructions post)"
      "jump_offset ?m (insn_jt i) (length (instructions pre)) =
         (if d \<le> 255 then Inr d else Inl (BPFCompileError (JumpTooFar (int d))))"
      "jump_offset ?m (insn_jf i) (length (instructions pre)) =
         (if d' \<le> 255 then Inr d' else Inl (BPFCompileError (JumpTooFar (int d'))))"
      by blast
    have "(\<exists>prog. resolve_from ?m (length (instructions pre) + 1) (instructions post) = Inr prog) \<or>
      (\<exists>d. 255 < d \<and> d < length (instructions post) \<and>
         resolve_from ?m (length (instructions pre) + 1) (instructions post) =
           Inl (BPFCompileError (JumpTooFar (int d))))"
      using Cons.IH [of "pre @ [it]"] Cons.prems InsnItem by simp
    then show ?thesis
    proof (elim disjE exE conjE)
      fix prog
      assume "resolve_from ?m (length (instructions pre) + 1) (instructions post) = Inr prog"
      with d show ?thesis
        by (cases "d \<le> 255"; cases "d' \<le> 255") (auto simp: InsnItem)
    next
      fix far
      assume "255 < far" "far < length (instructions post)"
        "resolve_from ?m (length (instructions pre) + 1) (instructions post) =
           Inl (BPFCompileError (JumpTooFar (int far)))"
      with d show ?thesis
        by (cases "d \<le> 255"; cases "d' \<le> 255") (auto simp: InsnItem)
    qed
  qed
qed simp

theorem resolve_forward:
  assumes "distinct (placed its)" and "forward {} its"
  shows "(\<exists>prog. resolve its = Inr prog) \<or>
     (\<exists>d. 255 < d \<and> d < length (instructions its) \<and>
        resolve its = Inl (BPFCompileError (JumpTooFar (int d))))"
  using resolve_forward_from [of "[]" its] assms by (simp add: resolve_def)

corollary resolve_short:
  assumes "distinct (placed its)" and "forward {} its" and "length (instructions its) \<le> 256"
  shows "\<exists>prog. resolve its = Inr prog"
  using resolve_forward [OF assms(1,2)] assms(3) by auto

end
