(* ===== verification/Bpf_Meaning.thy ===== *)
theory Bpf_Meaning
  imports Bpf_Assembler
begin

unbundle bit_operations_syntax

text \<open>
  What a filter expression means on a frame, without reference to code: three truth
  values, because a test of a field the frame is too short to hold ends the whole filter
  (\<open>None\<close>, the frame is rejected, also under \<open>not\<close>); and the rules by which pieces of
  symbolic code decide such a meaning.
\<close>

section \<open>Three-valued tests\<close>

fun and_then :: "bool option \<Rightarrow> bool option \<Rightarrow> bool option" where
  "and_then (Some True) v = v"
| "and_then u v = u"

fun or_else :: "bool option \<Rightarrow> bool option \<Rightarrow> bool option" where
  "or_else (Some False) v = v"
| "or_else u v = u"

fun if_then :: "bool option \<Rightarrow> bool option \<Rightarrow> bool option \<Rightarrow> bool option" where
  "if_then (Some True) u v = u"
| "if_then (Some False) u v = v"
| "if_then None u v = None"

definition field :: "bytes \<Rightarrow> nat \<Rightarrow> nat \<Rightarrow> nat option" where
  "field packet offset n =
     (if offset + n > length packet then None
      else Some (from_be (py_slice packet offset (offset + n))))"

definition field_is :: "bytes \<Rightarrow> nat \<Rightarrow> nat \<Rightarrow> nat \<Rightarrow> bool option" where
  "field_is packet offset n v = map_option (\<lambda>x. x = v) (field packet offset n)"

section \<open>The meaning of an expression\<close>

definition ethertype_is :: "bytes \<Rightarrow> nat \<Rightarrow> bool option" where
  "ethertype_is packet v = field_is packet 12 2 v"

definition sem_transport :: "nat \<Rightarrow> bytes \<Rightarrow> bool option" where
  "sem_transport proto packet =
     if_then (ethertype_is packet ETHERTYPE_IPV6)
       (or_else (field_is packet 20 1 proto)
          (and_then (field_is packet 20 1 IPV6_FRAGMENT_EXT_HEADER) (field_is packet 54 1 proto)))
       (and_then (ethertype_is packet ETHERTYPE_IPV4) (field_is packet 23 1 proto))"

definition sem_proto :: "pystr \<Rightarrow> bytes \<Rightarrow> bool option" where
  "sem_proto name packet =
     (if name = ascii ''ip'' then ethertype_is packet ETHERTYPE_IPV4
      else if name = ascii ''arp'' then ethertype_is packet ETHERTYPE_ARP
      else if name = ascii ''ip6'' then ethertype_is packet ETHERTYPE_IPV6
      else if name = ascii ''icmp'' then
        and_then (ethertype_is packet ETHERTYPE_IPV4) (field_is packet 23 1 IPPROTO_ICMP)
      else sem_transport (if name = ascii ''tcp'' then IPPROTO_TCP else IPPROTO_UDP) packet)"

text \<open>The side or sides a direction selects: either one, the source tested first.\<close>

fun endpoint :: "direction option \<Rightarrow> bool option \<Rightarrow> bool option \<Rightarrow> bool option" where
  "endpoint (Some Src) s d = s"
| "endpoint (Some Dst) s d = d"
| "endpoint None s d = or_else s d"

definition sem_host :: "nat \<Rightarrow> direction option \<Rightarrow> bytes \<Rightarrow> bool option" where
  "sem_host addr direction packet =
     and_then (ethertype_is packet ETHERTYPE_IPV4)
       (endpoint direction (field_is packet 26 4 addr) (field_is packet 30 4 addr))"

definition carries_ports :: "bytes \<Rightarrow> nat \<Rightarrow> bool option" where
  "carries_ports packet offset =
     or_else (field_is packet offset 1 IPPROTO_TCP) (field_is packet offset 1 IPPROTO_UDP)"

definition unfragmented :: "bytes \<Rightarrow> bool option" where
  "unfragmented packet = map_option (\<lambda>x. x AND IPV4_FRAG_MASK = 0) (field packet 20 2)"

definition ipv4_ports :: "nat \<Rightarrow> direction option \<Rightarrow> bytes \<Rightarrow> bool option" where
  "ipv4_ports port direction packet =
     (case field packet 14 1 of
        None \<Rightarrow> None
      | Some b \<Rightarrow>
          let h = 4 * (b AND 0x0F)
          in endpoint direction (field_is packet (h + 14) 2 port) (field_is packet (h + 16) 2 port))"

text \<open>
  The branch for frames that are not IPv6 does not test for IPv4: the code does not.
\<close>

definition sem_port :: "nat \<Rightarrow> direction option \<Rightarrow> bytes \<Rightarrow> bool option" where
  "sem_port port direction packet =
     if_then (ethertype_is packet ETHERTYPE_IPV6)
       (and_then (carries_ports packet 20)
          (endpoint direction (field_is packet 54 2 port) (field_is packet 56 2 port)))
       (and_then (carries_ports packet 23)
          (and_then (unfragmented packet) (ipv4_ports port direction packet)))"

fun sem :: "Node \<Rightarrow> bytes \<Rightarrow> bool option" where
  "sem (Proto name) packet = sem_proto name packet"
| "sem (Host addr direction) packet = sem_host addr direction packet"
| "sem (Port port direction) packet = sem_port port direction packet"
| "sem (NotE n) packet = map_option Not (sem n packet)"
| "sem (AndE n m) packet = and_then (sem n packet) (sem m packet)"
| "sem (OrE n m) packet = or_else (sem n packet) (sem m packet)"

section \<open>Code that decides a meaning\<close>

text \<open>Every run of the code ends at one of its two exits, or is rejected.\<close>

fun leaves :: "Label \<Rightarrow> Label \<Rightarrow> bool option \<Rightarrow> outcome \<Rightarrow> bool" where
  "leaves T F None out \<longleftrightarrow> out = Done (Inl VM_Reject)"
| "leaves T F (Some b) out \<longleftrightarrow> (\<exists>a x. out = Goto (if b then T else F) a x)"

definition decides :: "bytes \<Rightarrow> item list \<Rightarrow> Label \<Rightarrow> Label \<Rightarrow> bool option \<Rightarrow> bool" where
  "decides packet c T F v \<longleftrightarrow> (\<forall>a x. leaves T F v (sexec packet c a x))"

definition block :: "item list \<Rightarrow> Label \<Rightarrow> Label \<Rightarrow> (bytes \<Rightarrow> bool option) \<Rightarrow> bool" where
  "block c T F m \<longleftrightarrow>
     distinct (placed c) \<and> forward {T, F} c \<and> (\<forall>packet. decides packet c T F (m packet))"

lemma block_swap: "block c T F m \<Longrightarrow> block c F T (\<lambda>packet. map_option Not (m packet))"
proof -
  have "leaves T F v out \<Longrightarrow> leaves F T (map_option Not v) out" for v out
    by (cases v) auto
  then show "block c T F m \<Longrightarrow> ?thesis" by (auto simp: block_def decides_def insert_commute)
qed

lemma leaves_cases:
  assumes "leaves T F v out"
  obtains (reject) "v = None" "out = Done (Inl VM_Reject)"
    | (yes) a x where "v = Some True" "out = Goto T a x"
    | (no) a x where "v = Some False" "out = Goto F a x"
  using assms by (cases v) (auto split: if_splits)

lemma block_leaves: "block c T F m \<Longrightarrow> leaves T F (m packet) (sexec packet c a x)"
  by (simp add: block_def decides_def)

text \<open>\<open>and\<close>: the true exit of the first piece is the label the second one stands at.\<close>

lemma block_and:
  assumes c: "block c M F m" and d: "block d T F n"
    and fresh: "M \<notin> set (placed c)" "M \<notin> set (placed d)" "set (placed c) \<inter> set (placed d) = {}"
      "F \<noteq> M" "F \<notin> set (placed d)"
  shows "block (c @ LabelItem M # d) T F (\<lambda>packet. and_then (m packet) (n packet))"
  unfolding block_def
proof (intro conjI allI)
  show "distinct (placed (c @ LabelItem M # d))"
    using c d fresh by (auto simp: block_def)
  show "forward {T, F} (c @ LabelItem M # d)"
    using c d by (auto simp: block_def forward_append intro: forward_mono)
  fix packet
  have "leaves T F (and_then (m packet) (n packet)) (sexec packet (c @ LabelItem M # d) a x)" for a x
    using block_leaves [OF c, of packet a x]
  proof (cases rule: leaves_cases)
    case (yes a' x')
    then show ?thesis using block_leaves [OF d, of packet a' x'] by (simp add: sexec_append)
  qed (use fresh in \<open>simp_all add: sexec_append\<close>)
  then show "decides packet (c @ LabelItem M # d) T F (and_then (m packet) (n packet))"
    by (simp add: decides_def)
qed

lemma not_and_then:
  "map_option Not (and_then (map_option Not u) (map_option Not v)) = or_else u v"
proof (cases u)
  case (Some b)
  then show ?thesis by (cases b; cases v) simp_all
qed simp

lemma block_or:
  assumes c: "block c T M m" and d: "block d T F n"
    and fresh: "M \<notin> set (placed c)" "M \<notin> set (placed d)" "set (placed c) \<inter> set (placed d) = {}"
      "T \<noteq> M" "T \<notin> set (placed d)"
  shows "block (c @ LabelItem M # d) T F (\<lambda>packet. or_else (m packet) (n packet))"
proof -
  have "block (c @ LabelItem M # d) F T
      (\<lambda>packet. and_then (map_option Not (m packet)) (map_option Not (n packet)))"
    by (rule block_and [OF block_swap [OF c] block_swap [OF d] fresh])
  from block_swap [OF this] show ?thesis by (simp only: not_and_then)
qed

text \<open>A choice between two pieces with the same exits.\<close>

lemma block_if:
  assumes b: "block b L R m" and c: "block c T F n" and d: "block d T F k"
    and fresh: "L \<noteq> R" "L \<notin> set (placed (b @ c @ d))" "R \<notin> set (placed (b @ c @ d))"
      "distinct (placed (b @ c @ d))" "{T, F} \<inter> insert R (set (placed d)) = {}"
  shows "block (b @ LabelItem L # c @ LabelItem R # d) T F
     (\<lambda>packet. if_then (m packet) (n packet) (k packet))"
  unfolding block_def
proof (intro conjI allI)
  show "distinct (placed (b @ LabelItem L # c @ LabelItem R # d))"
    using fresh by auto
  show "forward {T, F} (b @ LabelItem L # c @ LabelItem R # d)"
    using b c d by (auto simp: block_def forward_append intro: forward_mono)
  fix packet
  have "leaves T F (if_then (m packet) (n packet) (k packet))
      (sexec packet (b @ LabelItem L # c @ LabelItem R # d) a x)" for a x
    using block_leaves [OF b, of packet a x]
  proof (cases rule: leaves_cases)
    case (yes a' x')
    show ?thesis
      using block_leaves [OF c, of packet a' x']
      by (cases rule: leaves_cases) (use yes fresh in \<open>auto simp: sexec_append\<close>)
  next
    case (no a' x')
    then show ?thesis
      using block_leaves [OF d, of packet a' x'] fresh by (simp add: sexec_append goto_append)
  qed (simp add: sexec_append)
  then show "decides packet (b @ LabelItem L # c @ LabelItem R # d) T F
      (if_then (m packet) (n packet) (k packet))"
    by (simp add: decides_def)
qed

end
