(* ===== verification/Bpf_Blocks.thy ===== *)
theory Bpf_Blocks
  imports Bpf_Meaning
begin

unbundle bit_operations_syntax

text \<open>
  The code the primitives emit, as item lists, and the meaning each list decides. The
  interface \<open>code_generator\<close> is the contract of every \<^verbatim>\<open>_compile_*\<close> function of
  \<^verbatim>\<open>src/rootwire/bpf_compiler.py\<close>; \<open>_compile\<close> is proved to meet it from the generators of its
  operands.
\<close>

section \<open>One test\<close>

definition test_code :: "nat \<Rightarrow> nat \<Rightarrow> nat \<Rightarrow> Label \<Rightarrow> Label \<Rightarrow> item list" where
  "test_code code offset value T F =
     [InsnItem (plain_insn code offset), InsnItem (jump_insn JEQ_K value T F)]"

lemma targets_simps [simp]:
  "targets (plain_insn code k) = {}" "targets (jump_insn code k T F) = {T, F}"
  by (auto simp: targets_def plain_insn_def jump_insn_def)

lemma emitter_simps [simp]:
  "items (place l e) = items e @ [LabelItem l]" "counter (place l e) = counter e"
  "items (emit i e) = items e @ [InsnItem i]" "counter (emit i e) = counter e"
  "items (test_at code offset value T F e) = items e @ test_code code offset value T F"
  "counter (test_at code offset value T F e) = counter e"
  by (simp_all add: place_def emit_def test_at_def test_code_def)

lemma test_code_simps [simp]:
  "placed (test_code code offset value T F) = []"
  "length (instructions (test_code code offset value T F)) = 2"
  by (simp_all add: test_code_def)

lemma forward_test [simp]: "forward X (test_code code offset value T F) \<longleftrightarrow> {T, F} \<subseteq> X"
  by (simp add: test_code_def)

lemma vm_load_field:
  "vm_load packet offset n =
     (case field packet offset n of None \<Rightarrow> Inl VM_Reject | Some v \<Rightarrow> Inr v)"
  by (simp add: vm_load_def field_def)

text \<open>The instructions the compiler emits, on the interpreter.\<close>

lemma step_ld_abs:
  "step_ld LDH_ABS k packet x = vm_load packet k 2"
  "step_ld LDB_ABS k packet x = vm_load packet k 1"
  "step_ld LDW_ABS k packet x = vm_load packet k 4"
  "step_ld LDH_IND k packet x = vm_load packet (x + k) 2"
  by (simp_all add: step_ld_def SIZE_BYTES_def opcode_defs)

lemma load_class: "LDH_ABS AND 7 = 0" "LDB_ABS AND 7 = 0" "LDW_ABS AND 7 = 0" "LDH_IND AND 7 = 0"
  by (simp_all add: opcode_defs)

lemma sym_load:
  "sym_insn packet (plain_insn LDH_ABS k) a x =
     (case field packet k 2 of None \<Rightarrow> S_done (Inl VM_Reject) | Some v \<Rightarrow> S_next v x)"
  "sym_insn packet (plain_insn LDB_ABS k) a x =
     (case field packet k 1 of None \<Rightarrow> S_done (Inl VM_Reject) | Some v \<Rightarrow> S_next v x)"
  "sym_insn packet (plain_insn LDW_ABS k) a x =
     (case field packet k 4 of None \<Rightarrow> S_done (Inl VM_Reject) | Some v \<Rightarrow> S_next v x)"
  "sym_insn packet (plain_insn LDH_IND k) a x =
     (case field packet (x + k) 2 of None \<Rightarrow> S_done (Inl VM_Reject) | Some v \<Rightarrow> S_next v x)"
  by (simp_all add: sym_insn_def plain_insn_def step_ld_abs load_class vm_load_field
      split: option.split)

lemma sym_ldx:
  "sym_insn packet (plain_insn LDXB_MSH k) a x =
     (case field packet k 1 of None \<Rightarrow> S_done (Inl VM_Reject) | Some b \<Rightarrow> S_next a (4 * (b AND 0x0F)))"
  by (simp add: sym_insn_def plain_insn_def step_ldx_def vm_load_field opcode_defs split: option.split)

lemma sym_jump:
  "sym_insn packet (jump_insn JEQ_K v T F) a x = S_jump (Some (if a = v then T else F))"
  "sym_insn packet (jump_insn JSET_K v T F) a x = S_jump (Some (if a AND v \<noteq> 0 then T else F))"
  by (simp_all add: sym_insn_def jump_insn_def jmp_taken_def opcode_defs)

lemma sym_ret: "sym_insn packet (plain_insn RET_K k) a x = S_done (Inr k)"
  by (simp add: sym_insn_def plain_insn_def step_ret_def opcode_defs)

lemma sexec_test:
  "sexec packet (test_code LDH_ABS k v T F) a x =
     (case field packet k 2 of None \<Rightarrow> Done (Inl VM_Reject) | Some w \<Rightarrow> Goto (if w = v then T else F) w x)"
  "sexec packet (test_code LDB_ABS k v T F) a x =
     (case field packet k 1 of None \<Rightarrow> Done (Inl VM_Reject) | Some w \<Rightarrow> Goto (if w = v then T else F) w x)"
  "sexec packet (test_code LDW_ABS k v T F) a x =
     (case field packet k 4 of None \<Rightarrow> Done (Inl VM_Reject) | Some w \<Rightarrow> Goto (if w = v then T else F) w x)"
  "sexec packet (test_code LDH_IND k v T F) a x =
     (case field packet (x + k) 2 of None \<Rightarrow> Done (Inl VM_Reject) | Some w \<Rightarrow> Goto (if w = v then T else F) w x)"
  by (simp_all add: test_code_def sym_load sym_jump split: option.split)

lemma block_test:
  "block (test_code LDH_ABS k v T F) T F (\<lambda>packet. field_is packet k 2 v)"
  "block (test_code LDB_ABS k v T F) T F (\<lambda>packet. field_is packet k 1 v)"
  "block (test_code LDW_ABS k v T F) T F (\<lambda>packet. field_is packet k 4 v)"
  by (auto simp: block_def decides_def sexec_test field_is_def split: option.split)

section \<open>The contract of a generator\<close>

text \<open>
  Given exits that exist already, a generator appends code and nothing else; its labels
  are new ones; the code decides the meaning, and has the stated number of instructions.
\<close>

definition appends :: "nat \<Rightarrow> nat \<Rightarrow> item list \<Rightarrow> Emitter \<Rightarrow> Emitter \<Rightarrow> bool" where
  "appends lo n c e e' \<longleftrightarrow>
     items e' = items e @ c \<and> counter e \<le> counter e' \<and> lo \<le> counter e \<and>
     set (placed c) \<subseteq> {lo<..counter e'} \<and> length (instructions c) = n"

locale code_generator =
  fixes gen :: "Label \<Rightarrow> Label \<Rightarrow> Emitter \<Rightarrow> Emitter"
    and meaning :: "bytes \<Rightarrow> bool option"
    and code_length :: nat
  assumes emits: "T \<le> counter e \<Longrightarrow> F \<le> counter e \<Longrightarrow>
    \<exists>c. appends (counter e) code_length c e (gen T F e) \<and> block c T F meaning"
begin

lemma emitsE:
  assumes "T \<le> counter e" and "F \<le> counter e"
  obtains c where "items (gen T F e) = items e @ c" "counter e \<le> counter (gen T F e)"
    "set (placed c) \<subseteq> {counter e<..counter (gen T F e)}" "length (instructions c) = code_length"
    "block c T F meaning"
  using emits [OF assms] by (auto simp: appends_def)

lemma generator_not:
  "code_generator (\<lambda>T F. gen F T) (\<lambda>packet. map_option Not (meaning packet)) code_length"
  by (standard) (use emits block_swap in blast)

end

text \<open>Two generators in a row, as \<^verbatim>\<open>_compile\<close> composes them for \<open>and\<close> and \<open>or\<close>.\<close>

locale code_pair =
  left: code_generator gen_l meaning_l length_l + right: code_generator gen_r meaning_r length_r
  for gen_l meaning_l length_l gen_r meaning_r length_r
begin

lemma pair_emits:
  fixes e :: Emitter
  assumes "T \<le> counter e" and "F \<le> counter e" and "M = counter e + 1" and "T' \<le> M" and "F' \<le> M"
  obtains c d where "block c T' F' meaning_l" "block d T F meaning_r"
    "appends (counter e) (length_l + length_r) (c @ LabelItem M # d) e
       (gen_r T F (place M (gen_l T' F' (e\<lparr>counter := M\<rparr>))))"
    "M \<notin> set (placed c)" "M \<notin> set (placed d)" "set (placed c) \<inter> set (placed d) = {}"
    "T \<notin> insert M (set (placed d))" "F \<notin> insert M (set (placed d))"
proof -
  let ?e = "e\<lparr>counter := M\<rparr>"
  have "T' \<le> counter ?e" "F' \<le> counter ?e"
    using assms by auto
  then obtain c where c: "items (gen_l T' F' ?e) = items e @ c" "M \<le> counter (gen_l T' F' ?e)"
    "set (placed c) \<subseteq> {M<..counter (gen_l T' F' ?e)}" "length (instructions c) = length_l"
    "block c T' F' meaning_l"
    by (rule left.emitsE) auto
  let ?f = "place M (gen_l T' F' ?e)"
  have "T \<le> counter ?f" "F \<le> counter ?f" using assms c(2) by auto
  then obtain d where d: "items (gen_r T F ?f) = items ?f @ d" "counter ?f \<le> counter (gen_r T F ?f)"
    "set (placed d) \<subseteq> {counter ?f<..counter (gen_r T F ?f)}" "length (instructions d) = length_r"
    "block d T F meaning_r"
    by (rule right.emitsE)
  show thesis
  proof (rule that [OF c(5) d(5)])
    show "appends (counter e) (length_l + length_r) (c @ LabelItem M # d) e (gen_r T F ?f)"
      using c d assms(3) by (auto simp: appends_def)
    show "set (placed c) \<inter> set (placed d) = {}"
      using c(3) d(3) by fastforce
  qed (use c d assms in auto)
qed

lemma generator_and:
  "code_generator (\<lambda>T F e. let (mid, e) = new_label e; e = gen_l mid F e; e = place mid e in gen_r T F e)
     (\<lambda>packet. and_then (meaning_l packet) (meaning_r packet)) (length_l + length_r)"
proof
  fix T F :: Label and e :: Emitter
  assume le: "T \<le> counter e" "F \<le> counter e"
  obtain c d where cd:
    "block c (counter e + 1) F meaning_l" "block d T F meaning_r"
    "appends (counter e) (length_l + length_r) (c @ LabelItem (counter e + 1) # d) e
       (gen_r T F (place (counter e + 1) (gen_l (counter e + 1) F (e\<lparr>counter := counter e + 1\<rparr>))))"
    "counter e + 1 \<notin> set (placed c)" "counter e + 1 \<notin> set (placed d)"
    "set (placed c) \<inter> set (placed d) = {}"
    "F \<notin> insert (counter e + 1) (set (placed d))"
    by (rule pair_emits [OF le refl, of "counter e + 1" F]) (use le in auto)
  have "block (c @ LabelItem (counter e + 1) # d) T F
      (\<lambda>packet. and_then (meaning_l packet) (meaning_r packet))"
    by (rule block_and [OF cd(1,2)]) (use cd in auto)
  with cd(3) show "\<exists>c. appends (counter e) (length_l + length_r) c e
      (let (mid, e) = new_label e; e = gen_l mid F e; e = place mid e in gen_r T F e) \<and>
      block c T F (\<lambda>packet. and_then (meaning_l packet) (meaning_r packet))"
    by (auto simp: new_label_def)
qed

lemma generator_or:
  "code_generator (\<lambda>T F e. let (mid, e) = new_label e; e = gen_l T mid e; e = place mid e in gen_r T F e)
     (\<lambda>packet. or_else (meaning_l packet) (meaning_r packet)) (length_l + length_r)"
proof
  fix T F :: Label and e :: Emitter
  assume le: "T \<le> counter e" "F \<le> counter e"
  obtain c d where cd:
    "block c T (counter e + 1) meaning_l" "block d T F meaning_r"
    "appends (counter e) (length_l + length_r) (c @ LabelItem (counter e + 1) # d) e
       (gen_r T F (place (counter e + 1) (gen_l T (counter e + 1) (e\<lparr>counter := counter e + 1\<rparr>))))"
    "counter e + 1 \<notin> set (placed c)" "counter e + 1 \<notin> set (placed d)"
    "set (placed c) \<inter> set (placed d) = {}"
    "T \<notin> insert (counter e + 1) (set (placed d))"
    by (rule pair_emits [OF le refl, of T "counter e + 1"]) (use le in auto)
  have "block (c @ LabelItem (counter e + 1) # d) T F
      (\<lambda>packet. or_else (meaning_l packet) (meaning_r packet))"
    by (rule block_or [OF cd(1,2)]) (use cd in auto)
  with cd(3) show "\<exists>c. appends (counter e) (length_l + length_r) c e
      (let (mid, e) = new_label e; e = gen_l T mid e; e = place mid e in gen_r T F e) \<and>
      block c T F (\<lambda>packet. or_else (meaning_l packet) (meaning_r packet))"
    by (auto simp: new_label_def)
qed

end

section \<open>The primitives\<close>

text \<open>The code of each primitive, from the last label number in use.\<close>

fun endpoint_code ::
    "nat \<Rightarrow> nat \<Rightarrow> nat \<Rightarrow> direction option \<Rightarrow> nat \<Rightarrow> nat \<Rightarrow> Label \<Rightarrow> Label \<Rightarrow> item list" where
  "endpoint_code code src dst (Some Src) v n T F = test_code code src v T F"
| "endpoint_code code src dst (Some Dst) v n T F = test_code code dst v T F"
| "endpoint_code code src dst None v n T F =
     test_code code src v T (n + 1) @ LabelItem (n + 1) # test_code code dst v T F"

fun endpoint_labels :: "direction option \<Rightarrow> nat" where
  "endpoint_labels (Some d) = 0"
| "endpoint_labels None = 1"

fun endpoint_length :: "direction option \<Rightarrow> nat" where
  "endpoint_length (Some d) = 2"
| "endpoint_length None = 4"

definition transport_code :: "nat \<Rightarrow> nat \<Rightarrow> Label \<Rightarrow> Label \<Rightarrow> item list" where
  "transport_code proto n T F =
     test_code LDH_ABS 12 ETHERTYPE_IPV6 (n + 1) (n + 2) @ LabelItem (n + 1) #
     (test_code LDB_ABS 20 proto T (n + 3) @ LabelItem (n + 3) #
      (test_code LDB_ABS 20 IPV6_FRAGMENT_EXT_HEADER (n + 4) F @ LabelItem (n + 4) #
       test_code LDB_ABS 54 proto T F)) @ LabelItem (n + 2) #
     (test_code LDH_ABS 12 ETHERTYPE_IPV4 (n + 5) F @ LabelItem (n + 5) #
      test_code LDB_ABS 23 proto T F)"

definition icmp_code :: "nat \<Rightarrow> Label \<Rightarrow> Label \<Rightarrow> item list" where
  "icmp_code n T F =
     test_code LDH_ABS 12 ETHERTYPE_IPV4 (n + 1) F @ LabelItem (n + 1) #
     test_code LDB_ABS 23 IPPROTO_ICMP T F"

definition host_code :: "nat \<Rightarrow> direction option \<Rightarrow> nat \<Rightarrow> Label \<Rightarrow> Label \<Rightarrow> item list" where
  "host_code addr direction n T F =
     test_code LDH_ABS 12 ETHERTYPE_IPV4 (n + 1) F @ LabelItem (n + 1) #
     endpoint_code LDW_ABS 26 30 direction addr (n + 1) T F"

definition carries_code :: "nat \<Rightarrow> nat \<Rightarrow> Label \<Rightarrow> Label \<Rightarrow> item list" where
  "carries_code offset n T F =
     test_code LDB_ABS offset IPPROTO_TCP T (n + 1) @ LabelItem (n + 1) #
     test_code LDB_ABS offset IPPROTO_UDP T F"

definition port_v6_code :: "nat \<Rightarrow> direction option \<Rightarrow> nat \<Rightarrow> Label \<Rightarrow> Label \<Rightarrow> item list" where
  "port_v6_code port direction n T F =
     carries_code 20 n (n + 2) F @ LabelItem (n + 2) #
     endpoint_code LDH_ABS 54 56 direction port (n + 2) T F"

definition fragment_code :: "Label \<Rightarrow> Label \<Rightarrow> item list" where
  "fragment_code T F =
     [InsnItem (plain_insn LDH_ABS 20), InsnItem (jump_insn JSET_K IPV4_FRAG_MASK F T)]"

definition header_code :: "nat \<Rightarrow> direction option \<Rightarrow> nat \<Rightarrow> Label \<Rightarrow> Label \<Rightarrow> item list" where
  "header_code port direction n T F =
     InsnItem (plain_insn LDXB_MSH 14) # endpoint_code LDH_IND 14 16 direction port n T F"

definition port_v4_code :: "nat \<Rightarrow> direction option \<Rightarrow> nat \<Rightarrow> Label \<Rightarrow> Label \<Rightarrow> item list" where
  "port_v4_code port direction n T F =
     carries_code 23 n (n + 2) F @ LabelItem (n + 2) #
     (fragment_code (n + 3) F @ LabelItem (n + 3) # header_code port direction (n + 3) T F)"

definition port_code :: "nat \<Rightarrow> direction option \<Rightarrow> nat \<Rightarrow> Label \<Rightarrow> Label \<Rightarrow> item list" where
  "port_code port direction n T F =
     test_code LDH_ABS 12 ETHERTYPE_IPV6 (n + 1) (n + 2) @ LabelItem (n + 1) #
     port_v6_code port direction (n + 2) T F @ LabelItem (n + 2) #
     port_v4_code port direction (n + 4 + endpoint_labels direction) T F"

lemmas piece_defs =
  transport_code_def icmp_code_def host_code_def carries_code_def port_v6_code_def
  fragment_code_def header_code_def port_v4_code_def port_code_def

subsection \<open>The emitter appends these pieces\<close>

lemma new_label_pair: "new_label e = (counter e + 1, e\<lparr>counter := counter e + 1\<rparr>)"
  by (simp add: new_label_def)

lemma suc_numerals:
  "n + 3 = Suc (Suc (Suc n))" "n + 4 = Suc (Suc (Suc (Suc n)))"
  "n + 5 = Suc (Suc (Suc (Suc (Suc n))))"
  "n + 7 = Suc (Suc (Suc (Suc (Suc (Suc (Suc n))))))" for n :: nat
  by simp_all

lemma items_transport:
  "items (compile_tcp_or_udp proto T F e) = items e @ transport_code proto (counter e) T F \<and>
   counter (compile_tcp_or_udp proto T F e) = counter e + 5"
  by (simp add: compile_tcp_or_udp_def new_label_pair transport_code_def field_defs suc_numerals)

lemma compile_host_endpoint:
  "compile_host addr dir T F e =
     (let (v4, e) = new_label e;
          e = place v4 (test_at LDH_ABS 12 ETHERTYPE_IPV4 v4 F e)
      in compile_port_value LDW_ABS IPV4_SRC_OFFSET IPV4_DST_OFFSET dir addr T F e)"
  by (simp add: compile_host_def compile_port_value_def new_label_pair)

lemma items_port_value:
  "items (compile_port_value code src dst dir port T F e) =
     items e @ endpoint_code code src dst dir port (counter e) T F \<and>
   counter (compile_port_value code src dst dir port T F e) = counter e + endpoint_labels dir"
  by (cases dir) (auto simp: compile_port_value_def new_label_pair split: direction.split)

lemma items_host:
  "items (compile_host addr dir T F e) = items e @ host_code addr dir (counter e) T F \<and>
   counter (compile_host addr dir T F e) = counter e + 1 + endpoint_labels dir"
  by (simp add: compile_host_endpoint new_label_pair items_port_value host_code_def field_defs)

lemma items_port:
  "items (compile_port port dir T F e) = items e @ port_code port dir (counter e) T F \<and>
   counter (compile_port port dir T F e) = counter e + 7 + 2 * endpoint_labels dir"
  by (simp add: compile_port_def compile_port_v6_def compile_port_v4_def new_label_pair
      items_port_value piece_defs field_defs suc_numerals)

subsection \<open>The meaning of the pieces\<close>

lemma block_cong: "block c T F m \<Longrightarrow> (\<And>packet. m packet = m' packet) \<Longrightarrow> block c T F m'"
  by (simp add: block_def)

lemma endpoint_code_facts [simp]:
  "set (placed (endpoint_code code src dst dir v n T F)) = {n<..n + endpoint_labels dir}"
  "distinct (placed (endpoint_code code src dst dir v n T F))"
  "length (instructions (endpoint_code code src dst dir v n T F)) = endpoint_length dir"
  by (cases "(code, src, dst, dir, v, n, T, F)" rule: endpoint_code.cases; auto)+

lemma block_endpoint:
  assumes "\<And>k T F. block (test_code code k v T F) T F (\<lambda>packet. field_is packet k w v)"
    and "T \<le> n" "F \<le> n"
  shows "block (endpoint_code code src dst dir v n T F) T F
     (\<lambda>packet. endpoint dir (field_is packet src w v) (field_is packet dst w v))"
proof (cases dir)
  case None
  have "block (test_code code src v T (n + 1) @ LabelItem (n + 1) # test_code code dst v T F) T F
      (\<lambda>packet. or_else (field_is packet src w v) (field_is packet dst w v))"
    by (rule block_or) (use assms in simp_all)
  with None show ?thesis by simp
next
  case (Some d)
  with assms(1) show ?thesis by (cases d) simp_all
qed

lemma block_transport:
  assumes "T \<le> n" "F \<le> n"
  shows "block (transport_code proto n T F) T F (sem_transport proto)"
proof -
  have v6: "block (test_code LDB_ABS 20 proto T (n + 3) @ LabelItem (n + 3) #
      (test_code LDB_ABS 20 IPV6_FRAGMENT_EXT_HEADER (n + 4) F @ LabelItem (n + 4) #
       test_code LDB_ABS 54 proto T F)) T F
     (\<lambda>packet. or_else (field_is packet 20 1 proto)
        (and_then (field_is packet 20 1 IPV6_FRAGMENT_EXT_HEADER) (field_is packet 54 1 proto)))"
    by (intro block_or block_and block_test) (use assms in auto)
  have v4: "block (test_code LDH_ABS 12 ETHERTYPE_IPV4 (n + 5) F @ LabelItem (n + 5) #
      test_code LDB_ABS 23 proto T F) T F
     (\<lambda>packet. and_then (ethertype_is packet ETHERTYPE_IPV4) (field_is packet 23 1 proto))"
    unfolding ethertype_is_def by (intro block_and block_test) (use assms in auto)
  show ?thesis
    unfolding transport_code_def
    by (rule block_cong [OF block_if [OF block_test(1) v6 v4]])
      (use assms in \<open>auto simp: sem_transport_def ethertype_is_def\<close>)
qed

lemma block_icmp:
  assumes "T \<le> n" "F \<le> n"
  shows "block (icmp_code n T F) T F (sem_proto (ascii ''icmp''))"
  unfolding icmp_code_def
  by (rule block_cong [OF block_and [OF block_test(1) block_test(2)]])
    (use assms in \<open>auto simp: sem_proto_def ethertype_is_def\<close>)

lemma block_host:
  assumes "T \<le> n" "F \<le> n"
  shows "block (host_code addr dir n T F) T F (sem_host addr dir)"
  unfolding host_code_def
  by (rule block_cong [OF block_and [OF block_test(1) block_endpoint [OF block_test(3)]]])
    (use assms in \<open>auto simp: sem_host_def ethertype_is_def\<close>)

lemma block_carries:
  assumes "T \<noteq> n + 1"
  shows "block (carries_code offset n T F) T F (\<lambda>packet. carries_ports packet offset)"
  unfolding carries_code_def carries_ports_def
  by (intro block_or block_test) (use assms in auto)

lemma carries_code_facts [simp]:
  "placed (carries_code offset n T F) = [n + 1]"
  "length (instructions (carries_code offset n T F)) = 4"
  by (simp_all add: carries_code_def)

lemma block_port_v6:
  assumes "T \<le> n" "F \<le> n"
  shows "block (port_v6_code port dir n T F) T F
     (\<lambda>packet. and_then (carries_ports packet 20)
        (endpoint dir (field_is packet 54 2 port) (field_is packet 56 2 port)))"
  unfolding port_v6_code_def
  by (intro block_and block_carries block_endpoint block_test) (use assms in auto)

lemma block_fragment: "block (fragment_code T F) T F unfragmented"
  by (auto simp: block_def decides_def fragment_code_def unfragmented_def sym_load sym_jump
      split: option.split)

text \<open>
  After the load of the IPv4 header length the index register holds it, whatever the
  registers held before: the port tests read at that distance.
\<close>

lemma leaves_field_is:
  "leaves T F (field_is packet k w v)
     (case field packet k w of None \<Rightarrow> Done (Inl VM_Reject) | Some y \<Rightarrow> Goto (if y = v then T else F) y x)"
  by (simp add: field_is_def split: option.split)

lemma endpoint_at_header:
  assumes "T \<le> n" "F \<le> n"
  shows "leaves T F (endpoint dir (field_is packet (x + src) 2 v) (field_is packet (x + dst) 2 v))
     (sexec packet (endpoint_code LDH_IND src dst dir v n T F) a x)"
proof (cases dir)
  case None
  then show ?thesis
    using assms leaves_field_is [of T F packet "x + dst" 2 v x]
    by (simp add: sexec_append sexec_test field_is_def [of packet "x + src"] split: option.split)
next
  case (Some d)
  then show ?thesis
    by (cases d) (simp_all add: sexec_test leaves_field_is)
qed

lemma block_header:
  assumes "T \<le> n" "F \<le> n"
  shows "block (header_code port dir n T F) T F (ipv4_ports port dir)"
proof -
  have "forward {T, F} (endpoint_code LDH_IND 14 16 dir port n T F)"
    by (cases "(LDH_IND, 14 :: nat, 16 :: nat, dir, port, n, T, F)" rule: endpoint_code.cases)
      (auto simp: forward_append)
  then show ?thesis
    using endpoint_at_header [OF assms]
    by (simp add: block_def decides_def header_code_def sym_ldx ipv4_ports_def Let_def
        split: option.split)
qed

lemma header_code_facts [simp]:
  "placed (header_code port dir n T F) = placed (endpoint_code LDH_IND 14 16 dir port n T F)"
  "length (instructions (header_code port dir n T F)) = 1 + endpoint_length dir"
  by (simp_all add: header_code_def)

lemma fragment_code_facts [simp]:
  "placed (fragment_code T F) = []" "length (instructions (fragment_code T F)) = 2"
  by (simp_all add: fragment_code_def)

lemma block_port_v4:
  assumes "T \<le> n" "F \<le> n"
  shows "block (port_v4_code port dir n T F) T F
     (\<lambda>packet. and_then (carries_ports packet 23)
        (and_then (unfragmented packet) (ipv4_ports port dir packet)))"
  unfolding port_v4_code_def
  by (intro block_and block_carries block_header block_fragment) (use assms in auto)

lemma port_v6_code_facts [simp]:
  "set (placed (port_v6_code port dir n T F)) = {n<..n + 2 + endpoint_labels dir}"
  "distinct (placed (port_v6_code port dir n T F))"
  "length (instructions (port_v6_code port dir n T F)) = 4 + endpoint_length dir"
  by (auto simp: port_v6_code_def)

lemma port_v4_code_facts [simp]:
  "set (placed (port_v4_code port dir n T F)) = {n<..n + 3 + endpoint_labels dir}"
  "distinct (placed (port_v4_code port dir n T F))"
  "length (instructions (port_v4_code port dir n T F)) = 7 + endpoint_length dir"
  by (auto simp: port_v4_code_def)

lemma block_port:
  assumes "T \<le> n" "F \<le> n"
  shows "block (port_code port dir n T F) T F (sem_port port dir)"
  unfolding port_code_def
  by (rule block_cong [OF block_if [OF block_test(1) block_port_v6 block_port_v4]])
    (use assms in \<open>auto simp: sem_port_def ethertype_is_def\<close>)

section \<open>The generators meet their contract\<close>

fun proto_length :: "pystr \<Rightarrow> nat" where
  "proto_length name =
     (if name = ascii ''ip'' \<or> name = ascii ''arp'' \<or> name = ascii ''ip6'' then 2
      else if name = ascii ''icmp'' then 4 else 12)"

definition host_length :: "direction option \<Rightarrow> nat" where
  "host_length dir = 2 + endpoint_length dir"

definition port_length :: "direction option \<Rightarrow> nat" where
  "port_length dir = 13 + 2 * endpoint_length dir"

text \<open>The number of instructions of an expression.\<close>

fun node_length :: "Node \<Rightarrow> nat" where
  "node_length (Proto name) = proto_length name"
| "node_length (Host addr dir) = host_length dir"
| "node_length (Port port dir) = port_length dir"
| "node_length (NotE n) = node_length n"
| "node_length (AndE n m) = node_length n + node_length m"
| "node_length (OrE n m) = node_length n + node_length m"

lemma generator_test:
  "code_generator (test_at LDH_ABS k v) (\<lambda>packet. field_is packet k 2 v) 2"
  by (standard) (use block_test(1) in \<open>auto simp: appends_def\<close>)

lemma generator_transport: "code_generator (compile_tcp_or_udp proto) (sem_transport proto) 12"
proof
  fix T F :: Label and e :: Emitter
  assume le: "T \<le> counter e" "F \<le> counter e"
  have "appends (counter e) 12 (transport_code proto (counter e) T F) e (compile_tcp_or_udp proto T F e)"
    using items_transport [of proto T F e] by (auto simp: appends_def transport_code_def)
  with block_transport [OF le] show "\<exists>c. appends (counter e) 12 c e (compile_tcp_or_udp proto T F e) \<and>
      block c T F (sem_transport proto)" by blast
qed

lemma generator_icmp:
  "code_generator (compile_proto (ascii ''icmp'')) (sem_proto (ascii ''icmp'')) 4"
proof
  fix T F :: Label and e :: Emitter
  assume le: "T \<le> counter e" "F \<le> counter e"
  have "appends (counter e) 4 (icmp_code (counter e) T F) e (compile_proto (ascii ''icmp'') T F e)"
    by (auto simp: appends_def icmp_code_def compile_proto_def new_label_pair field_defs)
  with block_icmp [OF le] show "\<exists>c. appends (counter e) 4 c e (compile_proto (ascii ''icmp'') T F e) \<and>
      block c T F (sem_proto (ascii ''icmp''))" by blast
qed

lemma generator_proto: "code_generator (compile_proto name) (sem_proto name) (proto_length name)"
proof -
  consider "name \<in> {ascii ''ip'', ascii ''arp'', ascii ''ip6''}" | "name = ascii ''icmp''"
    | "name \<notin> {ascii ''ip'', ascii ''arp'', ascii ''ip6'', ascii ''icmp''}" by blast
  then show ?thesis
  proof cases
    case 1
    then show ?thesis
      using generator_test [of 12]
      by (auto simp: compile_proto_def [abs_def] sem_proto_def [abs_def] ethertype_is_def)
  next
    case 2
    with generator_icmp show ?thesis by simp
  next
    case 3
    then show ?thesis
      using generator_transport
      by (simp add: compile_proto_def [abs_def] sem_proto_def [abs_def])
  qed
qed

lemma generator_host: "code_generator (compile_host addr dir) (sem_host addr dir) (host_length dir)"
proof
  fix T F :: Label and e :: Emitter
  assume le: "T \<le> counter e" "F \<le> counter e"
  have "appends (counter e) (host_length dir) (host_code addr dir (counter e) T F) e
      (compile_host addr dir T F e)"
    using items_host [of addr dir T F e]
    by (auto simp: appends_def host_code_def host_length_def)
  with block_host [OF le] show "\<exists>c. appends (counter e) (host_length dir) c e (compile_host addr dir T F e) \<and>
      block c T F (sem_host addr dir)" by blast
qed

lemma generator_port: "code_generator (compile_port port dir) (sem_port port dir) (port_length dir)"
proof
  fix T F :: Label and e :: Emitter
  assume le: "T \<le> counter e" "F \<le> counter e"
  have "appends (counter e) (port_length dir) (port_code port dir (counter e) T F) e
      (compile_port port dir T F e)"
    using items_port [of port dir T F e]
    by (auto simp: appends_def port_code_def port_length_def)
  with block_port [OF le] show "\<exists>c. appends (counter e) (port_length dir) c e (compile_port port dir T F e) \<and>
      block c T F (sem_port port dir)" by blast
qed

text \<open>\<^verbatim>\<open>_compile\<close>, by induction over the expression.\<close>

lemma generator_node: "code_generator (compile_node n) (sem n) (node_length n)"
proof (induction n)
  case (Proto name)
  show ?case using generator_proto [of name] by (simp add: code_generator_def)
next
  case (Host addr dir)
  show ?case using generator_host [of addr dir] by (simp add: code_generator_def)
next
  case (Port port dir)
  show ?case using generator_port [of port dir] by (simp add: code_generator_def)
next
  case (NotE n)
  from code_generator.generator_not [OF this] show ?case by (simp add: code_generator_def)
next
  case (AndE n m)
  from code_pair.generator_and [OF code_pair.intro [OF this]] show ?case
    by (simp add: code_generator_def)
next
  case (OrE n m)
  from code_pair.generator_or [OF code_pair.intro [OF this]] show ?case
    by (simp add: code_generator_def)
qed

interpretation node_code: code_generator "compile_node n" "sem n" "node_length n" for n
  by (rule generator_node)

interpretation node_pair: code_pair "compile_node n" "sem n" "node_length n"
    "compile_node m" "sem m" "node_length m" for n m
  by (rule code_pair.intro [OF generator_node generator_node])

end
