(* ===== verification/Bpf_Unparse.thy ===== *)
theory Bpf_Unparse
  imports Bpf_Parser
begin

text \<open>
  The inverse of the lexer and parser of \<^verbatim>\<open>src/rootwire/bpf_compiler.py\<close>: every
  expression tree has a text that reads back as that tree. The program itself has no
  printer; this one is the specification side of the round trip.
\<close>

definition paren_tokens :: "Token list \<Rightarrow> Token list" where
  "paren_tokens ts =
     \<lparr>token_kind = K_lparen, token_text = [LPAREN]\<rparr> # ts @
       [\<lparr>token_kind = K_rparen, token_text = [RPAREN]\<rparr>]"

fun direction_tokens :: "direction option \<Rightarrow> Token list" where
  "direction_tokens None = []"
| "direction_tokens (Some d) = [word (direction_word d)]"

definition address_text :: "nat \<Rightarrow> pystr" where
  "address_text addr =
     dotted_quad (decimal (addr div 2 ^ 24 mod 256)) (decimal (addr div 2 ^ 16 mod 256))
       (decimal (addr div 2 ^ 8 mod 256)) (decimal (addr mod 256))"

text \<open>How tightly a tree binds, and its tokens with parentheses where the level asks for them.\<close>

fun binds :: "Node \<Rightarrow> nat" where
  "binds (OrE n m) = 0"
| "binds (AndE n m) = 1"
| "binds (NotE n) = 2"
| "binds n = 3"

fun node_tokens :: "nat \<Rightarrow> Node \<Rightarrow> Token list" where
  "node_tokens level n =
     (let ts = (case n of
          Proto name \<Rightarrow> [word name]
        | Host addr dir \<Rightarrow> direction_tokens dir @
            [word (ascii ''host''), \<lparr>token_kind = K_ipv4, token_text = address_text addr\<rparr>]
        | Port port dir \<Rightarrow> direction_tokens dir @
            [word (ascii ''port''), \<lparr>token_kind = K_number, token_text = decimal port\<rparr>]
        | NotE m \<Rightarrow> word (ascii ''not'') # node_tokens 2 m
        | AndE l r \<Rightarrow> node_tokens 1 l @ word (ascii ''and'') # node_tokens 2 r
        | OrE l r \<Rightarrow> node_tokens 0 l @ word (ascii ''or'') # node_tokens 1 r)
      in if binds n < level then paren_tokens ts else ts)"

declare node_tokens.simps [simp del]

lemma node_tokens_level:
  "node_tokens level n =
     (if binds n < level then paren_tokens (node_tokens 0 n) else node_tokens 0 n)"
  by (simp add: node_tokens.simps Let_def)

lemma node_tokens_bare:
  "node_tokens 0 (Proto name) = [word name]"
  "node_tokens 0 (Host addr dir) = direction_tokens dir @
     [word (ascii ''host''), \<lparr>token_kind = K_ipv4, token_text = address_text addr\<rparr>]"
  "node_tokens 0 (Port port dir) = direction_tokens dir @
     [word (ascii ''port''), \<lparr>token_kind = K_number, token_text = decimal port\<rparr>]"
  "node_tokens 0 (NotE n) = word (ascii ''not'') # node_tokens 2 n"
  "node_tokens 0 (AndE n m) = node_tokens 1 n @ word (ascii ''and'') # node_tokens 2 m"
  "node_tokens 0 (OrE n m) = node_tokens 0 n @ word (ascii ''or'') # node_tokens 1 m"
  by (subst node_tokens.simps, simp add: Let_def del: ascii_Cons)+

definition unparse :: "Node \<Rightarrow> pystr" where
  "unparse n = render (node_tokens 0 n)"

section \<open>The tokens derive the tree\<close>

fun derives_at :: "nat \<Rightarrow> Token list \<Rightarrow> Node \<Rightarrow> bool" where
  "derives_at 0 ts n \<longleftrightarrow> derives_or ts n"
| "derives_at (Suc 0) ts n \<longleftrightarrow> derives_and ts n"
| "derives_at (Suc (Suc 0)) ts n \<longleftrightarrow> derives_not ts n"
| "derives_at k ts n \<longleftrightarrow> derives_primary ts n"

lemma derives_at_levels:
  "derives_at 1 ts n \<longleftrightarrow> derives_and ts n"
  "derives_at 2 ts n \<longleftrightarrow> derives_not ts n"
  "derives_at 3 ts n \<longleftrightarrow> derives_primary ts n"
  by (simp_all add: numeral_2_eq_2 numeral_3_eq_3)

lemma derives_at_looser_1: "derives_at (Suc k) ts n \<Longrightarrow> derives_at k ts n"
  by (cases "(k, ts, n)" rule: derives_at.cases)
    (auto intro: or_one and_one not_primary)

lemma derives_at_looser: "derives_at k ts n \<Longrightarrow> j \<le> k \<Longrightarrow> derives_at j ts n"
  by (induction k arbitrary: j) (auto simp: le_Suc_eq dest: derives_at_looser_1)

lemma derives_at_paren: "derives_at j ts n \<Longrightarrow> derives_at 3 (paren_tokens ts) n"
  using derives_at_looser [of j ts n 0]
  by (simp add: numeral_3_eq_3 paren_tokens_def primary_paren)

lemma derives_dir_tokens: "derives_dir (direction_tokens d) d"
  by (cases d rule: direction_tokens.cases; simp)
    (metis derives_dir.simps direction.exhaust direction_word.simps)+

lemma digit_group_decimal: "n < 256 \<Longrightarrow> digit_group (decimal n)"
  using decimal_digits [of n] length_decimal [of n 3]
  by (cases "decimal n") (auto simp: digit_group_def list_all_iff)

lemma octet_decimal: "octet (decimal (n mod 256))"
  by (simp add: octet_def digit_group_decimal digits_value_decimal)

lemma address_value_text:
  assumes "addr < 2 ^ 32"
  shows "address_value (decimal (addr div 2 ^ 24 mod 256)) (decimal (addr div 2 ^ 16 mod 256))
      (decimal (addr div 2 ^ 8 mod 256)) (decimal (addr mod 256)) = addr"
proof -
  have "addr div 2 ^ 24 < 256" using assms by (simp add: less_mult_imp_div_less)
  moreover have "addr div 2 ^ 8 div 2 ^ 8 = addr div 2 ^ 16" "addr div 2 ^ 16 div 2 ^ 8 = addr div 2 ^ 24"
    by (simp_all flip: div_mult2_eq)
  ultimately have "addr div 2 ^ 24 mod 256 * 256 + addr div 2 ^ 16 mod 256 = addr div 2 ^ 16"
    "addr div 2 ^ 16 * 256 + addr div 2 ^ 8 mod 256 = addr div 2 ^ 8"
    "addr div 2 ^ 8 * 256 + addr mod 256 = addr"
    using div_mult_mod_eq [of "addr div 2 ^ 16" 256] div_mult_mod_eq [of "addr div 2 ^ 8" 256]
      div_mult_mod_eq [of addr 256] by simp_all
  then show ?thesis
    by (simp only: address_value.simps digits_value_decimal)
qed

lemma derives_host:
  assumes "addr < 2 ^ 32"
  shows "derives_primitive (direction_tokens dir @
     [word (ascii ''host''), \<lparr>token_kind = K_ipv4, token_text = address_text addr\<rparr>]) (Host addr dir)"
  using prim_host [OF derives_dir_tokens octet_decimal octet_decimal octet_decimal octet_decimal]
    address_value_text [OF assms]
  unfolding address_text_def by metis

lemma derives_port:
  assumes "port < 2 ^ 16"
  shows "derives_primitive (direction_tokens dir @
     [word (ascii ''port''), \<lparr>token_kind = K_number, token_text = decimal port\<rparr>]) (Port port dir)"
proof -
  have "list_all is_digit (decimal port)" using decimal_digits by (auto simp: list_all_iff)
  from prim_port [OF derives_dir_tokens decimal_nonempty this] assms show ?thesis
    by (simp add: digits_value_decimal)
qed

lemma derives_every_level:
  assumes "derives_at (binds n) (node_tokens 0 n) n"
  shows "derives_at (binds n) (node_tokens 0 n) n \<and>
     (\<forall>level \<le> 3. derives_at level (node_tokens level n) n)"
proof (intro conjI allI impI assms)
  fix level :: nat
  assume "level \<le> 3"
  then show "derives_at level (node_tokens level n) n"
    using derives_at_looser [OF derives_at_paren [OF assms]] derives_at_looser [OF assms]
    by (subst node_tokens_level) simp
qed

lemma node_tokens_derive:
  "wf_node n \<Longrightarrow> derives_at (binds n) (node_tokens 0 n) n \<and>
     (\<forall>level \<le> 3. derives_at level (node_tokens level n) n)"
proof (induction n)
  case (NotE n)
  then have "derives_at 2 (node_tokens 2 n) n" by simp
  then have "derives_at (binds (NotE n)) (node_tokens 0 (NotE n)) (NotE n)"
    unfolding node_tokens_bare binds.simps derives_at_levels by (rule not_not)
  then show ?case by (rule derives_every_level)
next
  case (AndE n m)
  then have "derives_at 1 (node_tokens 1 n) n" "derives_at 2 (node_tokens 2 m) m"
    by (simp_all del: One_nat_def derives_at.simps)
  then have "derives_at (binds (AndE n m)) (node_tokens 0 (AndE n m)) (AndE n m)"
    unfolding node_tokens_bare binds.simps derives_at_levels by (rule and_more)
  then show ?case by (rule derives_every_level)
next
  case (OrE n m)
  then have "derives_at 0 (node_tokens 0 n) n" "derives_at 1 (node_tokens 1 m) m"
    by (simp_all del: One_nat_def derives_at.simps)
  then have "derives_at (binds (OrE n m)) (node_tokens 0 (OrE n m)) (OrE n m)"
    unfolding node_tokens_bare binds.simps derives_at_levels derives_at.simps by (rule or_more)
  then show ?case by (rule derives_every_level)
qed (rule derives_every_level; unfold node_tokens_bare binds.simps derives_at_levels wf_node.simps;
  intro primary_primitive prim_proto derives_host derives_port; assumption)+

section \<open>The tokens are well-formed\<close>

lemma wf_word: "w \<in> set KEYWORDS \<Longrightarrow> wf_token (word w)"
  by (auto simp: KEYWORDS_def PROTOCOLS_def wf_token_def is_alpha_def is_alnum_def)

lemma wf_fixed_words [simp]:
  "wf_token (word (ascii ''host''))" "wf_token (word (ascii ''port''))"
  "wf_token (word (ascii ''not''))" "wf_token (word (ascii ''and''))"
  "wf_token (word (ascii ''or''))" "wf_token (word (direction_word d))"
  by (rule wf_word; cases d; simp add: KEYWORDS_def)+

lemma wf_address: "wf_token \<lparr>token_kind = K_ipv4, token_text = address_text addr\<rparr>"
  unfolding wf_token_def address_text_def
  using octet_decimal [unfolded octet_def] by simp blast

lemma wf_number: "wf_token \<lparr>token_kind = K_number, token_text = decimal n\<rparr>"
  using decimal_digits by (auto simp: wf_token_def list_all_iff)

lemma wf_paren_tokens [simp]: "list_all wf_token (paren_tokens ts) \<longleftrightarrow> list_all wf_token ts"
  by (auto simp: paren_tokens_def wf_token_def)

lemma wf_direction_tokens [simp]: "list_all wf_token (direction_tokens d)"
  by (cases d) simp_all

lemma node_tokens_wf: "wf_node n \<Longrightarrow> list_all wf_token (node_tokens level n)"
proof (induction n arbitrary: level)
  case (Proto name)
  then have "wf_token (word name)" by (intro wf_word) (simp add: KEYWORDS_def)
  then show ?case by (subst node_tokens_level) (simp add: node_tokens_bare)
qed (subst node_tokens_level; simp add: node_tokens_bare wf_address wf_number del: ascii_Cons)+

lemma short_paren_tokens [simp]: "short_numbers (paren_tokens ts) \<longleftrightarrow> short_numbers ts"
  by (simp add: paren_tokens_def) (simp add: short_numbers_def)

lemma short_Nil [simp]: "short_numbers []"
  by (simp add: short_numbers_def)

lemma short_direction_tokens [simp]: "short_numbers (direction_tokens d)"
  by (cases d) simp_all

lemma node_tokens_short: "wf_node n \<Longrightarrow> short_numbers (node_tokens level n)"
proof (induction n arbitrary: level)
  case (Port port dir)
  then have "length (decimal port) \<le> 5" by (intro length_decimal) simp_all
  then show ?case by (subst node_tokens_level) (simp add: node_tokens_bare max_str_digits_def)
qed (subst node_tokens_level; simp add: node_tokens_bare)+

section \<open>The round trip\<close>

lemma parse_node_tokens: "wf_node n \<Longrightarrow> parse (node_tokens 0 n) = Inr n"
  using parse_complete node_tokens_derive [of n] node_tokens_short
  by (metis derives_at.simps(1) zero_le)

lemma read_unparse: "wf_node n \<Longrightarrow> then_do (tokenize (unparse n)) parse = Inr n"
  by (simp add: unparse_def tokenize_render node_tokens_wf parse_node_tokens)

end
