(* ===== verification/Bpf_Correct.thy ===== *)
theory Bpf_Correct
  imports Bpf_Blocks Bpf_Unparse
begin

unbundle bit_operations_syntax

text \<open>
  The compiler of \<^verbatim>\<open>src/rootwire/bpf_compiler.py\<close> end to end: what a compiled program
  accepts is what the expression means (\<open>sem\<close>), which errors the compiler can raise, and
  that its programs fit the kernel's instruction format.
\<close>

section \<open>The whole instruction stream\<close>

definition finish :: "item list \<Rightarrow> item list" where
  "finish c = c @
     [LabelItem 1, InsnItem (plain_insn RET_K ACCEPT_LENGTH),
      LabelItem 2, InsnItem (plain_insn RET_K 0)]"

lemma program_items:
  obtains c where "items (compile_program n) = finish c" "block c 1 2 (sem n)"
    "set (placed c) \<subseteq> {2<..}" "length (instructions c) = node_length n"
proof -
  let ?e = "\<lparr>items = [], counter = 2\<rparr>"
  have "1 \<le> counter ?e" "2 \<le> counter ?e" by simp_all
  then obtain c where c: "items (compile_node n 1 2 ?e) = items ?e @ c"
    "set (placed c) \<subseteq> {counter ?e<..counter (compile_node n 1 2 ?e)}"
    "length (instructions c) = node_length n" "block c 1 2 (sem n)"
    by (rule node_code.emitsE)
  have "items (compile_program n) = finish c"
    using c(1) by (simp add: compile_program_def new_Emitter_def new_label_pair finish_def numeral_2_eq_2)
  moreover have "set (placed c) \<subseteq> {2<..}" using c(2) by auto
  ultimately show thesis using that c(3,4) by blast
qed

lemma finish_facts:
  assumes "block c 1 2 m" and "set (placed c) \<subseteq> {2<..}"
  shows "distinct (placed (finish c))" "forward {} (finish c)"
    "length (instructions (finish c)) = length (instructions c) + 2"
proof -
  have c: "distinct (placed c)" "forward {1, 2} c" using assms(1) by (auto simp: block_def)
  show "distinct (placed (finish c))" using c assms(2) by (auto simp: finish_def)
  show "forward {} (finish c)" using c by (auto simp: finish_def forward_append elim: forward_mono)
  show "length (instructions (finish c)) = length (instructions c) + 2" by (simp add: finish_def)
qed

lemma finish_runs:
  assumes "block c 1 2 m"
  shows "sexec packet (finish c) a x =
    (case m packet of
       None \<Rightarrow> Done (Inl VM_Reject)
     | Some b \<Rightarrow> Done (Inr (if b then ACCEPT_LENGTH else 0)))"
  using block_leaves [OF assms, of packet a x]
  by (cases rule: leaves_cases) (simp_all add: finish_def sexec_append sym_ret)

lemma program_distinct: "distinct (placed (items (compile_program n)))"
  by (rule program_items [of n]) (metis finish_facts(1))

lemma program_forward: "forward {} (items (compile_program n))"
  by (rule program_items [of n]) (metis finish_facts(2))

lemma program_length: "length (instructions (items (compile_program n))) = node_length n + 2"
  by (rule program_items [of n]) (metis finish_facts(3))

lemma program_runs:
  "sexec packet (items (compile_program n)) a x =
    (case sem n packet of
       None \<Rightarrow> Done (Inl VM_Reject)
     | Some b \<Rightarrow> Done (Inr (if b then ACCEPT_LENGTH else 0)))"
  by (rule program_items [of n]) (simp add: finish_runs)

section \<open>A compiled program computes the meaning\<close>

lemma resolved_length:
  "resolve (items (compile_program n)) = Inr prog \<Longrightarrow> length prog = node_length n + 2"
  using resolve_length program_length by simp

lemma compiled_runs:
  assumes "resolve (items (compile_program n)) = Inr prog" and "length prog \<le> 10000"
  shows "vm_run prog packet = Inr (if sem n packet = Some True then ACCEPT_LENGTH else 0)"
proof -
  have "outcome_of (sexec packet (items (compile_program n)) 0 0) = Some (vm_loop prog packet vm_start)"
    using resolved_runs [of "[]" "items (compile_program n)" prog vm_start packet]
      assms program_distinct resolve_length [OF assms(1)]
    by (simp add: vm_start_def)
  then have "vm_loop prog packet vm_start =
      (case sem n packet of None \<Rightarrow> Inl VM_Reject | Some b \<Rightarrow> Inr (if b then ACCEPT_LENGTH else 0))"
    by (cases "sem n packet") (simp_all add: program_runs)
  then show ?thesis
    by (cases "sem n packet") (simp_all add: vm_run_def)
qed

lemma compiled_accepts:
  "resolve (items (compile_program n)) = Inr prog \<Longrightarrow> length prog \<le> 10000 \<Longrightarrow>
     vm_accepts prog packet \<longleftrightarrow> sem n packet = Some True"
  by (simp add: vm_accepts_def compiled_runs ACCEPT_LENGTH_def)

section \<open>The errors of the compiler\<close>

lemma program_resolves:
  "(\<exists>prog. resolve (items (compile_program n)) = Inr prog) \<or>
   (\<exists>d. 255 < d \<and> d < node_length n + 2 \<and>
      resolve (items (compile_program n)) = Inl (BPFCompileError (JumpTooFar (int d))))"
  using resolve_forward [OF program_distinct program_forward, of n]
  unfolding program_length .

lemma short_program_resolves:
  "node_length n \<le> 254 \<Longrightarrow> \<exists>prog. resolve (items (compile_program n)) = Inr prog"
  using program_resolves [of n] by auto

text \<open>\<^verbatim>\<open>compile_expression\<close> in its stages.\<close>

lemma parse_Nil: "parse [] \<noteq> Inr n"
  using parse_sound [of "[]" n] derives_nonempty by fastforce

lemma compile_expression_Inr:
  "compile_expression expr = Inr prog \<longleftrightarrow>
     (\<exists>ts n. tokenize expr = Inr ts \<and> parse ts = Inr n \<and> resolve (items (compile_program n)) = Inr prog)"
proof (cases "tokenize expr")
  case (Inr ts)
  with parse_Nil show ?thesis by (cases "ts = []") (auto simp: compile_expression_def then_do_Inr_iff)
qed (simp add: compile_expression_def)

text \<open>Which stage a failure comes from.\<close>

lemma compile_failure_stages:
  assumes "compile_expression expr = Inl err"
  obtains (lexing) "tokenize expr = Inl err"
  | (nothing) "tokenize expr = Inr []" "err = BPFCompileError EmptyExpression"
  | (parsing) ts where "tokenize expr = Inr ts" "parse ts = Inl err"
  | (jumping) d where "255 < d" "err = BPFCompileError (JumpTooFar (int d))"
proof -
  have "\<exists>d. 255 < d \<and> err = BPFCompileError (JumpTooFar (int d))"
    if "resolve (items (compile_program n)) = Inl err" for n
    using program_resolves [of n] that by auto
  with assms that show thesis
    by (fastforce simp: compile_expression_def then_do_Inl_iff split: if_splits)
qed

lemma compile_expression_Inl:
  assumes "compile_expression expr = Inl err"
  shows "(\<exists>r. err = BPFCompileError r \<and> (\<forall>d. r = JumpTooFar d \<longrightarrow> 255 < d)) \<or>
     (err = IntDigitsError \<and> (\<exists>ts. tokenize expr = Inr ts \<and> \<not> short_numbers ts))"
  using assms
proof (cases rule: compile_failure_stages)
  case lexing
  with tokenize_error [OF lexing [unfolded tokenize_def]] show ?thesis by auto
next
  case (parsing ts)
  have "parser_error err \<Longrightarrow> \<exists>r. err = BPFCompileError r \<and> (\<forall>d. r \<noteq> JumpTooFar d)"
    by (cases err rule: parser_error.cases) auto
  with parse_fails [OF parsing(2)] tokenize_wf [OF parsing(1)] parsing(1) show ?thesis by auto
qed auto

section \<open>Instructions fit the kernel's format\<close>

text \<open>The opcodes the compiler uses: those named by the constants of the source.\<close>

definition OPCODES :: "nat list" where
  "OPCODES = [LDH_ABS, LDB_ABS, LDW_ABS, LDH_IND, LDXB_MSH, JEQ_K, JSET_K, RET_K]"

lemma OPCODES_simps [simp]:
  "LDH_ABS \<in> set OPCODES" "LDB_ABS \<in> set OPCODES" "LDW_ABS \<in> set OPCODES"
  "LDH_IND \<in> set OPCODES" "LDXB_MSH \<in> set OPCODES" "JEQ_K \<in> set OPCODES"
  "JSET_K \<in> set OPCODES" "RET_K \<in> set OPCODES"
  by (simp_all add: OPCODES_def)

lemma opcode_fits: "code \<in> set OPCODES \<Longrightarrow> code < 65536"
  by (auto simp: OPCODES_def opcode_defs)

definition insn_ok :: "PInsn \<Rightarrow> bool" where
  "insn_ok i \<longleftrightarrow> insn_code i \<in> set OPCODES \<and> insn_k i < 4294967296"

lemma insn_ok_simps [simp]:
  "insn_ok (plain_insn code k) \<longleftrightarrow> code \<in> set OPCODES \<and> k < 4294967296"
  "insn_ok (jump_insn code k T F) \<longleftrightarrow> code \<in> set OPCODES \<and> k < 4294967296"
  by (simp_all add: insn_ok_def plain_insn_def jump_insn_def)

definition emits_ok :: "Emitter \<Rightarrow> bool" where
  "emits_ok e \<longleftrightarrow> list_all insn_ok (instructions (items e))"

lemma emits_ok_simps [simp]:
  "emits_ok (place l e) \<longleftrightarrow> emits_ok e"
  "emits_ok (emit i e) \<longleftrightarrow> emits_ok e \<and> insn_ok i"
  "emits_ok (test_at code k v T F e) \<longleftrightarrow>
     emits_ok e \<and> code \<in> set OPCODES \<and> k < 4294967296 \<and> v < 4294967296"
  "emits_ok (e\<lparr>counter := c\<rparr>) \<longleftrightarrow> emits_ok e"
  by (auto simp: emits_ok_def test_code_def)

lemma node_emits_ok:
  "wf_node n \<Longrightarrow> emits_ok e \<Longrightarrow> emits_ok (compile_node n T F e)"
proof (induction n arbitrary: T F e)
  case (Proto name)
  then show ?case
    by (simp add: compile_proto_def compile_tcp_or_udp_def new_label_pair field_defs
        Let_def del: ascii_Cons)
next
  case (Host addr dir)
  then show ?case
    by (auto simp: compile_host_def new_label_pair field_defs Let_def
        split: option.split direction.split)
next
  case (Port port dir)
  then show ?case
    by (auto simp: compile_port_def compile_port_v6_def compile_port_v4_def compile_port_value_def
        new_label_pair field_defs Let_def split: option.split direction.split)
qed (simp_all add: new_label_pair Let_def)

lemma resolved_fits:
  assumes "resolve its = Inr prog" and "list_all insn_ok (instructions its)"
  shows "\<forall>i \<in> set prog. insn_fits i"
proof
  fix i
  assume "i \<in> set prog"
  note r = resolve_from_nth [OF assms(1) [unfolded resolve_def]]
  from \<open>i \<in> set prog\<close> r obtain j where j: "j < length (instructions its)" "i = prog ! j"
    by (metis in_set_conv_nth)
  have off: "jump_offset m t k = Inr d \<Longrightarrow> d < 256" for m t k d
    by (cases t) (auto simp: offset_to_Inr)
  from j assms(2) have "insn_ok (instructions its ! j)" by (simp add: list_all_length)
  with r j show "insn_fits i" using off by (fastforce simp: insn_ok_def dest: opcode_fits)
qed

lemma compiled_ok:
  assumes "wf_node n"
  shows "list_all insn_ok (instructions (items (compile_program n)))"
proof -
  have "emits_ok \<lparr>items = [], counter = 2\<rparr>" by (simp add: emits_ok_def)
  from node_emits_ok [OF assms this, of 1 2]
  have "emits_ok (compile_program n)"
    by (simp add: compile_program_def new_Emitter_def new_label_pair ACCEPT_LENGTH_def
        numeral_2_eq_2)
  then show ?thesis by (simp add: emits_ok_def)
qed

lemma compiled_fits:
  assumes "resolve (items (compile_program n)) = Inr prog" and "wf_node n"
  shows "\<forall>i \<in> set prog. insn_fits i"
  using resolved_fits [OF assms(1) compiled_ok [OF assms(2)]] .

end
