(* ===== verification/Bpf_Checker.thy ===== *)
theory Bpf_Checker
  imports Bpf_Correct
begin

unbundle bit_operations_syntax

text \<open>
  The check the kernel makes before it attaches a classic BPF program
  (\<^verbatim>\<open>bpf_check_classic\<close>: a known opcode, conditional jumps inside the program, a return at
  its end, at most \<^verbatim>\<open>BPF_MAXINSNS\<close> = 4096 instructions), as a type system for filter
  programs: a checked program returns a verdict on every packet, and what
  \<^verbatim>\<open>compile_expression\<close> produces is checked, but for its length.
\<close>

section \<open>The check\<close>

definition BPF_MAXINSNS :: nat where
  "BPF_MAXINSNS = 4096"

definition is_jump :: "nat \<Rightarrow> bool" where
  "is_jump code \<longleftrightarrow> code = JEQ_K \<or> code = JSET_K"

text \<open>\<open>insn_checks n i insn\<close>: instruction \<open>i\<close> of a program of \<open>n\<close> instructions.\<close>

fun insn_checks :: "nat \<Rightarrow> nat \<Rightarrow> SockFilter \<Rightarrow> bool" where
  "insn_checks n i (code, jt, jf, k) \<longleftrightarrow>
     code \<in> set OPCODES \<and> insn_fits (code, jt, jf, k) \<and>
     (is_jump code \<longrightarrow> i + jt + 1 < n \<and> i + jf + 1 < n)"

definition code_checks :: "SockFilter list \<Rightarrow> bool" where
  "code_checks prog \<longleftrightarrow>
     prog \<noteq> [] \<and> (\<forall>i < length prog. insn_checks (length prog) i (prog ! i)) \<and>
     fst (last prog) = RET_K"

definition bpf_check :: "SockFilter list \<Rightarrow> bool" where
  "bpf_check prog \<longleftrightarrow> code_checks prog \<and> length prog \<le> BPF_MAXINSNS"

text \<open>The check as a computation.\<close>

fun checks_from :: "nat \<Rightarrow> nat \<Rightarrow> SockFilter list \<Rightarrow> bool" where
  "checks_from n i [] \<longleftrightarrow> True"
| "checks_from n i (insn # insns) \<longleftrightarrow> insn_checks n i insn \<and> checks_from n (Suc i) insns"

lemma checks_from_iff:
  "checks_from n i insns \<longleftrightarrow> (\<forall>j < length insns. insn_checks n (i + j) (insns ! j))"
  by (induction n i insns rule: checks_from.induct) (auto simp: nth_Cons less_Suc_eq_0_disj)

lemma code_checks_code [code]:
  "code_checks prog \<longleftrightarrow>
     prog \<noteq> [] \<and> checks_from (length prog) 0 prog \<and> fst (last prog) = RET_K"
  by (simp add: code_checks_def checks_from_iff)

section \<open>A checked program always returns\<close>

text \<open>One turn of the interpreter stays inside a checked program.\<close>

lemma is_jump_class: "is_jump code \<Longrightarrow> code AND 7 = 5"
  by (auto simp: is_jump_def opcode_defs)

lemma checked_step:
  assumes "code_checks prog" "pc s < length prog" "steps s < 10000"
  shows "vm_step prog packet s = Inl VM_Reject \<or> (\<exists>n. vm_step prog packet s = Inr (Inr n)) \<or>
     (\<exists>t. vm_step prog packet s = Inr (Inl t) \<and> pc t < length prog \<and> steps t = steps s + 1 \<and>
        pc s < pc t)"
proof -
  obtain code jt jf k where at: "prog ! pc s = (code, jt, jf, k)" by (cases "prog ! pc s") auto
  have ok: "insn_checks (length prog) (pc s) (code, jt, jf, k)"
    using assms(1,2) at by (auto simp: code_checks_def)
  have inner: "pc s + 1 < length prog" if "code \<noteq> RET_K"
  proof (rule ccontr)
    assume "\<not> pc s + 1 < length prog"
    with assms(2) have "pc s = length prog - 1" by simp
    with assms at that show False by (auto simp: code_checks_def last_conv_nth)
  qed
  from ok have "code \<in> {LDH_ABS, LDB_ABS, LDW_ABS, LDH_IND, LDXB_MSH} \<or> is_jump code \<or> code = RET_K"
    by (auto simp: OPCODES_def is_jump_def)
  then consider (load) "code \<in> {LDH_ABS, LDB_ABS, LDW_ABS, LDH_IND, LDXB_MSH}"
    | (jump) "is_jump code" | (ret) "code = RET_K" by blast
  then show ?thesis
  proof cases
    case load
    with inner have "pc s + 1 < length prog" by (auto simp: opcode_defs)
    with load at assms(3) show ?thesis
      by (auto simp: vm_step_def step_ld_def step_ldx_def SIZE_BYTES_def vm_load_def opcode_defs
          Let_def)
  next
    case jump
    with ok at assms(3) show ?thesis
      by (auto simp: vm_step_def step_jmp_def jmp_taken_def is_jump_def opcode_defs)
  next
    case ret
    with at assms(3) show ?thesis by (auto simp: vm_step_def step_ret_def opcode_defs)
  qed
qed

lemma checked_loop:
  "code_checks prog \<Longrightarrow> length prog \<le> 10000 \<Longrightarrow> pc s < length prog \<Longrightarrow> steps s \<le> pc s \<Longrightarrow>
     vm_loop prog packet s = Inl VM_Reject \<or> (\<exists>n. vm_loop prog packet s = Inr n)"
proof (induction prog packet s rule: vm_loop.induct)
  case (1 prog packet s)
  then have "steps s < 10000" by simp
  from checked_step [OF "1.prems"(1,3) this, of packet] show ?case
  proof (elim disjE exE conjE)
    fix t
    assume t: "vm_step prog packet s = Inr (Inl t)" "pc t < length prog" "steps t = steps s + 1"
      "pc s < pc t"
    have "vm_loop prog packet t = Inl VM_Reject \<or> (\<exists>n. vm_loop prog packet t = Inr n)"
      by (rule "1.IH" [OF "1.prems"(3) t(1) refl "1.prems"(1,2) t(2)]) (use "1.prems"(4) t in simp)
    then show ?thesis by (simp add: vm_loop_turn [OF "1.prems"(3)] t(1))
  qed (simp_all add: vm_loop_turn [OF "1.prems"(3)])
qed

theorem checked_returns:
  assumes "code_checks prog" "length prog \<le> 10000"
  shows "\<exists>n. vm_run prog packet = Inr n"
  using checked_loop [OF assms, of vm_start packet] assms(1)
  by (auto simp: vm_run_def vm_start_def code_checks_def)

section \<open>Compiled programs are checked\<close>

lemma finish_target:
  assumes "label_positions (finish c) 0 Map.empty l = Some p"
  shows "p < length (instructions (finish c))"
proof -
  let ?d = "c @ [LabelItem 1, InsnItem (plain_insn RET_K ACCEPT_LENGTH), LabelItem 2]"
  have split: "finish c = ?d @ [InsnItem (plain_insn RET_K 0)]" by (simp add: finish_def)
  have "label_positions ?d 0 Map.empty l = Some p"
    using assms unfolding split label_positions_append by simp
  from label_positions_before [OF this] show ?thesis unfolding split by simp
qed

lemma finish_instructions:
  "instructions (finish c) =
     instructions c @ [plain_insn RET_K ACCEPT_LENGTH, plain_insn RET_K 0]"
  by (simp add: finish_def)

text \<open>A resolved jump leads into the program.\<close>

lemma jump_offset_inside:
  assumes "jump_offset (label_positions (finish c) 0 Map.empty) t i = Inr d"
    and "i + 1 < length (instructions (finish c))"
  shows "i + d + 1 < length (instructions (finish c))"
  using assms finish_target by (cases t) (auto simp: offset_to_Inr add.commute)

lemma resolved_checks:
  assumes res: "resolve (finish c) = Inr prog" and ok: "list_all insn_ok (instructions (finish c))"
  shows "code_checks prog"
proof -
  let ?is = "instructions (finish c)"
  note at = resolve_from_nth [OF res [unfolded resolve_def], simplified]
  have len: "length prog = length ?is" using at by simp
  have fits: "\<forall>i \<in> set prog. insn_fits i" by (rule resolved_fits [OF res ok])
  have "?is ! (length ?is - 1) = plain_insn RET_K 0" by (simp add: finish_instructions nth_append)
  moreover have "length ?is - 1 < length ?is" "prog \<noteq> []" using len by (auto simp: finish_instructions)
  ultimately have last_ret: "fst (last prog) = RET_K"
    using at len by (auto simp: last_conv_nth plain_insn_def dest!: spec [of _ "length ?is - 1"])
  have "insn_checks (length prog) i (prog ! i)" if i: "i < length prog" for i
  proof -
    from at i len obtain jt jf where p: "prog ! i = (insn_code (?is ! i), jt, jf, insn_k (?is ! i))"
      "jump_offset (label_positions (finish c) 0 Map.empty) (insn_jt (?is ! i)) i = Inr jt"
      "jump_offset (label_positions (finish c) 0 Map.empty) (insn_jf (?is ! i)) i = Inr jf" by auto
    from ok i len have "insn_ok (?is ! i)" by (simp add: list_all_length)
    moreover have "insn_fits (prog ! i)" using fits i by simp
    moreover have "i + 1 < length ?is" if "is_jump (insn_code (?is ! i))"
    proof (rule ccontr)
      assume "\<not> i + 1 < length ?is"
      with i len last_ret p have "insn_code (?is ! i) = RET_K"
        by (metis Suc_eq_plus1 Suc_lessI diff_Suc_1 fst_conv last_conv_nth list.size(3) not_less_zero)
      with that show False by (auto simp: is_jump_def opcode_defs)
    qed
    ultimately show ?thesis
      using jump_offset_inside p len by (auto simp: insn_ok_def)
  qed
  moreover have "prog \<noteq> []" using len by (auto simp: finish_instructions)
  ultimately show ?thesis using last_ret by (simp add: code_checks_def)
qed

lemma compiled_checks:
  assumes "resolve (items (compile_program n)) = Inr prog" and "wf_node n"
  shows "code_checks prog"
  using assms compiled_ok [OF assms(2)]
  by (metis program_items resolved_checks)

lemma expression_checks:
  "compile_expression expr = Inr prog \<Longrightarrow> code_checks prog"
  by (metis compile_expression_Inr compiled_checks parse_wf_node tokenize_wf)

section \<open>The canned filters\<close>

lemma canned_checks: "list_all (\<lambda>(name, prog). code_checks prog) CANNED_FILTERS"
  by (simp add: CANNED_FILTERS_def TCP_filter_def UDP_filter_def ARP_filter_def IP6_filter_def
      code_checks_code OPCODES_def is_jump_def opcode_defs)

end
