(* ===== verification/Bpf_Limits.thy ===== *)
theory Bpf_Limits
  imports Bpf_Checker
begin

text \<open>
  The size limit of the compiler of \<^verbatim>\<open>src/rootwire/bpf_compiler.py\<close>: its jumps are relative
  8-bit offsets, so a long chain of operands no longer compiles. Which expressions compile
  is characterised exactly, on the expression itself (\<open>jumps_fit\<close>); the breaking point of
  ORed \<^verbatim>\<open>tcp\<close> primitives, which \<^verbatim>\<open>_resolve\<close> documents, and a program too long for the
  kernel are instances.
\<close>

section \<open>Distances in symbolic code\<close>

text \<open>
  \<open>span D l its\<close>: how many instructions lie between the start of \<open>its\<close> and the label \<open>l\<close>,
  which is placed in \<open>its\<close>, or at distance \<open>D l\<close> behind it.
\<close>

fun span :: "(Label \<Rightarrow> nat) \<Rightarrow> Label \<Rightarrow> item list \<Rightarrow> nat" where
  "span D l [] = D l"
| "span D l (LabelItem m # its) = (if m = l then 0 else span D l its)"
| "span D l (InsnItem i # its) = Suc (span D l its)"

text \<open>Every jump of the code spans at most 255 instructions.\<close>

fun in_reach :: "(Label \<Rightarrow> nat) \<Rightarrow> item list \<Rightarrow> bool" where
  "in_reach D [] \<longleftrightarrow> True"
| "in_reach D (LabelItem l # its) \<longleftrightarrow> in_reach D its"
| "in_reach D (InsnItem i # its) \<longleftrightarrow> (\<forall>l \<in> targets i. span D l its \<le> 255) \<and> in_reach D its"

lemma span_append: "span D l (c @ d) = span (\<lambda>m. span D m d) l c"
  by (induction D l c rule: span.induct) auto

lemma in_reach_append: "in_reach D (c @ d) \<longleftrightarrow> in_reach (\<lambda>m. span D m d) c \<and> in_reach D d"
  by (induction D c rule: in_reach.induct) (auto simp: span_append)

lemma span_outside: "l \<notin> set (placed its) \<Longrightarrow> span D l its = length (instructions its) + D l"
  by (induction D l its rule: span.induct) auto

lemma span_label: "l \<notin> set (placed mid) \<Longrightarrow> span D l (mid @ LabelItem l # post) = length (instructions mid)"
  by (simp add: span_append span_outside)

lemma span_test [simp]: "span D l (test_code code k v T F) = 2 + D l"
  by (simp add: test_code_def)

lemma in_reach_test [simp]:
  "in_reach D (test_code code k v T F) \<longleftrightarrow> D T \<le> 255 \<and> D F \<le> 255"
  by (auto simp: test_code_def)

text \<open>Resolving succeeds exactly on code whose jumps are all in reach.\<close>

lemma offset_span:
  assumes "distinct (placed (pre @ InsnItem i # post))" and "l \<in> set (placed post)"
  shows "(\<exists>d. offset_to (label_positions (pre @ InsnItem i # post) 0 Map.empty) l
      (length (instructions pre)) = Inr d) \<longleftrightarrow> span D l post \<le> 255"
proof -
  from goto_Some_split [OF assms(2)] obtain mid target where
    m: "post = mid @ LabelItem l # target" "l \<notin> set (placed mid)" by blast
  with assms(1) have "l \<notin> set (placed target)" by simp
  from label_positions_at [OF this, of "pre @ InsnItem i # mid"] m
  have "label_positions (pre @ InsnItem i # post) 0 Map.empty l =
      Some (length (instructions pre) + 1 + length (instructions mid))" by simp
  then show ?thesis by (simp add: offset_to_Inr m(1) span_label [OF m(2)])
qed

lemma jump_offset_span:
  assumes "distinct (placed (pre @ InsnItem i # post))" and "set_option t \<subseteq> set (placed post)"
  shows "(\<exists>d. jump_offset (label_positions (pre @ InsnItem i # post) 0 Map.empty) t
      (length (instructions pre)) = Inr d) \<longleftrightarrow> (\<forall>l \<in> set_option t. span D l post \<le> 255)"
  using offset_span [OF assms(1)] assms(2) by (cases t) auto

lemma resolve_from_reach:
  "distinct (placed (pre @ suf)) \<Longrightarrow> forward {} suf \<Longrightarrow>
    (\<exists>prog. resolve_from (label_positions (pre @ suf) 0 Map.empty) (length (instructions pre))
       (instructions suf) = Inr prog) \<longleftrightarrow> in_reach D suf"
proof (induction suf arbitrary: pre)
  case (Cons it post)
  show ?case
  proof (cases it)
    case (LabelItem l)
    with Cons.IH [of "pre @ [it]"] Cons.prems show ?thesis by simp
  next
    case (InsnItem i)
    let ?m = "label_positions (pre @ InsnItem i # post) 0 Map.empty"
    have dist: "distinct (placed (pre @ InsnItem i # post))" using Cons.prems(1) InsnItem by simp
    have sub: "set_option (insn_jt i) \<subseteq> set (placed post)" "set_option (insn_jf i) \<subseteq> set (placed post)"
      using Cons.prems(2) InsnItem by (auto simp: targets_def)
    have "(\<exists>prog. resolve_from ?m (length (instructions pre) + 1) (instructions post) = Inr prog) \<longleftrightarrow>
        in_reach D post"
      using Cons.IH [of "pre @ [it]"] Cons.prems InsnItem by simp
    with jump_offset_span [OF dist sub(1), of D] jump_offset_span [OF dist sub(2), of D]
    show ?thesis by (auto simp: InsnItem then_do_Inr_iff targets_def)
  qed
qed simp

lemma resolve_in_reach:
  assumes "distinct (placed its)" and "forward {} its"
  shows "(\<exists>prog. resolve its = Inr prog) \<longleftrightarrow> in_reach D its"
  using resolve_from_reach [of "[]" its D] assms by (simp add: resolve_def)

section \<open>The criterion on expressions\<close>

text \<open>
  The longest jumps of a primitive to its two exits, counted to the end of its code; the
  jumps inside a primitive are shorter than its at most 21 instructions.
\<close>

fun proto_reach :: "pystr \<Rightarrow> nat \<times> nat" where
  "proto_reach name =
     (if name = ascii ''ip'' \<or> name = ascii ''arp'' \<or> name = ascii ''ip6'' then (0, 0)
      else if name = ascii ''icmp'' then (0, 2) else (8, 6))"

fun host_reach :: "direction option \<Rightarrow> nat \<times> nat" where
  "host_reach (Some d) = (0, 2)"
| "host_reach None = (2, 4)"

fun port_reach :: "direction option \<Rightarrow> nat \<times> nat" where
  "port_reach (Some d) = (9, 11)"
| "port_reach None = (13, 15)"

text \<open>
  \<open>jumps_fit n t f\<close>: the code of \<open>n\<close> resolves when its exits lie \<open>t\<close> and \<open>f\<close> instructions
  behind its end.
\<close>

fun jumps_fit :: "Node \<Rightarrow> nat \<Rightarrow> nat \<Rightarrow> bool" where
  "jumps_fit (Proto name) t f \<longleftrightarrow> fst (proto_reach name) + t \<le> 255 \<and> snd (proto_reach name) + f \<le> 255"
| "jumps_fit (Host addr dir) t f \<longleftrightarrow> fst (host_reach dir) + t \<le> 255 \<and> snd (host_reach dir) + f \<le> 255"
| "jumps_fit (Port port dir) t f \<longleftrightarrow> fst (port_reach dir) + t \<le> 255 \<and> snd (port_reach dir) + f \<le> 255"
| "jumps_fit (NotE n) t f \<longleftrightarrow> jumps_fit n f t"
| "jumps_fit (AndE n m) t f \<longleftrightarrow> jumps_fit n 0 (node_length m + f) \<and> jumps_fit m t f"
| "jumps_fit (OrE n m) t f \<longleftrightarrow> jumps_fit n (node_length m + t) 0 \<and> jumps_fit m t f"

lemma reach_endpoint:
  assumes "T \<le> n" "F \<le> n"
  shows "in_reach D (endpoint_code code src dst dir v n T F) \<longleftrightarrow>
     endpoint_length dir - 2 + D T \<le> 255 \<and> D F \<le> 255"
  using assms
  by (cases "(code, src, dst, dir, v, n, T, F)" rule: endpoint_code.cases)
    (auto simp: in_reach_append)

lemma reach_transport:
  assumes "T \<le> n" "F \<le> n"
  shows "in_reach D (transport_code proto n T F) \<longleftrightarrow> 8 + D T \<le> 255 \<and> 6 + D F \<le> 255"
  using assms by (auto simp: transport_code_def in_reach_append span_append)

lemma reach_icmp:
  assumes "T \<le> n" "F \<le> n"
  shows "in_reach D (icmp_code n T F) \<longleftrightarrow> D T \<le> 255 \<and> 2 + D F \<le> 255"
  using assms by (auto simp: icmp_code_def in_reach_append)

lemma reach_host:
  assumes "T \<le> n" "F \<le> n"
  shows "in_reach D (host_code addr dir n T F) \<longleftrightarrow>
     fst (host_reach dir) + D T \<le> 255 \<and> snd (host_reach dir) + D F \<le> 255"
  using assms
  by (cases dir) (auto simp: host_code_def in_reach_append reach_endpoint span_outside)

lemma reach_port:
  assumes "T \<le> n" "F \<le> n"
  shows "in_reach D (port_code port dir n T F) \<longleftrightarrow>
     fst (port_reach dir) + D T \<le> 255 \<and> snd (port_reach dir) + D F \<le> 255"
  using assms
  by (cases dir)
    (auto simp: port_code_def port_v6_code_def port_v4_code_def carries_code_def fragment_code_def
      header_code_def in_reach_append reach_endpoint span_append span_outside)

lemma reach_proto:
  assumes "T \<le> counter e" "F \<le> counter e"
    and "items (compile_proto name T F e) = items e @ c"
  shows "in_reach D c \<longleftrightarrow> fst (proto_reach name) + D T \<le> 255 \<and> snd (proto_reach name) + D F \<le> 255"
proof -
  consider "name \<in> {ascii ''ip'', ascii ''arp'', ascii ''ip6''}" | "name = ascii ''icmp''"
    | "name \<notin> {ascii ''ip'', ascii ''arp'', ascii ''ip6'', ascii ''icmp''}" by blast
  then show ?thesis
  proof cases
    case 1
    then obtain v where "compile_proto name T F e = test_at LDH_ABS 12 v T F e"
      by (auto simp: compile_proto_def)
    with assms(3) 1 show ?thesis by auto
  next
    case 2
    with assms(3) have "c = icmp_code (counter e) T F"
      by (simp add: compile_proto_def icmp_code_def new_label_pair field_defs)
    with 2 reach_icmp [OF assms(1,2)] show ?thesis by simp
  next
    case 3
    then obtain proto where "c = transport_code proto (counter e) T F"
      using assms(3) items_transport by (auto simp: compile_proto_def)
    with 3 reach_transport [OF assms(1,2)] show ?thesis by auto
  qed
qed

text \<open>The criterion for one expression, wherever its code is emitted.\<close>

definition decided :: "Node \<Rightarrow> bool" where
  "decided n \<longleftrightarrow> (\<forall>T F e c D. T \<le> counter e \<longrightarrow> F \<le> counter e \<longrightarrow>
     items (compile_node n T F e) = items e @ c \<longrightarrow> (in_reach D c \<longleftrightarrow> jumps_fit n (D T) (D F)))"

lemma decidedD:
  "decided n \<Longrightarrow> T \<le> counter e \<Longrightarrow> F \<le> counter e \<Longrightarrow> items (compile_node n T F e) = items e @ c \<Longrightarrow>
     in_reach D c \<longleftrightarrow> jumps_fit n (D T) (D F)"
  by (simp add: decided_def)

text \<open>
  Two operands in a row: the first one's exits are the label \<open>M\<close> between them, or an exit of
  the whole, which lies behind the second operand.
\<close>

lemma decided_pair:
  fixes n m :: Node and e :: Emitter
  assumes ops: "decided n" "decided m" and le: "T \<le> counter e" "F \<le> counter e"
    and M: "M = counter e + 1" "T' \<le> M" "F' \<le> M"
    and emitted: "items (compile_node m T F (place M (compile_node n T' F' (e\<lparr>counter := M\<rparr>)))) = items e @ c"
  shows "in_reach D c \<longleftrightarrow>
     jumps_fit n (if T' = M then 0 else node_length m + D T') (if F' = M then 0 else node_length m + D F') \<and>
     jumps_fit m (D T) (D F)"
proof -
  let ?e = "e\<lparr>counter := M\<rparr>" and ?f = "place M (compile_node n T' F' (e\<lparr>counter := M\<rparr>))"
  have le': "T' \<le> counter ?e" "F' \<le> counter ?e" using M by simp_all
  then obtain a where a: "items (compile_node n T' F' ?e) = items ?e @ a"
      "counter ?e \<le> counter (compile_node n T' F' ?e)"
    by (rule node_code.emitsE)
  then have f: "T \<le> counter ?f" "F \<le> counter ?f" "M \<le> counter ?f" using le M by simp_all
  from f(1,2) obtain b where b: "items (compile_node m T F ?f) = items ?f @ b"
      "set (placed b) \<subseteq> {counter ?f<..counter (compile_node m T F ?f)}"
      "length (instructions b) = node_length m"
    by (rule node_code.emitsE)
  have c: "c = a @ LabelItem M # b" using emitted a(1) b(1) by simp
  have "l \<notin> set (placed b)" if "l \<le> M" for l using b(2) f(3) that by auto
  then have span: "span D l (LabelItem M # b) = (if l = M then 0 else node_length m + D l)" if "l \<le> M" for l
    using b(3) that by (simp add: span_outside)
  show ?thesis
    by (simp add: c in_reach_append decidedD [OF ops(1) le' a(1)] decidedD [OF ops(2) f(1,2) b(1)]
        span [OF M(2), simplified] span [OF M(3), simplified])
qed

lemma decided_node: "decided n"
proof (induction n)
  case (Proto name)
  then show ?case using reach_proto by (simp add: decided_def)
next
  case (Host addr dir)
  then show ?case using items_host reach_host by (auto simp: decided_def)
next
  case (Port port dir)
  then show ?case using items_port reach_port by (auto simp: decided_def)
next
  case (NotE n)
  then show ?case by (simp add: decided_def)
next
  case (AndE n m)
  show ?case
    unfolding decided_def
  proof (intro allI impI)
    fix T F :: Label and e c D
    assume "T \<le> counter e" "F \<le> counter e" "items (compile_node (AndE n m) T F e) = items e @ c"
    then show "in_reach D c \<longleftrightarrow> jumps_fit (AndE n m) (D T) (D F)"
      using decided_pair [OF AndE.IH, of T e F "counter e + 1" "counter e + 1" F c D]
      by (simp add: new_label_pair)
  qed
next
  case (OrE n m)
  show ?case
    unfolding decided_def
  proof (intro allI impI)
    fix T F :: Label and e c D
    assume "T \<le> counter e" "F \<le> counter e" "items (compile_node (OrE n m) T F e) = items e @ c"
    then show "in_reach D c \<longleftrightarrow> jumps_fit (OrE n m) (D T) (D F)"
      using decided_pair [OF OrE.IH, of T e F "counter e + 1" T "counter e + 1" c D]
      by (simp add: new_label_pair)
  qed
qed

text \<open>
  The whole program: \<^verbatim>\<open>ACCEPT\<close> stands right behind the code of the expression, \<^verbatim>\<open>REJECT\<close>
  one instruction later.
\<close>

theorem compiles_iff:
  "(\<exists>prog. resolve (items (compile_program n)) = Inr prog) \<longleftrightarrow> jumps_fit n 0 1"
proof -
  let ?e = "\<lparr>items = [], counter = 2\<rparr>"
  have le: "1 \<le> counter ?e" "2 \<le> counter ?e" by simp_all
  then obtain c where c: "items (compile_node n 1 2 ?e) = items ?e @ c"
    by (rule node_code.emitsE)
  then have p: "items (compile_program n) = finish c"
    by (simp add: compile_program_def new_Emitter_def new_label_pair finish_def numeral_2_eq_2)
  define D where "D l = (if l = 1 then 0 else 1 :: nat)" for l :: Label
  have tail: "span (\<lambda>_. 0) l
      [LabelItem 1, InsnItem (plain_insn RET_K ACCEPT_LENGTH), LabelItem 2, InsnItem (plain_insn RET_K 0)] =
      (if l = 1 then 0 else if l = 2 then 1 else 2)" for l :: Label
    by simp
  have "in_reach (\<lambda>_. 0) (finish c) \<longleftrightarrow> jumps_fit n 0 1"
    unfolding finish_def in_reach_append decidedD [OF decided_node le c] tail by simp
  with resolve_in_reach [OF program_distinct program_forward, of n "\<lambda>_. 0"] p show ?thesis by simp
qed

section \<open>A chain of alternatives\<close>

text \<open>\<open>tcp_chain k\<close> is \<^verbatim>\<open>tcp or tcp or \<dots>\<close> with \<open>k + 1\<close> operands.\<close>

fun tcp_chain :: "nat \<Rightarrow> Node" where
  "tcp_chain 0 = Proto (ascii ''tcp'')"
| "tcp_chain (Suc k) = OrE (tcp_chain k) (Proto (ascii ''tcp''))"

lemma wf_tcp_chain: "wf_node (tcp_chain k)"
  by (induction k) (simp_all add: PROTOCOLS_def)

lemma tcp_chain_length: "node_length (tcp_chain k) = 12 * (k + 1)"
  by (induction k) simp_all

lemma tcp_chain_fit:
  "jumps_fit (tcp_chain k) t f \<longleftrightarrow> 8 + 12 * k + t \<le> 255 \<and> 6 + f \<le> 255"
  by (induction k arbitrary: t f) auto

lemma tcp_chain_resolves:
  "(\<exists>prog. resolve (items (compile_program (tcp_chain k))) = Inr prog) \<longleftrightarrow> k \<le> 20"
  unfolding compiles_iff tcp_chain_fit by auto

section \<open>A program too long for the kernel\<close>

text \<open>
  Nesting conjunctions and disjunctions to the left keeps every jump short, whatever the
  length of the whole: \<open>ladder k\<close> has \<open>240 * k + 120\<close> instructions.
\<close>

fun ladder :: "nat \<Rightarrow> Node" where
  "ladder 0 = tcp_chain 9"
| "ladder (Suc k) = AndE (OrE (ladder k) (tcp_chain 9)) (tcp_chain 9)"

lemma wf_ladder: "wf_node (ladder k)"
  by (induction k) (simp_all add: wf_tcp_chain)

lemma ladder_length: "node_length (ladder k) = 240 * k + 120"
  by (induction k) (simp_all add: tcp_chain_length)

lemma ladder_fits: "t \<le> 120 \<Longrightarrow> f \<le> 120 \<Longrightarrow> jumps_fit (ladder k) t f"
  by (induction k arbitrary: t f) (simp_all add: tcp_chain_fit tcp_chain_length)

lemma compile_unparse:
  assumes "wf_node n"
  shows "compile_expression (unparse n) = resolve (items (compile_program n))"
proof -
  from read_unparse [OF assms] obtain ts where ts: "tokenize (unparse n) = Inr ts" "parse ts = Inr n"
    by (auto simp: then_do_Inr_iff)
  then have "ts \<noteq> []" using parse_sound tokenize_wf derives_nonempty(1) by blast
  with ts show ?thesis by (simp add: compile_expression_def)
qed

lemma ladder_compiles:
  "\<exists>prog. compile_expression (unparse (ladder k)) = Inr prog \<and> length prog = 240 * k + 122"
proof -
  have "jumps_fit (ladder k) 0 1" by (rule ladder_fits) simp_all
  then obtain prog where "resolve (items (compile_program (ladder k))) = Inr prog"
    using compiles_iff by blast
  with resolved_length [OF this] show ?thesis
    by (simp add: compile_unparse [OF wf_ladder] ladder_length)
qed

end
