(* ===== verification/Bpf_Filters.thy ===== *)
theory Bpf_Filters
  imports Bpf_Correct
begin

unbundle bit_operations_syntax

text \<open>
  Filters against the documented meaning of the expressions, in ordinary two-valued logic
  (\<open>holds\<close>), and the canned filters of \<^verbatim>\<open>src/rootwire/bpf.py\<close> against the compiler.
\<close>

section \<open>The documented meaning\<close>

text \<open>\<open>num packet offset n\<close>: the big-endian number in the \<open>n\<close> bytes at the offset.\<close>

definition num :: "bytes \<Rightarrow> nat \<Rightarrow> nat \<Rightarrow> nat" where
  "num packet offset n = from_be (py_slice packet offset (offset + n))"

definition is_ipv4 :: "bytes \<Rightarrow> bool" where
  "is_ipv4 packet \<longleftrightarrow> num packet 12 2 = 0x0800"

definition is_ipv6 :: "bytes \<Rightarrow> bool" where
  "is_ipv6 packet \<longleftrightarrow> num packet 12 2 = 0x86DD"

definition is_arp :: "bytes \<Rightarrow> bool" where
  "is_arp packet \<longleftrightarrow> num packet 12 2 = 0x0806"

text \<open>The transport protocol; for IPv6 also behind one leading fragment header (44).\<close>

definition carries :: "nat \<Rightarrow> bytes \<Rightarrow> bool" where
  "carries proto packet \<longleftrightarrow>
     (is_ipv6 packet \<and>
        (num packet 20 1 = proto \<or> num packet 20 1 = 44 \<and> num packet 54 1 = proto)) \<or>
     (is_ipv4 packet \<and> num packet 23 1 = proto)"

fun side :: "direction option \<Rightarrow> bool \<Rightarrow> bool \<Rightarrow> bool" where
  "side (Some Src) s d = s"
| "side (Some Dst) s d = d"
| "side None s d = (s \<or> d)"

definition ipv4_header_length :: "bytes \<Rightarrow> nat" where
  "ipv4_header_length packet = 4 * (num packet 14 1 mod 16)"

definition has_port :: "nat \<Rightarrow> direction option \<Rightarrow> bytes \<Rightarrow> bool" where
  "has_port port direction packet \<longleftrightarrow>
     (is_ipv6 packet \<and> num packet 20 1 \<in> {6, 17} \<and>
        side direction (num packet 54 2 = port) (num packet 56 2 = port)) \<or>
     (is_ipv4 packet \<and> num packet 23 1 \<in> {6, 17} \<and> num packet 20 2 mod 8192 = 0 \<and>
        (let h = 14 + ipv4_header_length packet
         in side direction (num packet h 2 = port) (num packet (h + 2) 2 = port)))"

fun holds :: "Node \<Rightarrow> bytes \<Rightarrow> bool" where
  "holds (Proto name) packet =
     (if name = ascii ''ip'' then is_ipv4 packet
      else if name = ascii ''arp'' then is_arp packet
      else if name = ascii ''ip6'' then is_ipv6 packet
      else if name = ascii ''icmp'' then is_ipv4 packet \<and> num packet 23 1 = 1
      else if name = ascii ''tcp'' then carries 6 packet
      else carries 17 packet)"
| "holds (Host addr direction) packet =
     (is_ipv4 packet \<and> side direction (num packet 26 4 = addr) (num packet 30 4 = addr))"
| "holds (Port port direction) packet = has_port port direction packet"
| "holds (NotE n) packet = (\<not> holds n packet)"
| "holds (AndE n m) packet = (holds n packet \<and> holds m packet)"
| "holds (OrE n m) packet = (holds n packet \<or> holds m packet)"

fun mentions_port :: "Node \<Rightarrow> bool" where
  "mentions_port (Proto name) = False"
| "mentions_port (Host addr direction) = False"
| "mentions_port (Port port direction) = True"
| "mentions_port (NotE n) = mentions_port n"
| "mentions_port (AndE n m) = (mentions_port n \<or> mentions_port m)"
| "mentions_port (OrE n m) = (mentions_port n \<or> mentions_port m)"

section \<open>Frames long enough for every field\<close>

lemma field_num: "offset + n \<le> length packet \<Longrightarrow> field packet offset n = Some (num packet offset n)"
  by (simp add: field_def num_def)

lemma field_is_num:
  "offset + n \<le> length packet \<Longrightarrow> field_is packet offset n v = Some (num packet offset n = v)"
  by (simp add: field_is_def field_num)

lemma connectives_Some [simp]:
  "and_then (Some a) (Some b) = Some (a \<and> b)"
  "or_else (Some a) (Some b) = Some (a \<or> b)"
  "if_then (Some a) (Some b) (Some c) = Some (if a then b else c)"
  "endpoint dir (Some a) (Some b) = Some (side dir a b)"
  by (cases a; cases "(dir, a, b)" rule: side.cases; simp)+

lemma mask_fragment: "x AND IPV4_FRAG_MASK = x mod 8192" for x :: nat
proof -
  have "x AND (2 ^ 13 - 1) = x mod 2 ^ 13"
    by (metis and_nat_unfold mask_eq_exp_minus_1 take_bit_eq_mask take_bit_eq_mod)
  then show ?thesis by (simp add: IPV4_FRAG_MASK_def)
qed

lemma mask_low: "x AND 15 = x mod 16" for x :: nat
proof -
  have "x AND (2 ^ 4 - 1) = x mod 2 ^ 4"
    by (metis mask_eq_exp_minus_1 take_bit_eq_mask take_bit_eq_mod)
  then show ?thesis by simp
qed

lemma header_length_bound: "ipv4_header_length packet \<le> 60"
  unfolding ipv4_header_length_def using mod_less_divisor [of 16 "num packet 14 1"] by linarith

lemma ipv4_ports_num:
  assumes "78 \<le> length packet"
  shows "ipv4_ports port dir packet =
    (let h = 14 + ipv4_header_length packet
     in Some (side dir (num packet h 2 = port) (num packet (h + 2) 2 = port)))"
  using assms header_length_bound [of packet]
  by (simp add: ipv4_ports_def field_num field_is_num mask_low Let_def ipv4_header_length_def
      add.commute add.left_commute)

theorem sem_holds:
  assumes "78 \<le> length packet"
    and "mentions_port n \<Longrightarrow> is_ipv4 packet \<or> is_ipv6 packet"
  shows "sem n packet = Some (holds n packet)"
  using assms(2)
proof (induction n)
  case (Proto name)
  then show ?case
    using assms(1)
    by (auto simp: sem_proto_def sem_transport_def ethertype_is_def field_is_num field_defs
        is_ipv4_def is_ipv6_def is_arp_def carries_def simp del: ascii_Cons)
next
  case (Host addr dir)
  then show ?case
    using assms(1)
    by (simp add: sem_host_def ethertype_is_def field_is_num field_defs is_ipv4_def)
next
  case (Port port dir)
  then have "is_ipv4 packet \<or> is_ipv6 packet" by simp
  then show ?case
    using assms(1)
    by (auto simp: sem_port_def carries_ports_def unfragmented_def ethertype_is_def field_is_num
        field_num ipv4_ports_num mask_fragment has_port_def is_ipv4_def is_ipv6_def Let_def
        ETHERTYPE_IPV6_def IPPROTO_TCP_def IPPROTO_UDP_def)
qed simp_all

section \<open>Short frames\<close>

lemma field_short: "length packet < offset + n \<Longrightarrow> field packet offset n = None"
  by (simp add: field_def)

lemma sem_short: "length packet < 14 \<Longrightarrow> sem n packet = None"
proof (induction n)
  case (Proto name)
  then show ?case
    by (simp add: sem_proto_def sem_transport_def ethertype_is_def field_is_def field_short del: ascii_Cons)
next
  case (Host addr dir)
  then show ?case by (simp add: sem_host_def ethertype_is_def field_is_def field_short)
next
  case (Port port dir)
  then show ?case by (simp add: sem_port_def ethertype_is_def field_is_def field_short)
qed simp_all

section \<open>The canned filters\<close>

text \<open>
  One turn of the interpreter on each kind of instruction the canned filters use, in terms
  of the frame's fields: enough to run a canned program on a frame of any content.
\<close>

lemma run_load:
  assumes "pc s < length prog" and "prog ! pc s = (code, 0, 0, k)"
    and "(code, n) \<in> {(0x28, 2), (0x30, 1)}" and "steps s < 10000"
  shows "vm_loop prog packet s =
    (case field packet k n of
       None \<Rightarrow> Inl VM_Reject
     | Some v \<Rightarrow> vm_loop prog packet
         (s\<lparr>steps := steps s + 1, accumulator := v, pc := pc s + 1\<rparr>))"
  using assms
  by (auto simp: vm_loop_turn vm_step_def step_ld_def SIZE_BYTES_def vm_load_field split: option.split)

lemma run_jeq:
  assumes "pc s < length prog" and "prog ! pc s = (0x15, jt, jf, k)" and "steps s < 10000"
  shows "vm_loop prog packet s =
    vm_loop prog packet
      (s\<lparr>steps := steps s + 1, pc := pc s + ((if accumulator s = k then jt else jf) + 1)\<rparr>)"
  using assms by (simp add: vm_loop_turn vm_step_def step_jmp_def jmp_taken_def)

lemma run_ret:
  assumes "pc s < length prog" and "prog ! pc s = (0x06, jt, jf, k)" and "steps s < 10000"
  shows "vm_loop prog packet s = Inr k"
  using assms by (simp add: vm_loop_turn vm_step_def step_ret_def)

definition canned_transport :: "nat \<Rightarrow> SockFilter list" where
  "canned_transport proto =
    [(0x28, 0, 0, 12), (0x15, 0, 5, 0x86DD), (0x30, 0, 0, 20), (0x15, 6, 0, proto),
     (0x15, 0, 6, 44), (0x30, 0, 0, 54), (0x15, 3, 4, proto), (0x15, 0, 3, 0x0800),
     (0x30, 0, 0, 23), (0x15, 0, 1, proto), (0x06, 0, 0, 0x40000), (0x06, 0, 0, 0)]"

definition canned_ethertype :: "nat \<Rightarrow> SockFilter list" where
  "canned_ethertype v = [(0x28, 0, 0, 12), (0x15, 0, 1, v), (0x06, 0, 0, 0x40000), (0x06, 0, 0, 0)]"

lemma canned_ethertype_runs:
  "vm_run (canned_ethertype v) packet =
     Inr (if ethertype_is packet v = Some True then ACCEPT_LENGTH else 0)"
  by (simp add: vm_run_def vm_start_def canned_ethertype_def run_load [of _ _ 40 _ 2] run_jeq run_ret
      ethertype_is_def field_is_def ACCEPT_LENGTH_def split: option.split)

lemma canned_transport_runs:
  "vm_run (canned_transport proto) packet =
     Inr (if sem_transport proto packet = Some True then ACCEPT_LENGTH else 0)"
  by (simp add: vm_run_def vm_start_def canned_transport_def run_load [of _ _ 40 _ 2]
      run_load [of _ _ 48 _ 1] run_jeq run_ret
      sem_transport_def ethertype_is_def field_is_def field_defs ACCEPT_LENGTH_def split: option.split)

lemma canned_shapes:
  "TCP_filter = canned_transport 6" "UDP_filter = canned_transport 17"
  "ARP_filter = canned_ethertype 0x0806" "IP6_filter = canned_ethertype 0x86DD"
  by (simp_all add: TCP_filter_def UDP_filter_def ARP_filter_def IP6_filter_def
      canned_transport_def canned_ethertype_def)

lemma canned_meanings:
  "sem (Proto (ascii ''tcp'')) packet = sem_transport 6 packet"
  "sem (Proto (ascii ''udp'')) packet = sem_transport 17 packet"
  "sem (Proto (ascii ''arp'')) packet = ethertype_is packet 0x0806"
  "sem (Proto (ascii ''ip6'')) packet = ethertype_is packet 0x86DD"
  by (simp_all add: sem_proto_def IPPROTO_TCP_def IPPROTO_UDP_def ETHERTYPE_ARP_def ETHERTYPE_IPV6_def)

lemma canned_filters_run:
  assumes "(name, prog) \<in> set CANNED_FILTERS"
  shows "vm_run prog packet = Inr (if sem (Proto name) packet = Some True then ACCEPT_LENGTH else 0)"
proof -
  from assms consider "name = ascii ''tcp''" "prog = TCP_filter" | "name = ascii ''udp''" "prog = UDP_filter"
    | "name = ascii ''arp''" "prog = ARP_filter" | "name = ascii ''ip6''" "prog = IP6_filter"
    unfolding CANNED_FILTERS_def by auto
  then show ?thesis
    by cases (simp_all only: canned_shapes canned_meanings canned_transport_runs canned_ethertype_runs)
qed

text \<open>The expression that is just the name of a canned filter.\<close>

lemma canned_name: "(name, prog) \<in> set CANNED_FILTERS \<Longrightarrow> name \<in> set PROTOCOLS"
  by (auto simp: CANNED_FILTERS_def PROTOCOLS_def)

lemma protocol_tokens:
  assumes "name \<in> set PROTOCOLS"
  shows "tokenize name = Inr [word name]"
proof -
  have "wf_token (word name)" using assms by (intro wf_word) (simp add: KEYWORDS_def)
  then obtain c cs where "name = c # cs" "is_alpha c" "list_all is_alnum cs"
    by (cases name) (auto simp: wf_token_def)
  with tokenize_word show ?thesis by (simp add: word_def)
qed

lemma protocol_parses: "name \<in> set PROTOCOLS \<Longrightarrow> parse [word name] = Inr (Proto name)"
  using parse_node_tokens [of "Proto name"] by (simp add: node_tokens_bare)

lemma protocol_compiles:
  assumes "name \<in> set PROTOCOLS"
  obtains prog where "compile_expression name = Inr prog" "length prog \<le> 14"
    "\<And>packet. vm_run prog packet = Inr (if sem (Proto name) packet = Some True then ACCEPT_LENGTH else 0)"
proof -
  have "node_length (Proto name) \<le> 12" by simp
  then obtain prog where prog: "resolve (items (compile_program (Proto name))) = Inr prog"
    using short_program_resolves [of "Proto name"] by fastforce
  have len: "length prog \<le> 14" using resolved_length [OF prog] by simp
  show thesis
  proof (rule that [OF _ len])
    show "compile_expression name = Inr prog"
      using prog protocol_tokens [OF assms] protocol_parses [OF assms]
      by (auto simp: compile_expression_Inr)
    show "vm_run prog packet = Inr (if sem (Proto name) packet = Some True then ACCEPT_LENGTH else 0)"
      for packet
      using compiled_runs [OF prog] len by simp
  qed
qed

section \<open>\<open>port\<close> on frames that are neither IPv4 nor IPv6\<close>

text \<open>
  \<^verbatim>\<open>_compile_port_v4\<close> runs for every frame that is not IPv6, without a test for IPv4. A
  frame of another ethertype whose payload looks like an IPv4 header is therefore accepted
  by \<^verbatim>\<open>port 80\<close>; the program tcpdump compiles for the same expression (the golden
  \<^verbatim>\<open>"port 80"\<close> of \<^verbatim>\<open>src/tests/test_bpf_compiler.py\<close>) tests the ethertype and rejects it.
\<close>

definition tcpdump_port_80 :: "SockFilter list" where
  "tcpdump_port_80 =
    [(0x28, 0, 0, 0x0000000C),
     (0x15, 0, 8, 0x000086DD),
     (0x30, 0, 0, 0x00000014),
     (0x15, 2, 0, 0x00000084),
     (0x15, 1, 0, 0x00000006),
     (0x15, 0, 17, 0x00000011),
     (0x28, 0, 0, 0x00000036),
     (0x15, 14, 0, 0x00000050),
     (0x28, 0, 0, 0x00000038),
     (0x15, 12, 13, 0x00000050),
     (0x15, 0, 12, 0x00000800),
     (0x30, 0, 0, 0x00000017),
     (0x15, 2, 0, 0x00000084),
     (0x15, 1, 0, 0x00000006),
     (0x15, 0, 8, 0x00000011),
     (0x28, 0, 0, 0x00000014),
     (0x45, 6, 0, 0x00001FFF),
     (0xB1, 0, 0, 0x0000000E),
     (0x48, 0, 0, 0x0000000E),
     (0x15, 2, 0, 0x00000050),
     (0x48, 0, 0, 0x00000010),
     (0x15, 0, 1, 0x00000050),
     (0x06, 0, 0, 0x00040000),
     (0x06, 0, 0, 0x00000000)]"

lemma tcpdump_port_80_other:
  assumes "field packet 12 2 = Some v" and "v \<noteq> 0x0800" and "v \<noteq> 0x86DD"
  shows "vm_run tcpdump_port_80 packet = Inr 0"
  using assms
  by (simp add: vm_run_def vm_start_def tcpdump_port_80_def run_load [of _ _ 40 _ 2] run_jeq run_ret)

text \<open>Ethertype 0x88B5 (local experimental); the payload starts like an IPv4 header.\<close>

definition lookalike :: bytes where
  "lookalike =
    [0, 0, 0, 0, 0, 0, 0, 0, 0, 0, 0, 0, 0x88, 0xB5,
     0x45, 0, 0, 0, 0, 0, 0, 0, 0, 6, 0, 0, 0, 0, 0, 0, 0, 0, 0, 0,
     0, 80, 0, 0]"

lemma lookalike_fields:
  "field lookalike 12 2 = Some 0x88B5" "field lookalike 14 (Suc 0) = Some 0x45"
  "field lookalike 20 2 = Some 0" "field lookalike 23 (Suc 0) = Some 6" "field lookalike 34 2 = Some 80"
  by (simp_all add: field_def lookalike_def py_slice_def from_be_def)

lemma lookalike_matches: "sem (Port 80 None) lookalike = Some True"
proof -
  have "ipv4_ports 80 None lookalike = or_else (Some True) (field_is lookalike 36 2 80)"
    by (simp add: ipv4_ports_def lookalike_fields field_is_def Let_def)
  then show ?thesis
    by (simp add: sem_port_def carries_ports_def unfragmented_def ethertype_is_def field_is_def
        lookalike_fields field_defs)
qed

end
