(* ===== verification/Bpf_Stack.thy ===== *)
theory Bpf_Stack
  imports Bpf_Limits Bpf_Filters
begin

text \<open>
  How deep \<^verbatim>\<open>src/rootwire/bpf_compiler.py\<close> recurses: the most calls open at once, \<^verbatim>\<open>_tokenize\<close>, the
  methods of \<^verbatim>\<open>_Parser\<close> with their helpers, \<^verbatim>\<open>_compile\<close> with the functions it calls, \<^verbatim>\<open>_resolve\<close> and
  \<^verbatim>\<open>compile_expression\<close> itself included. Python raises \<^verbatim>\<open>RecursionError\<close> when a call has no room left
  below its limit (1000 calls unless it is changed), which is no \<^verbatim>\<open>BPFCompileError\<close>.

  Counted is every call of a Python function: of the module's functions and methods, and of
  the \<^verbatim>\<open>__init__\<close> of \<^verbatim>\<open>_Token\<close>, of the nodes, \<^verbatim>\<open>_Parser\<close>, \<^verbatim>\<open>_Emitter\<close>, \<^verbatim>\<open>_Label\<close> and \<^verbatim>\<open>_PInsn\<close>. What is
  written in C (\<^verbatim>\<open>re\<close>, \<^verbatim>\<open>int\<close>, \<^verbatim>\<open>isinstance\<close>, the methods of \<^verbatim>\<open>str\<close> and \<^verbatim>\<open>list\<close>, the exception) opens none.
  An interpreter that counts one more call for an \<^verbatim>\<open>__init__\<close> it has specialised can need one more for
  \<^verbatim>\<open>_compile\<close>; the bound of four calls for each token and nine more has room for it.
\<close>

section \<open>Calls of the parser's helpers\<close>

text \<open>
  \<^verbatim>\<open>_match_word\<close> calls \<^verbatim>\<open>_at_end\<close> and \<^verbatim>\<open>_peek\<close>, and \<^verbatim>\<open>_advance\<close>, which calls \<^verbatim>\<open>_peek\<close>, when the word is there.
\<close>

definition match_frames :: "pystr list \<Rightarrow> Parser \<Rightarrow> nat" where
  "match_frames words p = 1 + (if fst (match_word words p) then 2 else 1)"

text \<open>
  \<^verbatim>\<open>_parse_ipv4\<close> and \<^verbatim>\<open>_parse_port\<close>: \<^verbatim>\<open>_advance\<close> and \<^verbatim>\<open>_peek\<close> when the token has the right kind, then
  \<^verbatim>\<open>_error\<close> or the generator expression at most; else \<^verbatim>\<open>_at_end\<close>, \<^verbatim>\<open>_peek\<close> and \<^verbatim>\<open>_error\<close>.
\<close>

definition parse_ipv4_frames :: "Parser \<Rightarrow> nat" where
  "parse_ipv4_frames p = 1 + (if next_is K_ipv4 p then 2 else 1)"

definition parse_port_frames :: "Parser \<Rightarrow> nat" where
  "parse_port_frames p = 1 + (if next_is K_number p then 2 else 1)"

text \<open>
  \<^verbatim>\<open>_primitive\<close>: the calls of \<^verbatim>\<open>_match_word\<close> in its order, as far as it comes, and what follows the
  one that matches; \<^verbatim>\<open>_at_end\<close>, \<^verbatim>\<open>_peek\<close>, \<^verbatim>\<open>_error\<close> and the node's \<^verbatim>\<open>__init__\<close> open one call each.
\<close>

definition primitive_frames :: "Parser \<Rightarrow> nat" where
  "primitive_frames p0 =
     1 + max
       (max (match_frames [ascii ''src''] p0)
         (if fst (match_word [ascii ''src''] p0) then 0 else match_frames [ascii ''dst''] p0))
       (case match_direction p0 of (direction, p) \<Rightarrow>
        case peek p of
          Inl _ \<Rightarrow> 1
        | Inr token \<Rightarrow>
            if direction = None \<and> token_kind token = K_word \<and> token_text token \<in> set PROTOCOLS then 2
            else max (match_frames [ascii ''host''] p)
              (case match_word [ascii ''host''] p of
                 (True, q) \<Rightarrow> parse_ipv4_frames q
               | (False, _) \<Rightarrow>
                   max (match_frames [ascii ''port''] p)
                     (case match_word [ascii ''port''] p of
                        (True, q) \<Rightarrow> parse_port_frames q
                      | (False, _) \<Rightarrow> 1)))"

section \<open>Calls of the parser\<close>

text \<open>
  The calls a method makes, in its order; after an error there are no further ones. The loops
  are part of their method and open no call of their own.
\<close>

function or_frames :: "Parser \<Rightarrow> nat"
  and or_loop_frames :: "Parser \<Rightarrow> nat"
  and and_frames :: "Parser \<Rightarrow> nat"
  and and_loop_frames :: "Parser \<Rightarrow> nat"
  and not_frames :: "Parser \<Rightarrow> nat"
  and primary_frames :: "Parser \<Rightarrow> nat"
where
  "or_frames p =
     1 + max (and_frames p) (case and_expr p of Inl e \<Rightarrow> 0 | Inr (node, q) \<Rightarrow> or_loop_frames q)"
| "or_loop_frames p =
     max (match_frames [ascii ''or''] p)
       (case match_word [ascii ''or''] p of
          (True, q) \<Rightarrow>
            max (and_frames q) (case and_expr q of Inl e \<Rightarrow> 0 | Inr (rhs, r) \<Rightarrow> or_loop_frames r)
        | (False, _) \<Rightarrow> 0)"
| "and_frames p =
     1 + max (not_frames p) (case not_expr p of Inl e \<Rightarrow> 0 | Inr (node, q) \<Rightarrow> and_loop_frames q)"
| "and_loop_frames p =
     max (match_frames [ascii ''and''] p)
       (case match_word [ascii ''and''] p of
          (True, q) \<Rightarrow>
            max (not_frames q) (case not_expr q of Inl e \<Rightarrow> 0 | Inr (rhs, r) \<Rightarrow> and_loop_frames r)
        | (False, _) \<Rightarrow> 0)"
| "not_frames p =
     1 + max (match_frames [ascii ''not''] p)
       (case match_word [ascii ''not''] p of (True, q) \<Rightarrow> not_frames q | (False, _) \<Rightarrow> primary_frames p)"
| "primary_frames p =
     1 + (if next_is K_lparen p
          then max 2 (case advance p of Inl e \<Rightarrow> 0 | Inr (_, q) \<Rightarrow> or_frames q)
          else primitive_frames p)"
  by pat_completeness auto

fun frames_rank :: "(Parser + Parser + Parser) + (Parser + Parser + Parser) \<Rightarrow> nat \<times> nat" where
  "frames_rank (Inl (Inl p)) = (remaining p, 4)"
| "frames_rank (Inl (Inr (Inl p))) = (remaining p, 0)"
| "frames_rank (Inl (Inr (Inr p))) = (remaining p, 3)"
| "frames_rank (Inr (Inl p)) = (remaining p, 0)"
| "frames_rank (Inr (Inr (Inl p))) = (remaining p, 2)"
| "frames_rank (Inr (Inr (Inr p))) = (remaining p, 1)"

termination or_frames
  by (relation "inv_image (less_than <*lex*> less_than) frames_rank")
    (auto dest!: parser_consumes match_word_consumed [OF sym] advance_consumed consumed_remaining)

declare or_frames.simps [simp del] or_loop_frames.simps [simp del] and_frames.simps [simp del]
  and_loop_frames.simps [simp del] not_frames.simps [simp del] primary_frames.simps [simp del]

text \<open>\<^verbatim>\<open>parse\<close>: after \<^verbatim>\<open>_or_expr\<close> at most \<^verbatim>\<open>_peek\<close> and \<^verbatim>\<open>_error\<close>.\<close>

definition parse_frames :: "Token list \<Rightarrow> nat" where
  "parse_frames tokens = 1 + max (or_frames \<lparr>p_tokens = tokens, p_pos = 0\<rparr>) 1"

section \<open>Calls of the other stages\<close>

text \<open>
  The leaves of the code generator are \<^verbatim>\<open>emit\<close>, \<^verbatim>\<open>place\<close> and the constructors: \<^verbatim>\<open>new_label\<close> and
  \<^verbatim>\<open>_test_at\<close> open two calls. \<^verbatim>\<open>_compile_proto\<close> calls them itself, or \<^verbatim>\<open>_compile_tcp_or_udp\<close>;
  \<^verbatim>\<open>_compile_port\<close> calls \<^verbatim>\<open>_compile_port_v6\<close> and \<^verbatim>\<open>_compile_port_v4\<close>, and they \<^verbatim>\<open>_compile_port_value\<close>.
\<close>

definition test_at_frames :: nat where
  "test_at_frames = 1 + 1"

definition compile_proto_frames :: "pystr \<Rightarrow> nat" where
  "compile_proto_frames name =
     1 + (if name \<in> {ascii ''ip'', ascii ''arp'', ascii ''ip6'', ascii ''icmp''} then test_at_frames
          else 1 + test_at_frames)"

definition compile_host_frames :: nat where
  "compile_host_frames = 1 + test_at_frames"

definition compile_port_frames :: nat where
  "compile_port_frames = 1 + (1 + (1 + test_at_frames))"

fun compile_frames :: "Node \<Rightarrow> nat" where
  "compile_frames (Proto name) = 1 + compile_proto_frames name"
| "compile_frames (Host addr direction) = 1 + compile_host_frames"
| "compile_frames (Port port direction) = 1 + compile_port_frames"
| "compile_frames (NotE n) = 1 + compile_frames n"
| "compile_frames (AndE n m) = 1 + max 2 (max (compile_frames n) (compile_frames m))"
| "compile_frames (OrE n m) = 1 + max 2 (max (compile_frames n) (compile_frames m))"

text \<open>The loop of \<^verbatim>\<open>_tokenize\<close> makes a \<^verbatim>\<open>_Token\<close> of every match but white space.\<close>

function token_frames_from :: "pystr \<Rightarrow> nat \<Rightarrow> nat" where
  "token_frames_from expr pos =
     (if pos < length expr then
        case first_match TOKEN_RE (drop pos expr) of
          None \<Rightarrow> 0
        | Some (kind, m) \<Rightarrow> max (if kind \<noteq> K_space then 1 else 0) (token_frames_from expr (pos + m))
      else 0)"
  by pat_completeness auto
termination
  by (relation "measure (\<lambda>(expr, pos). length expr - pos)") (auto dest: token_match_bounds)

declare token_frames_from.simps [simp del]

definition tokenize_frames :: "pystr \<Rightarrow> nat" where
  "tokenize_frames expr = 1 + token_frames_from expr 0"

text \<open>
  The most calls open at once in \<^verbatim>\<open>compile_expression\<close>, its own included: in \<^verbatim>\<open>_tokenize\<close>, in \<^verbatim>\<open>parse\<close>,
  in \<^verbatim>\<open>_compile\<close>, and the two of \<^verbatim>\<open>new_label\<close> (\<^verbatim>\<open>_Label\<close>) and of \<^verbatim>\<open>_resolve\<close> (\<^verbatim>\<open>offset_to\<close>).
\<close>

definition stack_depth :: "pystr \<Rightarrow> nat" where
  "stack_depth expr =
     1 + max (tokenize_frames expr)
       (case tokenize expr of
          Inl e \<Rightarrow> 0
        | Inr tokens \<Rightarrow>
            if tokens = [] then 0
            else max (parse_frames tokens)
              (case parse tokens of Inl e \<Rightarrow> 0 | Inr ast \<Rightarrow> max (compile_frames ast) 2))"

section \<open>The compiler under a limit\<close>

text \<open>
  \<^verbatim>\<open>compile_expression\<close> called where \<open>room\<close> more calls fit below Python's limit: a call beyond
  them raises \<^verbatim>\<open>RecursionError\<close>, whatever would have come of the expression.
\<close>

datatype limited_error = RecursionError | Compiler_raised compile_error

definition compile_within :: "nat \<Rightarrow> pystr \<Rightarrow> limited_error + SockFilter list" where
  "compile_within room expr =
     (if room < stack_depth expr then Inl RecursionError
      else case compile_expression expr of Inl e \<Rightarrow> Inl (Compiler_raised e) | Inr prog \<Rightarrow> Inr prog)"

lemma compile_within_Inl:
  "compile_within room expr = Inl err \<longleftrightarrow>
     (if room < stack_depth expr then err = RecursionError
      else \<exists>e. compile_expression expr = Inl e \<and> err = Compiler_raised e)"
  by (auto simp: compile_within_def split: sum.split)

lemma compile_within_Inr:
  "compile_within room expr = Inr prog \<longleftrightarrow> stack_depth expr \<le> room \<and> compile_expression expr = Inr prog"
  by (auto simp: compile_within_def split: sum.split)

section \<open>An upper bound\<close>

text \<open>
  Four calls for each token at most: a token is read before a method is entered again.
\<close>

lemma parser_shrinks:
  "and_expr p = Inr (n, q) \<Longrightarrow> remaining q < remaining p"
  "not_expr p = Inr (n, q) \<Longrightarrow> remaining q < remaining p"
  "match_word ws p = (True, q) \<Longrightarrow> remaining q < remaining p"
  "advance p = Inr (t, q) \<Longrightarrow> remaining q < remaining p"
  by (auto intro: consumed_remaining dest: parser_consumes match_word_consumed advance_consumed)

lemma match_frames_le: "match_frames ws p \<le> 4 * remaining p + 2"
  using parser_shrinks(3) [of ws p "snd (match_word ws p)"]
  by (cases "match_word ws p") (auto simp: match_frames_def)

lemma next_is_remaining: "next_is k p \<Longrightarrow> 0 < remaining p"
  by (auto simp: next_is_def peek_def at_end_def remaining_def split: if_splits)

lemma parse_frames_le:
  "parse_ipv4_frames p \<le> 4 * remaining p + 2" "parse_port_frames p \<le> 4 * remaining p + 2"
  using next_is_remaining [of K_ipv4 p] next_is_remaining [of K_number p]
  by (auto simp: parse_ipv4_frames_def parse_port_frames_def)

lemma match_direction_remaining: "match_direction p = (d, q) \<Longrightarrow> remaining q \<le> remaining p"
  using match_direction_cases consumed_remaining by (metis less_imp_le order_refl)

lemma primitive_frames_le: "primitive_frames p \<le> 4 * remaining p + 3"
proof -
  obtain d q where dq: "match_direction p = (d, q)" by force
  have host: "parse_ipv4_frames r \<le> 4 * remaining q + 2" if "match_word ws q = (True, r)" for ws r
    using parse_frames_le(1) [of r] parser_shrinks(3) [OF that] by simp
  have port: "parse_port_frames r \<le> 4 * remaining q + 2" if "match_word ws q = (True, r)" for ws r
    using parse_frames_le(2) [of r] parser_shrinks(3) [OF that] by simp
  have "4 * remaining q + 2 \<le> 4 * remaining p + 2"
    using match_direction_remaining [OF dq] by simp
  note le = order_trans [OF _ this]
  show ?thesis
    using match_frames_le [of _ p] le [OF match_frames_le [of _ q]] le [OF host] le [OF port]
    by (simp add: primitive_frames_def dq split: sum.split prod.split bool.split)
qed

lemma primitive_frames_ge: "3 \<le> primitive_frames p"
  by (simp add: primitive_frames_def match_frames_def le_max_iff_disj)

lemma parser_frames_le:
  "or_frames p0 \<le> 4 * remaining p0 + 7" "or_loop_frames p1 \<le> 4 * remaining p1 + 6"
  "and_frames p2 \<le> 4 * remaining p2 + 6" "and_loop_frames p3 \<le> 4 * remaining p3 + 5"
  "not_frames p4 \<le> 4 * remaining p4 + 5" "primary_frames p5 \<le> 4 * remaining p5 + 4"
proof (induction p0 and p1 and p2 and p3 and p4 and p5
    rule: or_frames_or_loop_frames_and_frames_and_loop_frames_not_frames_primary_frames.induct)
  case (1 p)
  then show ?case
    by (fastforce simp: or_frames.simps [of p] split: sum.split prod.split bool.split dest: parser_shrinks)
next
  case (2 p)
  then show ?case using match_frames_le [of "[ascii ''or'']" p]
    by (fastforce simp: or_loop_frames.simps [of p] split: sum.split prod.split bool.split
        dest: parser_shrinks)
next
  case (3 p)
  then show ?case
    by (fastforce simp: and_frames.simps [of p] split: sum.split prod.split bool.split dest: parser_shrinks)
next
  case (4 p)
  then show ?case using match_frames_le [of "[ascii ''and'']" p]
    by (fastforce simp: and_loop_frames.simps [of p] split: sum.split prod.split bool.split
        dest: parser_shrinks)
next
  case (5 p)
  then show ?case using match_frames_le [of "[ascii ''not'']" p]
    by (fastforce simp: not_frames.simps [of p] split: sum.split prod.split bool.split dest: parser_shrinks)
next
  case (6 p)
  then show ?case using primitive_frames_le [of p]
    by (fastforce simp: primary_frames.simps [of p] split: sum.split prod.split bool.split
        dest: parser_shrinks)
qed

text \<open>A tree is no higher than its tokens are many.\<close>

lemma compile_frames_derived:
  "derives_or ts n \<Longrightarrow> compile_frames n \<le> length ts + 5"
  "derives_and ts n \<Longrightarrow> compile_frames n \<le> length ts + 5"
  "derives_not ts n \<Longrightarrow> compile_frames n \<le> length ts + 5"
  "derives_primary ts n \<Longrightarrow> compile_frames n \<le> length ts + 5"
proof (induction rule: derives_or_derives_and_derives_not_derives_primary.inducts)
  case (primary_primitive ts n)
  then show ?case
    by (cases rule: derives_primitive.cases)
      (simp_all add: compile_host_frames_def compile_port_frames_def test_at_frames_def
        compile_proto_frames_def)
qed auto

lemma tokenize_frames_le: "tokenize_frames expr \<le> 2"
proof -
  have "token_frames_from e pos \<le> 1" for e pos
  proof (induction e pos rule: token_frames_from.induct)
    case (1 e pos)
    then show ?case by (auto simp: token_frames_from.simps [of e pos] split: option.split)
  qed
  then show ?thesis by (simp add: tokenize_frames_def)
qed

lemma stack_depth_tokens:
  assumes "tokenize expr = Inr ts"
  shows "stack_depth expr \<le> 4 * length ts + 9"
proof -
  have "compile_frames n \<le> length ts + 5" if "parse ts = Inr n" for n
    by (rule compile_frames_derived(1) [OF parse_sound [OF that tokenize_wf [OF assms]]])
  moreover have "parse_frames ts \<le> 4 * length ts + 8"
    using parser_frames_le(1) [of "\<lparr>p_tokens = ts, p_pos = 0\<rparr>"] by (simp add: remaining_def parse_frames_def)
  ultimately show ?thesis
    using tokenize_frames_le [of expr] by (force simp: stack_depth_def assms split: sum.split)
qed

lemma stack_depth_lexing: "tokenize expr = Inl e \<Longrightarrow> stack_depth expr \<le> 3"
  using tokenize_frames_le [of expr] by (simp add: stack_depth_def)

section \<open>Expressions that need many calls\<close>

text \<open>\<open>nested_tokens k\<close>: \<^verbatim>\<open>ip\<close> in \<open>k\<close> pairs of parentheses.\<close>

abbreviation lparen :: Token where "lparen \<equiv> \<lparr>token_kind = K_lparen, token_text = [LPAREN]\<rparr>"
abbreviation rparen :: Token where "rparen \<equiv> \<lparr>token_kind = K_rparen, token_text = [RPAREN]\<rparr>"

fun nested_tokens :: "nat \<Rightarrow> Token list" where
  "nested_tokens 0 = [word (ascii ''ip'')]"
| "nested_tokens (Suc k) = lparen # nested_tokens k @ [rparen]"

lemma ip_protocol: "ascii ''ip'' \<in> set PROTOCOLS"
  by (simp add: PROTOCOLS_def)

lemma nested_derives: "derives_or (nested_tokens k) (Proto (ascii ''ip''))"
proof (induction k)
  case 0
  show ?case
    unfolding nested_tokens.simps
    by (intro or_one and_one not_primary primary_primitive prim_proto ip_protocol)
next
  case (Suc k)
  from primary_paren [OF this] show ?case by (auto intro: or_one and_one not_primary)
qed

lemma nested_wf: "list_all wf_token (nested_tokens k)"
proof (induction k)
  case 0
  have "wf_token (word (ascii ''ip''))" using ip_protocol by (intro wf_word) (simp add: KEYWORDS_def)
  then show ?case by simp
qed (simp add: wf_token_def)

lemma nested_short: "short_numbers (nested_tokens k)"
  by (induction k) (simp_all add: short_numbers_def)

lemma nested_head: "\<exists>us. nested_tokens k = replicate k lparen @ word (ascii ''ip'') # us"
  by (induction k) auto

text \<open>It means what \<^verbatim>\<open>ip\<close> means, and compiles to the same program.\<close>

lemma nested_compiles: "compile_expression (render (nested_tokens k)) = compile_expression (ascii ''ip'')"
proof -
  have "parse (nested_tokens k) = Inr (Proto (ascii ''ip''))"
    by (rule parse_complete [OF nested_derives nested_short])
  moreover have "nested_tokens k \<noteq> []" by (cases k) simp_all
  ultimately show ?thesis
    using protocol_tokens [OF ip_protocol] protocol_parses [OF ip_protocol]
    by (simp add: compile_expression_def tokenize_render [OF nested_wf])
qed

text \<open>Each parenthesis costs four calls, and what follows the last one seven more.\<close>

lemma or_frames_parens:
  "rest p = replicate k lparen @ us \<Longrightarrow> us = [] \<or> us = word (ascii ''ip'') # vs \<Longrightarrow>
    4 * k + 7 \<le> or_frames p"
proof (induction k arbitrary: p)
  case 0
  then have "match_word [ascii ''not''] p = (False, p)" "\<not> next_is K_lparen p"
    by (auto simp: match_word_rest next_is_rest word_def ascii_def)
  with primitive_frames_ge [of p] show ?case
    by (simp add: or_frames.simps [of p] and_frames.simps [of p] not_frames.simps [of p]
        primary_frames.simps [of p] le_max_iff_disj)
next
  case (Suc k)
  then have "match_word [ascii ''not''] p = (False, p)" "next_is K_lparen p" "advance p = Inr (lparen, skip 1 p)"
    by (simp_all add: match_word_rest next_is_rest advance_rest)
  moreover from Suc have "4 * k + 7 \<le> or_frames (skip 1 p)" by simp
  ultimately show ?case
    by (simp add: or_frames.simps [of p] and_frames.simps [of p] not_frames.simps [of p]
        primary_frames.simps [of p])
qed

lemma stack_depth_parens:
  assumes "ts = replicate k lparen @ us" "us = [] \<or> us = word (ascii ''ip'') # vs" "ts \<noteq> []" "list_all wf_token ts"
  shows "4 * k + 9 \<le> stack_depth (render ts)"
proof -
  have "4 * k + 7 \<le> or_frames \<lparr>p_tokens = ts, p_pos = 0\<rparr>"
    using assms(1,2) by (intro or_frames_parens [where us = us]) (simp_all add: rest_def)
  then show ?thesis using assms(3) by (simp add: stack_depth_def parse_frames_def tokenize_render [OF assms(4)])
qed

lemma nested_depth: "4 * k + 9 \<le> stack_depth (render (nested_tokens k))"
proof -
  obtain us where "nested_tokens k = replicate k lparen @ word (ascii ''ip'') # us" using nested_head by blast
  moreover have "nested_tokens k \<noteq> []" by (cases k) simp_all
  ultimately show ?thesis using nested_wf by (blast intro: stack_depth_parens)
qed

text \<open>Parentheses that are never closed need as many calls as the bound allows.\<close>

lemma unclosed_depth: "stack_depth (render (replicate (Suc k) lparen)) = 4 * Suc k + 9"
proof (rule antisym)
  have wf: "list_all wf_token (replicate (Suc k) lparen)" by (simp add: list_all_iff wf_token_def)
  show "4 * Suc k + 9 \<le> stack_depth (render (replicate (Suc k) lparen))"
    by (rule stack_depth_parens [where us = "[]"]) (use wf in simp_all)
  show "stack_depth (render (replicate (Suc k) lparen)) \<le> 4 * Suc k + 9"
    using stack_depth_tokens [OF tokenize_render [OF wf]] by simp
qed

text \<open>A chain is a tree as high as it is long.\<close>

lemma compile_frames_unparse: "wf_node n \<Longrightarrow> compile_frames n < stack_depth (unparse n)"
  using read_unparse [of n] by (auto simp: stack_depth_def then_do_Inr_iff parse_Nil less_Suc_eq_le)

lemma tcp_chain_depth: "k + 6 \<le> stack_depth (unparse (tcp_chain k))"
proof -
  have "compile_frames (tcp_chain k) = k + 5"
    by (induction k) (simp_all add: compile_proto_frames_def test_at_frames_def ascii_def)
  with compile_frames_unparse [OF wf_tcp_chain, of k] show ?thesis by simp
qed

end
