(* ===== verification/Decoder.thy ===== *)
theory Decoder
  imports RW_Prelude
begin

text \<open>
  \<^verbatim>\<open>src/rootwire/frame.py\<close> and \<^verbatim>\<open>src/rootwire/decoder.py\<close>: the immutable result of decoding
  one frame, and the function that makes it from raw bytes. The protocol classes and the
  chain walk belong to the \<^verbatim>\<open>netprotocols\<close> package, which is not part of the repository:
  they are one argument, the record \<open>netprotocols\<close> of what the code reads of them.
\<close>

section \<open>The library\<close>

text \<open>The classes the code tests for; every other class is \<open>Other_class\<close> with its name.\<close>

datatype protocol_class =
    Ethernet_class | VLAN_class | IPv4_class | IPv6_class | IPv6Fragment_class
  | TCP_class | UDP_class | ICMPv4_class | ICMPv6_class | ARP_class
  | Other_class pystr

text \<open>
  \<open>isinstance_of l c\<close> is \<^verbatim>\<open>isinstance(l, c)\<close>; the number fields are attributes, read only
  of instances that have them. \<open>decode_chain\<close> is \<^verbatim>\<open>netprotocols.decode_frame\<close> with
  \<^verbatim>\<open>lax=True\<close>: the layers, the bytes they consumed, and \<^verbatim>\<open>str(stopped_by)\<close> when the walk
  ended at a malformed header.
\<close>

record 'l packet =
  layers :: "'l list"
  consumed_bytes :: nat
  stopped_by :: "pystr option"

record 'l netprotocols =
  isinstance_of :: "'l \<Rightarrow> protocol_class \<Rightarrow> bool"
  class_name :: "'l \<Rightarrow> pystr"
  header_len :: "'l \<Rightarrow> nat"
  total_length :: "'l \<Rightarrow> nat"
  payload_length :: "'l \<Rightarrow> nat"
  ip_flags :: "'l \<Rightarrow> nat"
  fragment_offset :: "'l \<Rightarrow> nat"
  decode_chain :: "bytes \<Rightarrow> nat \<Rightarrow> 'l packet"

section \<open>\<^verbatim>\<open>DecodedFrame\<close>\<close>

record 'l DecodedFrame =
  frame_number :: nat
  frame_timestamp :: int
  frame_interface :: "pystr option"
  frame_length :: nat
  frame_layers :: "'l list"
  frame_payload :: bytes
  frame_truncated :: bool
  frame_malformed_length :: bool
  frame_error :: "pystr option"
  frame_raw :: bytes

text \<open>\<^verbatim>\<open>DecodedFrame.layer\<close>: the first layer of a class.\<close>

fun first_layer :: "'l netprotocols \<Rightarrow> protocol_class \<Rightarrow> 'l list \<Rightarrow> 'l option" where
  "first_layer np c [] = None"
| "first_layer np c (candidate # ls) =
     (if isinstance_of np candidate c then Some candidate else first_layer np c ls)"

definition frame_layer :: "'l netprotocols \<Rightarrow> 'l DecodedFrame \<Rightarrow> protocol_class \<Rightarrow> 'l option" where
  "frame_layer np frame protocol = first_layer np protocol (frame_layers frame)"

section \<open>\<^verbatim>\<open>decode_frame\<close>\<close>

definition ETHERNET_HEADER_LEN :: nat where "ETHERNET_HEADER_LEN = 14"
definition MAX_LAYERS :: nat where "MAX_LAYERS = 16"

fun declared_length :: "'l netprotocols \<Rightarrow> 'l list \<Rightarrow> nat option" where
  "declared_length np [] = None"
| "declared_length np (layer # ls) =
     (if isinstance_of np layer IPv4_class then Some (ETHERNET_HEADER_LEN + total_length np layer)
      else if isinstance_of np layer IPv6_class
      then Some (ETHERNET_HEADER_LEN + header_len np layer + payload_length np layer)
      else declared_length np ls)"

fun ip_length_malformed :: "'l netprotocols \<Rightarrow> 'l list \<Rightarrow> bool" where
  "ip_length_malformed np [] = False"
| "ip_length_malformed np (layer # ls) =
     (if isinstance_of np layer IPv4_class
      then 0 < total_length np layer \<and> total_length np layer < header_len np layer
      else ip_length_malformed np ls)"

definition decode_frame ::
    "'l netprotocols \<Rightarrow> bytes \<Rightarrow> nat \<Rightarrow> int \<Rightarrow> pystr option \<Rightarrow> 'l DecodedFrame" where
  "decode_frame np data number timestamp interface =
     (let packet = decode_chain np data MAX_LAYERS;
          decoded_layers = layers packet;
          cursor = consumed_bytes packet;
          err = stopped_by packet;
          declared = declared_length np decoded_layers
      in \<lparr>frame_number = number,
          frame_timestamp = timestamp,
          frame_interface = interface,
          frame_length = length data,
          frame_layers = decoded_layers,
          frame_payload = drop cursor data,
          frame_truncated = (case declared of None \<Rightarrow> False | Some n \<Rightarrow> n > length data),
          frame_malformed_length = ip_length_malformed np decoded_layers,
          frame_error = err,
          frame_raw = data\<rparr>)"

section \<open>The first IP layer\<close>

text \<open>
  Where the first IP layer starts in the frame, and how many bytes its datagram claims.
  The reference for \<open>truncated\<close>: the frame ends before the datagram does.
\<close>

fun ip_datagram :: "'l netprotocols \<Rightarrow> 'l list \<Rightarrow> (nat \<times> nat) option" where
  "ip_datagram np [] = None"
| "ip_datagram np (layer # ls) =
     (if isinstance_of np layer IPv4_class then Some (0, total_length np layer)
      else if isinstance_of np layer IPv6_class
      then Some (0, header_len np layer + payload_length np layer)
      else map_option (\<lambda>(start, n). (header_len np layer + start, n)) (ip_datagram np ls))"

lemma declared_length_datagram:
  "declared_length np ls = map_option (\<lambda>(start, n). ETHERNET_HEADER_LEN + n) (ip_datagram np ls)"
  by (induction np ls rule: declared_length.induct) (auto simp: option.map_comp o_def split_beta)

lemma declared_length_None:
  "declared_length np ls = None \<longleftrightarrow>
     (\<forall>l \<in> set ls. \<not> isinstance_of np l IPv4_class \<and> \<not> isinstance_of np l IPv6_class)"
  by (induction np ls rule: declared_length.induct) auto

lemma truncated_iff:
  "frame_truncated (decode_frame np data number ts interface) \<longleftrightarrow>
     (\<exists>start n. ip_datagram np (layers (decode_chain np data MAX_LAYERS)) = Some (start, n) \<and>
        length data < 14 + n)"
  by (auto simp: decode_frame_def Let_def declared_length_datagram ETHERNET_HEADER_LEN_def
      split: option.splits)

text \<open>Behind a plain Ethernet header the datagram starts at 14, so the test is exact.\<close>

lemma truncated_exact:
  assumes "ip_datagram np (layers (decode_chain np data MAX_LAYERS)) = Some (14, n)"
  shows "frame_truncated (decode_frame np data number ts interface) \<longleftrightarrow> length data < 14 + n"
  using assms by (auto simp: truncated_iff)

text \<open>
  In general a frame that is flagged really is short, as long as the IP layer does not
  start before 14; the converse fails behind a VLAN tag.
\<close>

lemma truncated_short:
  assumes "ip_datagram np (layers (decode_chain np data MAX_LAYERS)) = Some (start, n)" and "14 \<le> start"
    and "frame_truncated (decode_frame np data number ts interface)"
  shows "length data < start + n"
  using assms by (auto simp: truncated_iff)

lemma truncated_missed:
  assumes "ip_datagram np (layers (decode_chain np data MAX_LAYERS)) = Some (start, n)"
    and "14 + n \<le> length data" and "length data < start + n"
  shows "\<not> frame_truncated (decode_frame np data number ts interface)"
  using assms by (auto simp: truncated_iff)

lemma first_layer_find: "first_layer np c ls = find (\<lambda>l. isinstance_of np l c) ls"
  by (induction ls) auto

lemma first_layer_index:
  "first_layer np c ls = Some l \<longleftrightarrow>
     (\<exists>i < length ls. ls ! i = l \<and> isinstance_of np l c \<and> (\<forall>j < i. \<not> isinstance_of np (ls ! j) c))"
  by (auto simp: first_layer_find find_Some_iff)

lemma ip_length_malformed_first:
  "ip_length_malformed np ls \<longleftrightarrow>
     (\<exists>l. first_layer np IPv4_class ls = Some l \<and> 0 < total_length np l \<and> total_length np l < header_len np l)"
  by (induction np ls rule: ip_length_malformed.induct) auto

lemma decode_frame_parts:
  "frame_raw (decode_frame np data number ts interface) = data"
  "frame_length (decode_frame np data number ts interface) = length data"
  "frame_layers (decode_frame np data number ts interface) = layers (decode_chain np data MAX_LAYERS)"
  "frame_payload (decode_frame np data number ts interface) =
     drop (consumed_bytes (decode_chain np data MAX_LAYERS)) data"
  "frame_error (decode_frame np data number ts interface) = stopped_by (decode_chain np data MAX_LAYERS)"
  by (simp_all add: decode_frame_def Let_def)

end
