(* ===== verification/Pcap.thy ===== *)
theory Pcap
  imports Py_Struct
begin

text \<open>
  \<^verbatim>\<open>src/rootwire/pcap.py\<close>: the nanosecond classic-pcap writer, the check of a capture's
  declared link type (classic pcap and pcapng), and \<^verbatim>\<open>read_captures\<close>. The walk over the
  packets of a file belongs to the \<^verbatim>\<open>netprotocols\<close> package and is an argument. The reader
  \<^verbatim>\<open>read_pcap\<close> of \<^verbatim>\<open>src/tests/conftest.py\<close> is modelled as well: it reads back what the
  writer wrote.
\<close>

section \<open>Constants\<close>

definition SNAPLEN :: int where "SNAPLEN = 65550"
definition MAGIC_NANOSECONDS :: int where "MAGIC_NANOSECONDS = 0xA1B23C4D"
definition LINKTYPE_ETHERNET :: int where "LINKTYPE_ETHERNET = 1"

definition GLOBAL_HEADER :: "fmt_code list" where
  "GLOBAL_HEADER = [F_I, F_H, F_H, F_i, F_I, F_I, F_I]"

definition RECORD_HEADER :: "fmt_code list" where
  "RECORD_HEADER = [F_I, F_I, F_I, F_I]"

definition PCAP_MAGICS :: "bytes list" where
  "PCAP_MAGICS =
    [[0xA1, 0xB2, 0xC3, 0xD4], [0xD4, 0xC3, 0xB2, 0xA1],
     [0xA1, 0xB2, 0x3C, 0x4D], [0x4D, 0x3C, 0xB2, 0xA1]]"

definition PCAP_MAGICS_LE :: "bytes list" where
  "PCAP_MAGICS_LE = [[0xD4, 0xC3, 0xB2, 0xA1], [0x4D, 0x3C, 0xB2, 0xA1]]"

definition SHB_TYPE :: bytes where "SHB_TYPE = [0x0A, 0x0D, 0x0D, 0x0A]"
definition SHB_BOM :: int where "SHB_BOM = 0x1A2B3C4D"
definition IDB_TYPE :: int where "IDB_TYPE = 1"

section \<open>The declared link type\<close>

text \<open>
  One turn of the loop of \<^verbatim>\<open>_pcapng_linktype\<close>: the byte order after looking for a section
  header (\<open>None\<close>: the loop is left), then the block.
\<close>

definition block_endian :: "bytes \<Rightarrow> nat \<Rightarrow> endian \<Rightarrow> endian option" where
  "block_endian data cursor e =
     (if py_slice data cursor (cursor + 4) = SHB_TYPE then
        if cursor + 12 > length data then None
        else Some (if Inr (py_slice data (cursor + 8) (cursor + 12)) = pack Little [F_I] [SHB_BOM]
                   then Little else Big)
      else Some e)"

function pcapng_loop :: "bytes \<Rightarrow> endian \<Rightarrow> int option \<Rightarrow> nat \<Rightarrow> struct_error + int option" where
  "pcapng_loop data endian0 found cursor =
     (if cursor + 8 \<le> length data then
        case block_endian data cursor endian0 of
          None \<Rightarrow> Inr found
        | Some e \<Rightarrow>
            then_do (unpack_from e [F_I, F_I] data cursor) (\<lambda>fields.
              let block_type = fields ! 0; block_len = nat (fields ! 1)
              in if block_len < 12 \<or> cursor + block_len > length data then Inr found
                 else if block_type = IDB_TYPE \<and> block_len \<ge> 16 then
                   then_do (unpack_from e [F_H] data (cursor + 8)) (\<lambda>link.
                     if link ! 0 \<noteq> LINKTYPE_ETHERNET then Inr (Some (link ! 0))
                     else pcapng_loop data e (Some LINKTYPE_ETHERNET) (cursor + block_len))
                 else pcapng_loop data e found (cursor + block_len))
      else Inr found)"
  by pat_completeness auto
termination
  by (relation "measure (\<lambda>(data, e, found, cursor). length data - cursor)") auto

declare pcapng_loop.simps [simp del]

definition pcapng_linktype :: "bytes \<Rightarrow> struct_error + int option" where
  "pcapng_linktype data =
     (if length data < 12 \<or> py_slice data 0 4 \<noteq> SHB_TYPE then Inr None
      else pcapng_loop data Little None 0)"

definition declared_linktype :: "bytes \<Rightarrow> struct_error + int option" where
  "declared_linktype data =
     (if length data \<ge> calcsize GLOBAL_HEADER \<and> py_slice data 0 4 \<in> set PCAP_MAGICS then
        let e = (if py_slice data 0 4 \<in> set PCAP_MAGICS_LE then Little else Big)
        in then_do (unpack_from e [F_I] data 20) (\<lambda>fields. Inr (Some (fields ! 0)))
      else pcapng_linktype data)"

section \<open>\<^verbatim>\<open>PcapWriter\<close>\<close>

text \<open>
  The object's state is its file: what has been written, and whether it is closed. A
  header that cannot be packed raises before anything is written; writing to a closed
  file raises as well.
\<close>

datatype pcap_error = PackError | ClosedFileError

record PcapWriter =
  pcap_file :: bytes
  pcap_closed :: bool

definition new_PcapWriter :: "struct_error + PcapWriter" where
  "new_PcapWriter =
     then_do (pack Little GLOBAL_HEADER
         [MAGIC_NANOSECONDS, 2, 4, 0, 0, SNAPLEN, LINKTYPE_ETHERNET])
       (\<lambda>header. Inr \<lparr>pcap_file = header, pcap_closed = False\<rparr>)"

text \<open>\<open>now\<close> is \<^verbatim>\<open>time.time_ns()\<close>, used when no timestamp is given.\<close>

definition pcap_write ::
    "bytes \<Rightarrow> int option \<Rightarrow> int \<Rightarrow> PcapWriter \<Rightarrow> pcap_error + PcapWriter" where
  "pcap_write data timestamp now w =
     (let ts = (case timestamp of None \<Rightarrow> now | Some t \<Rightarrow> t);
          ts_sec = ts div 1000000000;
          ts_nsec = ts mod 1000000000
      in case pack Little RECORD_HEADER [ts_sec, ts_nsec, int (length data), int (length data)] of
           Inl _ \<Rightarrow> Inl PackError
         | Inr header \<Rightarrow>
             if pcap_closed w then Inl ClosedFileError
             else Inr (w\<lparr>pcap_file := pcap_file w @ header @ data\<rparr>))"

definition pcap_close :: "PcapWriter \<Rightarrow> PcapWriter" where
  "pcap_close w = w\<lparr>pcap_closed := True\<rparr>"

text \<open>
  The writer as a context manager. \<^verbatim>\<open>__exit__\<close> closes the file and returns \<^verbatim>\<open>None\<close>, so that an
  exception of the body goes on. The body is given by the exception it ends with, if any,
  and the writer it leaves.
\<close>

definition PcapWriter_enter :: "PcapWriter \<Rightarrow> PcapWriter" where
  "PcapWriter_enter w = w"

definition PcapWriter_exit :: "'e option \<Rightarrow> PcapWriter \<Rightarrow> 'e option \<times> PcapWriter" where
  "PcapWriter_exit exc w = (exc, pcap_close w)"

definition with_PcapWriter ::
    "(PcapWriter \<Rightarrow> 'e option \<times> PcapWriter) \<Rightarrow> struct_error + 'e option \<times> PcapWriter" where
  "with_PcapWriter body =
     then_do new_PcapWriter (\<lambda>w.
       case body (PcapWriter_enter w) of (exc, w) \<Rightarrow> Inr (PcapWriter_exit exc w))"

text \<open>A body that writes frames until one is refused.\<close>

fun write_each :: "(bytes \<times> int) list \<Rightarrow> PcapWriter \<Rightarrow> pcap_error option \<times> PcapWriter" where
  "write_each [] w = (None, w)"
| "write_each ((data, ts) # frames) w =
     (case pcap_write data (Some ts) 0 w of
        Inl err \<Rightarrow> (Some err, w)
      | Inr w \<Rightarrow> write_each frames w)"

section \<open>\<^verbatim>\<open>read_captures\<close>\<close>

text \<open>
  A generator: the frames it yields, then the exception it ends with, if any.
  \<open>read_library\<close> is \<^verbatim>\<open>netprotocols.read_captures\<close>, with the message of its
  \<^verbatim>\<open>MalformedCaptureError\<close>.
\<close>

datatype read_error = NotEthernet int | MalformedCapture pystr | HeaderUnpackError

type_synonym capture = "(bytes \<times> int) list"

definition read_captures ::
    "(bytes \<Rightarrow> capture \<times> pystr option) \<Rightarrow> bytes \<Rightarrow> capture \<times> read_error option" where
  "read_captures read_library data =
     (case declared_linktype data of
        Inl _ \<Rightarrow> ([], Some HeaderUnpackError)
      | Inr linktype \<Rightarrow>
          (case linktype of
             Some l \<Rightarrow>
               if l \<noteq> LINKTYPE_ETHERNET then ([], Some (NotEthernet l))
               else (case read_library data of (frames, e) \<Rightarrow> (frames, map_option MalformedCapture e))
           | None \<Rightarrow>
               (case read_library data of (frames, e) \<Rightarrow> (frames, map_option MalformedCapture e))))"

section \<open>\<^verbatim>\<open>read_pcap\<close> of the test suite\<close>

function read_pcap_loop :: "endian \<Rightarrow> bytes \<Rightarrow> nat \<Rightarrow> bytes list \<Rightarrow> struct_error + bytes list" where
  "read_pcap_loop e data cursor frames =
     (if cursor + 16 \<le> length data then
        then_do (unpack_from e [F_I] data (cursor + 8)) (\<lambda>fields.
          let incl_len = nat (fields ! 0); cursor = cursor + 16
          in read_pcap_loop e data (cursor + incl_len)
               (frames @ [py_slice data cursor (cursor + incl_len)]))
      else Inr frames)"
  by pat_completeness auto
termination
  by (relation "measure (\<lambda>(e, data, cursor, frames). length data - cursor)") auto

declare read_pcap_loop.simps [simp del]

definition read_pcap :: "bytes \<Rightarrow> struct_error + bytes list" where
  "read_pcap data =
     (let magic = py_slice data 0 4
      in if magic \<in> set [[0xA1, 0xB2, 0xC3, 0xD4], [0xA1, 0xB2, 0x3C, 0x4D]]
         then read_pcap_loop Big data 24 []
         else if magic \<in> set [[0xD4, 0xC3, 0xB2, 0xA1], [0x4D, 0x3C, 0xB2, 0xA1]]
         then read_pcap_loop Little data 24 []
         else Inl StructError)"

section \<open>The link-type check always returns\<close>

lemma unpack_from_fits:
  "off + calcsize fs \<le> length bs \<Longrightarrow> unpack_from e fs bs off = Inr (unpack_fields e fs (drop off bs))"
  by (simp add: unpack_from_def)

lemma pcapng_loop_total: "\<exists>r. pcapng_loop data e found cursor = Inr r"
proof (induction data e found cursor rule: pcapng_loop.induct)
  case (1 data endian0 found cursor)
  show ?case
  proof (cases "cursor + 8 \<le> length data \<and> block_endian data cursor endian0 \<noteq> None")
    case False
    then show ?thesis
      by (auto simp: pcapng_loop.simps [of data endian0 found cursor])
  next
    case True
    then obtain e where e: "cursor + 8 \<le> length data" "block_endian data cursor endian0 = Some e"
      by blast
    have u: "unpack_from e [F_I, F_I] data cursor = Inr (unpack_fields e [F_I, F_I] (drop cursor data))"
      using e(1) by (simp add: unpack_from_fits)
    let ?fields = "unpack_fields e [F_I, F_I] (drop cursor data)"
    let ?len = "nat (?fields ! 1)"
    have h: "unpack_from e [F_H] data (cursor + 8) = Inr (unpack_fields e [F_H] (drop (cursor + 8) data))"
      if "16 \<le> ?len" "cursor + ?len \<le> length data"
      using that by (intro unpack_from_fits) simp
    show ?thesis
      using "1.IH"(1) [OF e u refl refl] "1.IH"(2) [OF e u refl refl] e u h
      by (simp add: pcapng_loop.simps [of data endian0 found cursor] Let_def)
  qed
qed

lemma declared_linktype_total: "\<exists>r. declared_linktype data = Inr r"
  using pcapng_loop_total
  by (auto simp: declared_linktype_def pcapng_linktype_def Let_def unpack_from_fits GLOBAL_HEADER_def)

lemma read_captures_cases:
  "(\<exists>l. declared_linktype data = Inr (Some l) \<and> l \<noteq> 1 \<and>
      read_captures lib data = ([], Some (NotEthernet l))) \<or>
   (declared_linktype data \<in> {Inr None, Inr (Some 1)} \<and>
      read_captures lib data = (fst (lib data), map_option MalformedCapture (snd (lib data))))"
proof -
  obtain r where "declared_linktype data = Inr r" using declared_linktype_total by blast
  then show ?thesis
    by (cases r) (auto simp: read_captures_def LINKTYPE_ETHERNET_def split: prod.splits)
qed

section \<open>Writing and reading back\<close>

definition pcap_header :: bytes where
  "pcap_header =
     [0x4D, 0x3C, 0xB2, 0xA1, 2, 0, 4, 0, 0, 0, 0, 0, 0, 0, 0, 0, 0x0E, 0, 1, 0, 1, 0, 0, 0]"

lemma length_pcap_header [simp]: "length pcap_header = 24"
  by (simp add: pcap_header_def)

lemma new_PcapWriter_header:
  "new_PcapWriter = Inr \<lparr>pcap_file = pcap_header, pcap_closed = False\<rparr>"
  by (simp add: new_PcapWriter_def pcap_header_def GLOBAL_HEADER_def MAGIC_NANOSECONDS_def SNAPLEN_def
      LINKTYPE_ETHERNET_def pack1_def to_le_numeral)

text \<open>
  One record header, \<^verbatim>\<open>(ts_sec, ts_nsec, incl_len, orig_len)\<close>, as a fixed-size codec.
\<close>

type_synonym record_header = "int \<times> int \<times> int \<times> int"

fun pack_record_header :: "record_header \<Rightarrow> struct_error + bytes" where
  "pack_record_header (s, n, i, j) = pack Little RECORD_HEADER [s, n, i, j]"

definition unpack_record_header :: "bytes \<Rightarrow> record_header" where
  "unpack_record_header bs =
     (case unpack_fields Little RECORD_HEADER bs of
        [s, n, i, j] \<Rightarrow> (s, n, i, j)
      | _ \<Rightarrow> (0, 0, 0, 0))"

interpretation record_codec: fixed_codec pack_record_header unpack_record_header 16
proof
  fix r b
  assume "pack_record_header r = Inr b"
  then show "length b = 16"
    using pack_length [of Little RECORD_HEADER] by (cases r) (auto simp del: pack.simps simp: RECORD_HEADER_def)
next
  fix r b tail
  assume "pack_record_header r = Inr b"
  then show "unpack_record_header (b @ tail) = r"
    by (cases r) (simp add: unpack_record_header_def unpack_fields_pack del: pack.simps)
qed

text \<open>The frames a record can hold: a timestamp below 2^32 seconds, a length below 2^32.\<close>

definition record_fits :: "bytes \<times> int \<Rightarrow> bool" where
  "record_fits r \<longleftrightarrow>
     0 \<le> snd r \<and> snd r < 4294967296 * 1000000000 \<and> length (fst r) < 4294967296"

definition frame_header :: "bytes \<times> int \<Rightarrow> record_header" where
  "frame_header r =
     (snd r div 1000000000, snd r mod 1000000000, int (length (fst r)), int (length (fst r)))"

lemma record_fits_header: "(\<exists>h. pack_record_header (frame_header r) = Inr h) \<longleftrightarrow> record_fits r"
proof -
  have "snd r mod 1000000000 < 4294967296" "0 \<le> snd r mod 1000000000"
    using pos_mod_bound [of 1000000000 "snd r"] by simp_all
  moreover have "snd r div 1000000000 < 4294967296 \<longleftrightarrow> snd r < 4294967296 * 1000000000"
    by (auto simp: div_less_iff_less_mult)
  moreover have "0 \<le> snd r div 1000000000 \<longleftrightarrow> 0 \<le> snd r"
    by (simp add: pos_imp_zdiv_nonneg_iff)
  ultimately show ?thesis
    by (auto simp: frame_header_def record_fits_def pack_Inr_iff RECORD_HEADER_def)
qed

text \<open>\<open>write\<close> on an open file appends the header and the data, or raises and writes nothing.\<close>

lemma pcap_write_open:
  "\<not> pcap_closed w \<Longrightarrow> pcap_write data (Some ts) now w =
     (case pack_record_header (frame_header (data, ts)) of
        Inl _ \<Rightarrow> Inl PackError
      | Inr h \<Rightarrow> Inr (w\<lparr>pcap_file := pcap_file w @ h @ data\<rparr>))"
  by (simp add: pcap_write_def frame_header_def Let_def split: sum.split)

fun write_all :: "(bytes \<times> int) list \<Rightarrow> PcapWriter \<Rightarrow> pcap_error + PcapWriter" where
  "write_all [] w = Inr w"
| "write_all ((data, ts) # frames) w =
     then_do (pcap_write data (Some ts) 0 w) (\<lambda>w. write_all frames w)"

definition record_bytes :: "bytes \<times> int \<Rightarrow> bytes" where
  "record_bytes r =
     (case pack_record_header (frame_header r) of Inl _ \<Rightarrow> [] | Inr h \<Rightarrow> h @ fst r)"

lemma write_all_file:
  "\<not> pcap_closed w \<Longrightarrow> list_all record_fits frames \<Longrightarrow>
     write_all frames w = Inr (w\<lparr>pcap_file := pcap_file w @ concat (map record_bytes frames)\<rparr>)"
proof (induction frames w rule: write_all.induct)
  case (2 data ts frames w)
  then obtain h where h: "pack_record_header (frame_header (data, ts)) = Inr h"
    using record_fits_header [of "(data, ts)"] by auto
  let ?w = "w\<lparr>pcap_file := pcap_file w @ h @ data\<rparr>"
  have w: "pcap_write data (Some ts) 0 w = Inr ?w"
    using 2 h by (simp add: pcap_write_open)
  from "2.IH" [OF w] 2 w h show ?case by (simp add: record_bytes_def)
qed simp

lemma write_all_Inr:
  "\<not> pcap_closed w \<Longrightarrow> (\<exists>w'. write_all frames w = Inr w') \<longleftrightarrow> list_all record_fits frames"
proof (induction frames w rule: write_all.induct)
  case (2 data ts frames w)
  show ?case
  proof (cases "pack_record_header (frame_header (data, ts))")
    case (Inl e)
    then have "\<not> record_fits (data, ts)" by (metis Inr_Inl_False record_fits_header)
    with Inl 2 show ?thesis by (simp add: pcap_write_open)
  next
    case (Inr h)
    then have "record_fits (data, ts)" using record_fits_header by blast
    with Inr 2 show ?thesis by (simp add: pcap_write_open)
  qed
qed simp

text \<open>Reading the records, with their times, from a position of the file.\<close>

function read_records :: "bytes \<Rightarrow> (bytes \<times> int) list" where
  "read_records data =
     (if length data < 16 then []
      else case unpack_record_header data of (sec, nsec, incl, orig) \<Rightarrow>
        (py_slice data 16 (16 + nat incl), sec * 1000000000 + nsec) #
          read_records (drop (16 + nat incl) data))"
  by pat_completeness auto
termination
  by (relation "measure length") auto

declare read_records.simps [simp del]

lemma record_bytes_read:
  assumes "record_fits r"
  shows "read_records (record_bytes r @ post) = r # read_records post"
    and "16 \<le> length (record_bytes r)"
    and "\<exists>h. record_bytes r = h @ fst r \<and> length h = 16 \<and>
           unpack_from Little [F_I] (pre @ record_bytes r @ post) (length pre + 8) =
             Inr [int (length (fst r))]"
proof -
  from assms obtain h where h: "pack_record_header (frame_header r) = Inr h"
    using record_fits_header by blast
  have len: "length h = 16" by (rule record_codec.enc_length [OF h])
  have b: "record_bytes r = h @ fst r" using h by (simp add: record_bytes_def)
  have u: "unpack_record_header (h @ tail) = frame_header r" for tail
    by (rule record_codec.dec_enc [OF h])
  show "read_records (record_bytes r @ post) = r # read_records post"
    using len u [of "fst r @ post"]
    by (subst read_records.simps) (simp add: b frame_header_def py_slice_def)
  show "16 \<le> length (record_bytes r)" using b len by simp
  have "unpack_fields Little [F_I] (drop 8 (h @ tail)) = [int (length (fst r))]" for tail
  proof -
    have "unpack_fields Little RECORD_HEADER (h @ tail) =
        [snd r div 1000000000, snd r mod 1000000000, int (length (fst r)), int (length (fst r))]"
      using unpack_fields_pack [OF h [unfolded frame_header_def pack_record_header.simps]] by simp
    then show ?thesis using len by (simp add: RECORD_HEADER_def)
  qed
  then show "\<exists>h. record_bytes r = h @ fst r \<and> length h = 16 \<and>
      unpack_from Little [F_I] (pre @ record_bytes r @ post) (length pre + 8) = Inr [int (length (fst r))]"
    using b len by (auto simp: unpack_from_def)
qed

lemma read_records_all:
  "list_all record_fits frames \<Longrightarrow> read_records (concat (map record_bytes frames)) = frames"
proof (induction frames)
  case Nil
  show ?case by (simp add: read_records.simps)
qed (simp add: record_bytes_read(1))

lemma read_pcap_loop_record:
  assumes "record_fits r"
  shows "read_pcap_loop Little (pre @ record_bytes r @ post) (length pre) acc =
    read_pcap_loop Little (pre @ record_bytes r @ post) (length (pre @ record_bytes r)) (acc @ [fst r])"
proof -
  from record_bytes_read(3) [OF assms, of pre post] obtain h where
    h: "record_bytes r = h @ fst r" "length h = 16"
      "unpack_from Little [F_I] (pre @ record_bytes r @ post) (length pre + 8) = Inr [int (length (fst r))]"
    by blast
  then show ?thesis
    by (subst read_pcap_loop.simps) (simp add: py_slice_def add.assoc)
qed

lemma read_pcap_loop_all:
  "list_all record_fits frames \<Longrightarrow>
     read_pcap_loop Little (pre @ concat (map record_bytes frames)) (length pre) acc =
       Inr (acc @ map fst frames)"
proof (induction frames arbitrary: pre acc)
  case Nil
  show ?case by (simp add: read_pcap_loop.simps)
next
  case (Cons r frames)
  have "read_pcap_loop Little (pre @ concat (map record_bytes (r # frames))) (length pre) acc =
      read_pcap_loop Little ((pre @ record_bytes r) @ concat (map record_bytes frames))
        (length (pre @ record_bytes r)) (acc @ [fst r])"
    using Cons.prems read_pcap_loop_record [of r pre "concat (map record_bytes frames)" acc] by simp
  also have "\<dots> = Inr (acc @ map fst (r # frames))"
    using Cons.prems Cons.IH [of "pre @ record_bytes r" "acc @ [fst r]"] by simp
  finally show ?case .
qed

text \<open>A file the writer made: its link type is Ethernet, and both readers give the frames back.\<close>

definition written :: "(bytes \<times> int) list \<Rightarrow> pcap_error + bytes" where
  "written frames =
     (case new_PcapWriter of
        Inl _ \<Rightarrow> Inl PackError
      | Inr w \<Rightarrow> then_do (write_all frames w) (\<lambda>w. Inr (pcap_file (pcap_close w))))"

lemma written_Inr:
  "written frames = Inr file \<longleftrightarrow>
     list_all record_fits frames \<and> file = pcap_header @ concat (map record_bytes frames)"
proof (cases "list_all record_fits frames")
  case True
  then show ?thesis
    using write_all_file [of "\<lparr>pcap_file = pcap_header, pcap_closed = False\<rparr>" frames]
    by (auto simp: written_def new_PcapWriter_header pcap_close_def)
next
  case False
  then show ?thesis
    using write_all_Inr [of "\<lparr>pcap_file = pcap_header, pcap_closed = False\<rparr>" frames]
    by (auto simp: written_def new_PcapWriter_header then_do_Inr_iff)
qed

lemma write_all_error: "\<not> pcap_closed w \<Longrightarrow> write_all frames w = Inl err \<Longrightarrow> err = PackError"
proof (induction frames w rule: write_all.induct)
  case (2 data ts frames w)
  show ?case
  proof (cases "pack_record_header (frame_header (data, ts))")
    case (Inl e)
    then show ?thesis using 2 by (simp add: pcap_write_open)
  next
    case (Inr h)
    then have "pcap_write data (Some ts) 0 w = Inr (w\<lparr>pcap_file := pcap_file w @ h @ data\<rparr>)"
      using 2 by (simp add: pcap_write_open)
    with "2.IH" [OF this] 2 show ?thesis by simp
  qed
qed simp

lemma written_error: "written frames = Inl err \<Longrightarrow> err = PackError"
  by (auto simp: written_def new_PcapWriter_header then_do_Inl_iff dest: write_all_error [rotated])

lemma written_read_back:
  assumes "written frames = Inr file"
  shows "read_pcap file = Inr (map fst frames) \<and> read_records (drop 24 file) = frames \<and>
     declared_linktype file = Inr (Some 1)"
proof -
  from assms have fits: "list_all record_fits frames"
    and layout: "file = pcap_header @ concat (map record_bytes frames)"
    by (simp_all add: written_Inr)
  have "py_slice file 0 4 = [0x4D, 0x3C, 0xB2, 0xA1]" "unpack_from Little [F_I] file 20 = Inr [1]"
    by (simp_all add: layout pcap_header_def py_slice_def unpack_from_def unpack1_def)
  then show ?thesis
    using read_pcap_loop_all [OF fits, of pcap_header "[]"] read_records_all [OF fits]
    by (simp add: read_pcap_def declared_linktype_def PCAP_MAGICS_def PCAP_MAGICS_LE_def
        GLOBAL_HEADER_def Let_def layout)
qed

text \<open>
  An exception in the body of the context manager leaves a closed file of the frames before
  it, itself a file the writer makes.
\<close>

lemma write_each_file:
  "\<not> pcap_closed w \<Longrightarrow> write_each frames w =
     (if list_all record_fits frames then None else Some PackError,
      w\<lparr>pcap_file := pcap_file w @ concat (map record_bytes (takeWhile record_fits frames))\<rparr>)"
proof (induction frames w rule: write_each.induct)
  case (2 data ts frames w)
  show ?case
  proof (cases "pack_record_header (frame_header (data, ts))")
    case (Inl e)
    then have "\<not> record_fits (data, ts)" using record_fits_header [of "(data, ts)"] by auto
    with Inl 2 show ?thesis by (simp add: pcap_write_open)
  next
    case (Inr h)
    let ?w = "w\<lparr>pcap_file := pcap_file w @ h @ data\<rparr>"
    have fits: "record_fits (data, ts)" using Inr record_fits_header by blast
    have w: "pcap_write data (Some ts) 0 w = Inr ?w" using Inr 2 by (simp add: pcap_write_open)
    from "2.IH" [OF w] 2 w fits Inr show ?thesis by (simp add: record_bytes_def)
  qed
qed simp

lemma with_writer:
  "with_PcapWriter (write_each frames) =
     Inr (if list_all record_fits frames then None else Some PackError,
          \<lparr>pcap_file = pcap_header @ concat (map record_bytes (takeWhile record_fits frames)),
           pcap_closed = True\<rparr>)"
  by (simp add: with_PcapWriter_def new_PcapWriter_header PcapWriter_enter_def PcapWriter_exit_def
      write_each_file pcap_close_def)

lemma written_prefix:
  "written (takeWhile record_fits frames) =
     Inr (pcap_header @ concat (map record_bytes (takeWhile record_fits frames)))"
  by (simp add: written_Inr list_all_iff) (meson set_takeWhileD)

end
