(* ===== verification/Py_Format.thy ===== *)
theory Py_Format
  imports Py_Regex
begin

text \<open>
  The formatting of Python values the outputs use: \<^verbatim>\<open>str(int)\<close>, \<^verbatim>\<open>{n:,}\<close>, \<^verbatim>\<open>{n:02x}\<close>,
  \<^verbatim>\<open>{n:#06x}\<close>, \<^verbatim>\<open>bytes.hex()\<close>, \<^verbatim>\<open>sep.join(...)\<close> and \<^verbatim>\<open>str.replace\<close> of one character.
\<close>

section \<open>Integers\<close>

definition MINUS :: pychar where "MINUS = 45"
definition NEWLINE :: pychar where "NEWLINE = 10"

definition str_int :: "int \<Rightarrow> pystr" where
  "str_int v = (if v < 0 then MINUS # decimal (nat (- v)) else decimal (nat v))"

text \<open>\<open>zero_pad w s\<close> is the \<^verbatim>\<open>0w\<close> of a format: zeros on the left up to width \<open>w\<close>.\<close>

definition zero_pad :: "nat \<Rightarrow> pystr \<Rightarrow> pystr" where
  "zero_pad w s = replicate (w - length s) 48 @ s"

definition hex_digit :: "nat \<Rightarrow> pychar" where
  "hex_digit d = (if d < 10 then 48 + d else 87 + d)"

definition hex_digit_value :: "pychar \<Rightarrow> nat" where
  "hex_digit_value c = (if c < 58 then c - 48 else c - 87)"

fun hex_digits :: "nat \<Rightarrow> pystr" where
  "hex_digits n =
     (if n < 16 then [hex_digit n] else hex_digits (n div 16) @ [hex_digit (n mod 16)])"

declare hex_digits.simps [simp del]

definition hex_value :: "pystr \<Rightarrow> nat" where
  "hex_value s = foldl (\<lambda>acc c. 16 * acc + hex_digit_value c) 0 s"

text \<open>\<^verbatim>\<open>f"{n:#06x}"\<close>: the width counts the prefix \<^verbatim>\<open>0x\<close>.\<close>

definition hex_prefixed :: "nat \<Rightarrow> nat \<Rightarrow> pystr" where
  "hex_prefixed w n = ascii ''0x'' @ zero_pad (w - 2) (hex_digits n)"

definition bytes_hex :: "bytes \<Rightarrow> pystr" where
  "bytes_hex bs = concat (map (\<lambda>b. zero_pad 2 (hex_digits (unat b))) bs)"

text \<open>\<^verbatim>\<open>f"{n:,}"\<close>: a comma before every third digit from the right.\<close>

fun group_thousands :: "pystr \<Rightarrow> pystr" where
  "group_thousands (a # b # c # d # rest) = a # b # c # 44 # group_thousands (d # rest)"
| "group_thousands s = s"

definition with_commas :: "nat \<Rightarrow> pystr" where
  "with_commas n = rev (group_thousands (rev (decimal n)))"

section \<open>Strings\<close>

fun join :: "pystr \<Rightarrow> pystr list \<Rightarrow> pystr" where
  "join sep [] = []"
| "join sep [s] = s"
| "join sep (s # t # ts) = s @ sep @ join sep (t # ts)"

definition replace_char :: "pychar \<Rightarrow> pystr \<Rightarrow> pystr \<Rightarrow> pystr" where
  "replace_char c new s = concat (map (\<lambda>d. if d = c then new else [d]) s)"

section \<open>Reading hexadecimal back\<close>

lemma hex_digit_value [simp]: "d < 16 \<Longrightarrow> hex_digit_value (hex_digit d) = d"
  by (simp add: hex_digit_value_def hex_digit_def)

lemma hex_value_snoc [simp]: "hex_value (s @ [c]) = 16 * hex_value s + hex_digit_value c"
  by (simp add: hex_value_def)

lemma hex_value_digits [simp]: "hex_value (hex_digits n) = n"
proof (induction n rule: hex_digits.induct)
  case (1 n)
  show ?case
  proof (cases "n < 16")
    case True
    then show ?thesis by (simp add: hex_digits.simps [of n] hex_value_def)
  next
    case False
    then show ?thesis using 1 by (simp add: hex_digits.simps [of n])
  qed
qed

lemma hex_value_zeros: "hex_value (replicate k 48 @ s) = hex_value s"
  by (induction k) (simp_all add: hex_value_def hex_digit_value_def)

lemma hex_value_zero_pad [simp]: "hex_value (zero_pad w (hex_digits n)) = n"
  by (simp add: zero_pad_def hex_value_zeros)

lemma length_hex_digits: "0 < k \<Longrightarrow> length (hex_digits n) \<le> k \<longleftrightarrow> n < 16 ^ k"
proof (induction n arbitrary: k rule: hex_digits.induct)
  case (1 n)
  show ?case
  proof (cases "n < 16")
    case True
    then have "n < 16 ^ k" using "1.prems" self_le_power [of "16 :: nat" k] by (simp add: order_less_le_trans)
    then show ?thesis using True "1.prems" by (simp add: hex_digits.simps [of n])
  next
    case False
    obtain j where k: "k = Suc j" using "1.prems" by (cases k) auto
    show ?thesis
    proof (cases "j = 0")
      case True
      have "hex_digits (n div 16) \<noteq> []" by (subst hex_digits.simps) simp
      then show ?thesis using False True k by (simp add: hex_digits.simps [of n])
    next
      case j: False
      have "n div 16 < 16 ^ j \<longleftrightarrow> n < 16 ^ k" by (simp add: k div_less_iff_less_mult mult.commute)
      then show ?thesis using False j k "1.IH" [OF False, of j] by (simp add: hex_digits.simps [of n])
    qed
  qed
qed

lemma length_zero_pad: "length (zero_pad w s) = max w (length s)"
  by (simp add: zero_pad_def)

lemma length_byte_hex [simp]: "length (zero_pad 2 (hex_digits (unat (b :: byte)))) = 2"
proof -
  have "unat b < 16 ^ 2" using unsigned_less [of b] by simp
  then show ?thesis using length_hex_digits [of 2 "unat b"] by (simp add: length_zero_pad)
qed

text \<open>What formatting produces is printable ASCII.\<close>

definition ascii_printable :: "pychar \<Rightarrow> bool" where
  "ascii_printable c \<longleftrightarrow> 32 \<le> c \<and> c < 127"

lemma hex_digit_printable [simp]: "d < 16 \<Longrightarrow> ascii_printable (hex_digit d)"
  by (simp add: ascii_printable_def hex_digit_def)

lemma hex_digits_printable: "\<forall>c \<in> set (hex_digits n). ascii_printable c"
proof (induction n rule: hex_digits.induct)
  case (1 n)
  then show ?case by (cases "n < 16") (auto simp: hex_digits.simps [of n])
qed

lemma zero_pad_printable: "\<forall>c \<in> set s. ascii_printable c \<Longrightarrow> \<forall>c \<in> set (zero_pad w s). ascii_printable c"
  by (auto simp: zero_pad_def ascii_printable_def)

lemma decimal_printable: "\<forall>c \<in> set (decimal n). ascii_printable c"
  using decimal_digits [of n] by (auto simp: ascii_printable_def)

lemma str_int_printable: "\<forall>c \<in> set (str_int v). ascii_printable c"
  using decimal_printable by (auto simp: str_int_def MINUS_def ascii_printable_def)

lemma bytes_hex_printable: "\<forall>c \<in> set (bytes_hex bs). ascii_printable c"
  using zero_pad_printable [OF hex_digits_printable] by (auto simp: bytes_hex_def)

lemma length_bytes_hex: "length (bytes_hex bs) = 2 * length bs"
  by (induction bs) (simp_all add: bytes_hex_def)

text \<open>\<^verbatim>\<open>bytes.fromhex\<close> undoes \<^verbatim>\<open>bytes.hex\<close>.\<close>

fun bytes_fromhex :: "pystr \<Rightarrow> bytes" where
  "bytes_fromhex (a # b # s) = of_nat (hex_value [a, b]) # bytes_fromhex s"
| "bytes_fromhex _ = []"

lemma bytes_fromhex_hex: "bytes_fromhex (bytes_hex bs) = bs"
proof (induction bs)
  case Nil
  show ?case by (simp add: bytes_hex_def)
next
  case (Cons b bs)
  obtain x y where xy: "zero_pad 2 (hex_digits (unat b)) = [x, y]"
    using length_byte_hex [of b] by (auto simp: numeral_2_eq_2 length_Suc_conv)
  with hex_value_zero_pad [of 2 "unat b"] have "hex_value [x, y] = unat b" by simp
  with Cons xy show ?case by (simp add: bytes_hex_def)
qed

lemma set_join: "set (join sep xs) \<subseteq> set sep \<union> (\<Union>s \<in> set xs. set s)"
  by (induction sep xs rule: join.induct) auto

lemma join_forall: "\<forall>c \<in> set sep. P c \<Longrightarrow> \<forall>s \<in> set xs. \<forall>c \<in> set s. P c \<Longrightarrow> \<forall>c \<in> set (join sep xs). P c"
  using set_join [of sep xs] by blast

end
