(* ===== verification/Output.thy ===== *)
theory Output
  imports Decoder Pcap Py_Format
begin

text \<open>
  \<^verbatim>\<open>src/rootwire/output.py\<close>, the parts every output shares: the text made safe for a
  terminal, the helpers of the renderers, and the \<^verbatim>\<open>Output\<close> interface with two of its
  implementations, \<^verbatim>\<open>OutputToPcap\<close> and \<^verbatim>\<open>StatsCollector\<close>.
\<close>

section \<open>Text for the terminal\<close>

text \<open>
  \<open>isprintable\<close> is \<^verbatim>\<open>str.isprintable\<close> of one character, a table of the Unicode database;
  what is used of it is that it holds of printable ASCII.
\<close>

definition escape_char :: "pychar \<Rightarrow> pystr" where
  "escape_char code =
     (if code \<le> 0xFF then [92, 120] @ zero_pad 2 (hex_digits code)
      else [92, 117] @ zero_pad 4 (hex_digits code))"

definition sanitize_for_terminal :: "(pychar \<Rightarrow> bool) \<Rightarrow> pystr \<Rightarrow> pystr" where
  "sanitize_for_terminal isprintable text =
     concat (map (\<lambda>char. if char = NEWLINE \<or> isprintable char then [char] else escape_char char) text)"

definition terminal_safe :: "(pychar \<Rightarrow> bool) \<Rightarrow> pystr \<Rightarrow> bool" where
  "terminal_safe isprintable s \<longleftrightarrow> (\<forall>c \<in> set s. c = NEWLINE \<or> isprintable c)"

definition printable_ascii_table :: "(pychar \<Rightarrow> bool) \<Rightarrow> bool" where
  "printable_ascii_table isprintable \<longleftrightarrow> (\<forall>c. ascii_printable c \<longrightarrow> isprintable c)"

lemma escape_char_printable: "\<forall>c \<in> set (escape_char code). ascii_printable c"
  using zero_pad_printable [OF hex_digits_printable] by (auto simp: escape_char_def ascii_printable_def)

lemma sanitize_safe:
  assumes "printable_ascii_table isprintable"
  shows "terminal_safe isprintable (sanitize_for_terminal isprintable cs)"
  using assms escape_char_printable
  by (fastforce simp: terminal_safe_def sanitize_for_terminal_def printable_ascii_table_def split: if_splits)

lemma sanitize_id: "terminal_safe isprintable cs \<Longrightarrow> sanitize_for_terminal isprintable cs = cs"
  by (induction cs) (simp_all add: sanitize_for_terminal_def terminal_safe_def)

lemma sanitize_idempotent:
  "printable_ascii_table isprintable \<Longrightarrow>
     sanitize_for_terminal isprintable (sanitize_for_terminal isprintable cs) =
       sanitize_for_terminal isprintable cs"
  by (simp add: sanitize_id sanitize_safe)

lemma sanitize_append:
  "sanitize_for_terminal p (s @ t) = sanitize_for_terminal p s @ sanitize_for_terminal p t"
  by (simp add: sanitize_for_terminal_def)

lemma escape_no_newline: "NEWLINE \<notin> set (escape_char code)"
  using escape_char_printable [of code] by (auto simp: NEWLINE_def ascii_printable_def)

text \<open>The line structure stays: as many newlines as before.\<close>

lemma sanitize_newlines:
  "length (filter (\<lambda>c. c = NEWLINE) (sanitize_for_terminal p cs)) = length (filter (\<lambda>c. c = NEWLINE) cs)"
proof (induction cs)
  case Nil
  show ?case by (simp add: sanitize_for_terminal_def)
next
  case (Cons c cs)
  have "filter (\<lambda>c. c = NEWLINE) (escape_char c) = []"
    using escape_no_newline [of c] by (metis (mono_tags, lifting) filter_False)
  then show ?case using Cons by (simp add: sanitize_for_terminal_def)
qed

text \<open>An escape names the character it stands for, with two, four, five or six digits.\<close>

lemma escape_char_value: "hex_value (drop 2 (escape_char code)) = code"
  by (simp add: escape_char_def)

lemma escape_char_length:
  "length (escape_char code) = (if code \<le> 0xFF then 4 else 2 + max 4 (length (hex_digits code)))"
proof -
  have "code \<le> 0xFF \<Longrightarrow> length (hex_digits code) \<le> 2"
    using length_hex_digits [of 2 code] by simp
  then show ?thesis by (auto simp: escape_char_def length_zero_pad)
qed

section \<open>Helpers of the renderers\<close>

text \<open>
  \<^verbatim>\<open>option.value\<close> with its \<^verbatim>\<open>str()\<close>: nothing decoded, a tuple, or any other value.
\<close>

datatype option_value = No_value | Tuple_value pystr | Plain_value pystr

record tlv_option =
  kind_name :: pystr
  option_data :: bytes
  option_val :: option_value

definition format_option :: "tlv_option \<Rightarrow> pystr" where
  "format_option opt =
     (case option_val opt of
        No_value \<Rightarrow>
          if option_data opt \<noteq> []
          then kind_name opt @ ascii '' ('' @ decimal (length (option_data opt)) @ ascii '' bytes)''
          else kind_name opt
      | Tuple_value v \<Rightarrow> kind_name opt @ ascii '' '' @ v
      | Plain_value v \<Rightarrow> kind_name opt @ ascii '' ('' @ v @ ascii '')'')"

text \<open>
  \<^verbatim>\<open>candidate is layer\<close> compares objects: the layers of a frame are the objects of the
  model, so identity is equality of \<open>'l\<close>.
\<close>

fun trailing_from :: "'l netprotocols \<Rightarrow> 'l DecodedFrame \<Rightarrow> 'l \<Rightarrow> nat \<Rightarrow> 'l list \<Rightarrow> bytes" where
  "trailing_from np frame layer cursor [] = frame_payload frame"
| "trailing_from np frame layer cursor (candidate # ls) =
     (if candidate = layer then drop (cursor + header_len np candidate) (frame_raw frame)
      else trailing_from np frame layer (cursor + header_len np candidate) ls)"

definition trailing_bytes :: "'l netprotocols \<Rightarrow> 'l DecodedFrame \<Rightarrow> 'l \<Rightarrow> bytes" where
  "trailing_bytes np frame layer = trailing_from np frame layer 0 (frame_layers frame)"

definition is_fragmented :: "'l netprotocols \<Rightarrow> 'l DecodedFrame \<Rightarrow> bool" where
  "is_fragmented np frame =
     (case frame_layer np frame IPv4_class of
        Some ipv4 \<Rightarrow>
          odd (ip_flags np ipv4) \<or> fragment_offset np ipv4 > 0 \<or>
          list_ex (\<lambda>layer. isinstance_of np layer IPv6Fragment_class) (frame_layers frame)
      | None \<Rightarrow> list_ex (\<lambda>layer. isinstance_of np layer IPv6Fragment_class) (frame_layers frame))"

text \<open>
  \<open>verify\<close> and \<open>compute\<close> are the library's, each with its \<^verbatim>\<open>InvalidFieldError\<close>.
\<close>

datatype invalid_field = InvalidFieldError pystr

definition checksum_note ::
    "('l \<Rightarrow> 'l option \<Rightarrow> bytes \<Rightarrow> invalid_field + bool) \<Rightarrow> ('l \<Rightarrow> 'l option \<Rightarrow> bytes \<Rightarrow> invalid_field + nat) \<Rightarrow>
     'l \<Rightarrow> 'l option \<Rightarrow> bytes \<Rightarrow> pystr" where
  "checksum_note verify compute layer ip payload =
     (case verify layer ip payload of
        Inl _ \<Rightarrow> []
      | Inr True \<Rightarrow> []
      | Inr False \<Rightarrow>
          (case compute layer ip payload of
             Inl _ \<Rightarrow> []
           | Inr expected \<Rightarrow> ascii '' [!] mismatch (expected '' @ hex_prefixed 6 expected @ ascii '')''))"

lemma checksum_note_shown:
  "checksum_note verify compute layer ip payload \<noteq> [] \<longleftrightarrow>
     verify layer ip payload = Inr False \<and> (\<exists>expected. compute layer ip payload = Inr expected)"
  by (auto simp: checksum_note_def split: sum.splits bool.splits)

lemma is_fragmented_iff:
  "is_fragmented np frame \<longleftrightarrow>
     (\<exists>ip. frame_layer np frame IPv4_class = Some ip \<and> (odd (ip_flags np ip) \<or> 0 < fragment_offset np ip)) \<or>
     (\<exists>l \<in> set (frame_layers frame). isinstance_of np l IPv6Fragment_class)"
  by (auto simp: is_fragmented_def list_ex_iff split: option.splits)

text \<open>The bytes behind the layer at position \<open>i\<close>: the frame less the headers up to it.\<close>

lemma trailing_from_at:
  "distinct ls \<Longrightarrow> i < length ls \<Longrightarrow>
     trailing_from np frame (ls ! i) cursor ls =
       drop (cursor + sum_list (map (header_len np) (take (Suc i) ls))) (frame_raw frame)"
proof (induction ls arbitrary: i cursor)
  case Nil
  then show ?case by simp
next
  case (Cons l ls)
  show ?case
  proof (cases i)
    case 0
    then show ?thesis by simp
  next
    case (Suc j)
    then have "l \<noteq> ls ! j" using Cons.prems by auto
    then show ?thesis using Cons Suc by (simp add: add.assoc)
  qed
qed

lemma trailing_bytes_at:
  "distinct (frame_layers frame) \<Longrightarrow> i < length (frame_layers frame) \<Longrightarrow>
     trailing_bytes np frame (frame_layers frame ! i) =
       drop (sum_list (map (header_len np) (take (Suc i) (frame_layers frame)))) (frame_raw frame)"
  using trailing_from_at [of "frame_layers frame" i np frame 0] by (simp add: trailing_bytes_def)

end
