(* ===== verification/Py_Repr.thy ===== *)
theory Py_Repr
  imports Py_Format
begin

text \<open>
  Python's \<^verbatim>\<open>repr\<close> of a string (the \<^verbatim>\<open>!r\<close> of the error messages), the reader of such a
  literal, and that it gives the string back. \<open>isprintable\<close> is \<^verbatim>\<open>str.isprintable\<close> of one
  character.
\<close>

section \<open>The literal\<close>

definition SINGLE_QUOTE :: pychar where "SINGLE_QUOTE = 39"
definition DOUBLE_QUOTE :: pychar where "DOUBLE_QUOTE = 34"
definition BACKSLASH :: pychar where "BACKSLASH = 92"

lemmas quote_defs = SINGLE_QUOTE_def DOUBLE_QUOTE_def BACKSLASH_def

text \<open>Double quotes only around a text with single quotes and no double ones.\<close>

definition repr_quote :: "pystr \<Rightarrow> pychar" where
  "repr_quote s = (if SINGLE_QUOTE \<in> set s \<and> DOUBLE_QUOTE \<notin> set s then DOUBLE_QUOTE else SINGLE_QUOTE)"

definition repr_char :: "(pychar \<Rightarrow> bool) \<Rightarrow> pychar \<Rightarrow> pychar \<Rightarrow> pystr" where
  "repr_char isprintable q c =
     (if c = q \<or> c = BACKSLASH then [BACKSLASH, c]
      else if c = 9 then BACKSLASH # ascii ''t''
      else if c = 10 then BACKSLASH # ascii ''n''
      else if c = 13 then BACKSLASH # ascii ''r''
      else if ascii_printable c \<or> 127 < c \<and> isprintable c then [c]
      else if c \<le> 0xFF then BACKSLASH # ascii ''x'' @ zero_pad 2 (hex_digits c)
      else if c \<le> 0xFFFF then BACKSLASH # ascii ''u'' @ zero_pad 4 (hex_digits c)
      else BACKSLASH # ascii ''U'' @ zero_pad 8 (hex_digits c))"

definition py_repr :: "(pychar \<Rightarrow> bool) \<Rightarrow> pystr \<Rightarrow> pystr" where
  "py_repr isprintable s =
     repr_quote s # concat (map (repr_char isprintable (repr_quote s)) s) @ [repr_quote s]"

text \<open>Whatever the text, its literal holds only characters a terminal shows.\<close>

lemma repr_char_printable:
  assumes "c = q \<Longrightarrow> ascii_printable q"
  shows "\<forall>d \<in> set (repr_char isprintable q c). ascii_printable d \<or> isprintable d"
  using assms zero_pad_printable [OF hex_digits_printable, of 2 c]
    zero_pad_printable [OF hex_digits_printable, of 4 c] zero_pad_printable [OF hex_digits_printable, of 8 c]
  by (auto simp: repr_char_def ascii_printable_def quote_defs)

lemma repr_quote_cases: "repr_quote s = SINGLE_QUOTE \<or> repr_quote s = DOUBLE_QUOTE"
  by (simp add: repr_quote_def)

lemma repr_quote_printable [simp]: "ascii_printable (repr_quote s)"
  using repr_quote_cases [of s] by (auto simp: quote_defs ascii_printable_def)

lemma py_repr_printable: "\<forall>d \<in> set (py_repr isprintable s). ascii_printable d \<or> isprintable d"
  using repr_char_printable [of _ "repr_quote s" isprintable] by (auto simp: py_repr_def)

section \<open>Reading a literal\<close>

text \<open>The number of digits behind the letter of an escape.\<close>

definition escape_digits :: "pychar \<Rightarrow> nat" where
  "escape_digits e = (if e = 120 then 2 else if e = 117 then 4 else if e = 85 then 8 else 0)"

definition escape_letter :: "pychar \<Rightarrow> pychar" where
  "escape_letter e = (if e = 116 then 9 else if e = 110 then 10 else if e = 114 then 13 else e)"

fun literal_body :: "pychar \<Rightarrow> pystr \<Rightarrow> pystr option" where
  "literal_body q [] = None"
| "literal_body q [c] = (if c = q then Some [] else None)"
| "literal_body q (c # e # s) =
     (if c = q then None
      else if c = BACKSLASH then
        (case escape_digits e of
           0 \<Rightarrow> map_option (Cons (escape_letter e)) (literal_body q s)
         | Suc k \<Rightarrow> map_option (Cons (hex_value (take (Suc k) s))) (literal_body q (drop (Suc k) s)))
      else map_option (Cons c) (literal_body q (e # s)))"

definition py_literal :: "pystr \<Rightarrow> pystr option" where
  "py_literal s =
     (case s of
        [] \<Rightarrow> None
      | q # b \<Rightarrow> if q = SINGLE_QUOTE \<or> q = DOUBLE_QUOTE then literal_body q b else None)"

text \<open>A code point of Python.\<close>

definition code_point :: "pychar \<Rightarrow> bool" where
  "code_point c \<longleftrightarrow> c < 0x110000"

lemma literal_plain: "c \<noteq> q \<Longrightarrow> c \<noteq> BACKSLASH \<Longrightarrow> literal_body q (c # s) = map_option (Cons c) (literal_body q s)"
  by (cases s) auto

lemma literal_letter:
  "q \<noteq> BACKSLASH \<Longrightarrow> escape_digits e = 0 \<Longrightarrow>
     literal_body q (BACKSLASH # e # s) = map_option (Cons (escape_letter e)) (literal_body q s)"
  by simp

lemma literal_hex:
  assumes "q \<noteq> BACKSLASH" "escape_digits e = w" "0 < w" "length (hex_digits c) \<le> w"
  shows "literal_body q (BACKSLASH # e # zero_pad w (hex_digits c) @ s) = map_option (Cons c) (literal_body q s)"
proof -
  have "length (zero_pad w (hex_digits c)) = w" using assms(4) by (simp add: length_zero_pad)
  then show ?thesis using assms by (cases w) simp_all
qed

lemma literal_repr_char:
  assumes "q = SINGLE_QUOTE \<or> q = DOUBLE_QUOTE" "code_point c"
  shows "literal_body q (repr_char isprintable q c @ s) = map_option (Cons c) (literal_body q s)"
proof -
  note reads = literal_letter [of q _ s] literal_hex [of q 120 2 c s] literal_hex [of q 117 4 c s]
    literal_hex [of q 85 8 c s] literal_plain [of c q s]
  have q: "q \<noteq> BACKSLASH" "escape_digits q = 0" "escape_letter q = q"
    "escape_digits BACKSLASH = 0" "escape_letter BACKSLASH = BACKSLASH"
    using assms(1) by (auto simp: quote_defs escape_digits_def escape_letter_def)
  have e: "escape_digits 116 = 0" "escape_digits 110 = 0" "escape_digits 114 = 0"
    "escape_letter 116 = 9" "escape_letter 110 = 10" "escape_letter 114 = 13"
    "escape_digits 120 = 2" "escape_digits 117 = 4" "escape_digits 85 = 8"
    by (simp_all add: escape_digits_def escape_letter_def)
  have l: "length (hex_digits c) \<le> 8" "c \<le> 0xFFFF \<Longrightarrow> length (hex_digits c) \<le> 4"
    "c \<le> 0xFF \<Longrightarrow> length (hex_digits c) \<le> 2"
    using assms(2) length_hex_digits [of 8 c] length_hex_digits [of 4 c] length_hex_digits [of 2 c]
    by (simp_all add: code_point_def)
  show ?thesis
    using l by (simp add: repr_char_def reads q e del: literal_body.simps)
qed

lemma literal_body_repr:
  assumes "q = SINGLE_QUOTE \<or> q = DOUBLE_QUOTE"
  shows "list_all code_point s \<Longrightarrow> literal_body q (concat (map (repr_char isprintable q) s) @ [q]) = Some s"
proof (induction s)
  case Nil
  show ?case by simp
next
  case (Cons c s)
  then show ?case by (simp add: literal_repr_char [OF assms] del: literal_body.simps)
qed

theorem py_literal_repr: "list_all code_point s \<Longrightarrow> py_literal (py_repr isprintable s) = Some s"
  unfolding py_literal_def py_repr_def list.case
  by (simp only: repr_quote_cases if_True literal_body_repr)

lemma py_repr_inject:
  assumes "list_all code_point s" "list_all code_point t" "py_repr isprintable s = py_repr isprintable t"
  shows "s = t"
proof -
  have "Some s = py_literal (py_repr isprintable t)"
    unfolding assms(3) [symmetric] by (rule py_literal_repr [OF assms(1), symmetric])
  also have "\<dots> = Some t" by (rule py_literal_repr [OF assms(2)])
  finally show ?thesis by (rule option.inject [THEN iffD1])
qed

end
