(* ===== verification/Bpf_Messages.thy ===== *)
theory Bpf_Messages
  imports Bpf_Correct Output Py_Repr "HOL-Library.Sublist"
begin

text \<open>
  The texts of the errors of \<^verbatim>\<open>src/rootwire/bpf_compiler.py\<close>, which \<^verbatim>\<open>main\<close> prints for a bad
  \<^verbatim>\<open>--filter\<close>: what they show of the expression, and that they are one line of printable
  text whatever the expression holds.
\<close>

section \<open>The messages\<close>

text \<open>\<^verbatim>\<open>_Parser._error\<close>\<close>

definition parser_error_text :: "(pychar \<Rightarrow> bool) \<Rightarrow> pystr \<Rightarrow> pystr \<Rightarrow> pystr" where
  "parser_error_text isprintable source message = message @ ascii '' in '' @ py_repr isprintable source"

definition found_repr :: "(pychar \<Rightarrow> bool) \<Rightarrow> pystr option \<Rightarrow> pystr" where
  "found_repr isprintable found =
     py_repr isprintable (case found of None \<Rightarrow> ascii ''end of expression'' | Some t \<Rightarrow> t)"

text \<open>\<^verbatim>\<open>str(error)\<close>, one case per \<^verbatim>\<open>raise\<close>.\<close>

fun compile_message :: "(pychar \<Rightarrow> bool) \<Rightarrow> pystr \<Rightarrow> compile_reason \<Rightarrow> pystr" where
  "compile_message p src (UnexpectedCharacter c pos) =
     ascii ''unexpected character '' @ py_repr p [c] @ ascii '' at position '' @ decimal pos @
       ascii '' in '' @ py_repr p src"
| "compile_message p src EmptyExpression = ascii ''empty expression''"
| "compile_message p src (UnexpectedToken t) = parser_error_text p src (ascii ''unexpected '' @ py_repr p t)"
| "compile_message p src UnexpectedEnd = parser_error_text p src (ascii ''unexpected end of expression'')"
| "compile_message p src UnclosedParen =
     parser_error_text p src (ascii ''unclosed '' @ [39] @ ascii ''('' @ [39])"
| "compile_message p src (PrimitiveExpectedAfter d) =
     parser_error_text p src (ascii ''expected a primitive after '' @ py_repr p d)"
| "compile_message p src PrimitiveExpected = parser_error_text p src (ascii ''expected a primitive'')"
| "compile_message p src (UnknownPrimitive t) =
     parser_error_text p src (ascii ''unknown primitive '' @ py_repr p t @ ascii '' -- supported: '' @
       join (ascii '', '') PROTOCOLS @
       ascii '', host, port (each optionally prefixed with src/dst), and/or/not, parentheses'')"
| "compile_message p src (PrimitiveExpectedFound t) =
     parser_error_text p src (ascii ''expected a primitive, found '' @ py_repr p t)"
| "compile_message p src (AddressExpected found) =
     parser_error_text p src (ascii ''expected an IPv4 address after '' @ [39] @ ascii ''host'' @ [39] @
       ascii '', found '' @ found_repr p found @ ascii '' -- IPv6 addresses are not supported'')"
| "compile_message p src (InvalidAddress t) =
     parser_error_text p src (py_repr p t @ ascii '' is not a valid IPv4 address'')"
| "compile_message p src (PortExpected found) =
     parser_error_text p src (ascii ''expected a port number after '' @ [39] @ ascii ''port'' @ [39] @
       ascii '', found '' @ found_repr p found)"
| "compile_message p src (PortOutOfRange port) =
     parser_error_text p src (ascii ''port '' @ decimal port @ ascii '' is out of range (0-65535)'')"
| "compile_message p src (JumpTooFar offset) =
     ascii ''expression compiles to a jump offset of '' @ str_int offset @
       ascii '' instructions, outside cBPF'' @ [39] @
       ascii ''s 8-bit range (0-255) -- too large an expression for this compiler''"

section \<open>What they show\<close>

lemma decimal_shown: "printable_ascii_table p \<Longrightarrow> list_all p (decimal n)"
  using decimal_printable by (auto simp: printable_ascii_table_def list_all_iff)

lemma str_int_shown: "printable_ascii_table p \<Longrightarrow> list_all p (str_int v)"
  using decimal_shown [of p] by (simp add: str_int_def MINUS_def printable_ascii_table_def ascii_printable_def)

lemma repr_shown: "printable_ascii_table p \<Longrightarrow> list_all p (py_repr p s)"
  using py_repr_printable [of p s] by (auto simp: printable_ascii_table_def list_all_iff)

lemma ascii_shown: "printable_ascii_table p \<Longrightarrow> list_all ascii_printable s \<Longrightarrow> list_all p s"
  by (auto simp: printable_ascii_table_def list_all_iff)

lemma compile_message_shown:
  assumes "printable_ascii_table p"
  shows "list_all p (compile_message p src r)"
  using decimal_shown [OF assms] str_int_shown [OF assms] repr_shown [OF assms] assms
  by (cases "(p, src, r)" rule: compile_message.cases)
    (simp_all add: parser_error_text_def found_repr_def PROTOCOLS_def printable_ascii_table_def ascii_printable_def)

text \<open>Every message but two ends in the expression.\<close>

lemma compile_message_source:
  assumes "r \<noteq> EmptyExpression" "\<And>d. r \<noteq> JumpTooFar d"
  shows "\<exists>text. compile_message p src r = text @ ascii '' in '' @ py_repr p src"
  using assms by (cases r) (auto simp: parser_error_text_def simp flip: append_assoc)

text \<open>What an error quotes is shown as a literal, and stands in the expression.\<close>

lemma sublist_behind: "sublist t s \<Longrightarrow> sublist t (c # s)" "sublist t s \<Longrightarrow> sublist t (r @ s)"
  by (auto simp: sublist_Cons_right sublist_append)

lemma sublist_here: "sublist t (t @ s)" "sublist t t"
  by auto

lemma compile_message_quotes:
  assumes "quoted_text (BPFCompileError r) = Some t"
  shows "sublist (py_repr p t) (compile_message p src r)"
  using assms
  by (cases "BPFCompileError r" rule: quoted_text.cases)
    (simp_all add: parser_error_text_def found_repr_def sublist_behind sublist_here del: ascii_Cons)

lemma quoted_in_source:
  assumes "compile_expression expr = Inl err" "quoted_text err = Some t"
  shows "sublist t expr"
  using assms(1)
proof (cases rule: compile_failure_stages)
  case lexing
  with tokenize_error [OF lexing [unfolded tokenize_def]] assms(2) obtain p where
    "t = [expr ! p]" "p < length expr" by auto
  then show ?thesis by (metis append_Cons append_Nil id_take_nth_drop sublist_appendI)
next
  case (parsing ts)
  with parse_fails_quoting [OF parsing(2)] assms(2) obtain tok where "tok \<in> set ts" "token_text tok = t"
    by (auto simp: quotes_token_def)
  with tokenize_slices [OF parsing(1)] show ?thesis by (auto simp: sublist_def)
qed (use assms(2) in auto)

lemma empty_expression:
  assumes "compile_expression expr = Inl (BPFCompileError EmptyExpression)"
  shows "list_all is_space expr"
  using assms
proof (cases rule: compile_failure_stages)
  case lexing
  with tokenize_error [OF lexing [unfolded tokenize_def]] show ?thesis by auto
next
  case nothing
  then have "tokenize expr = Inr []" by simp
  from tokenize_spell [OF this] have "filter (\<lambda>c. \<not> is_space c) expr = []" by (simp add: spell_def)
  then show ?thesis by (simp add: filter_empty_conv list_all_iff)
next
  case (parsing ts)
  with parse_fails [OF parsing(2)] show ?thesis by simp
qed simp

end
