(* ===== verification/Event_Machine.thy ===== *)
theory Event_Machine
  imports RW_Prelude
begin

text \<open>
  Machines stepped by events, as a contract: the capture generator and the live loop around
  it (\<^verbatim>\<open>src/rootwire/capture.py\<close>, \<^verbatim>\<open>src/rootwire/cli.py\<close>) are two of them. An event that
  cannot happen in a state has no step there.
\<close>

fun steps :: "('ev \<Rightarrow> 's \<Rightarrow> 's option) \<Rightarrow> 'ev list \<Rightarrow> 's \<Rightarrow> 's option" where
  "steps step [] s = Some s"
| "steps step (ev # es) s = (case step ev s of None \<Rightarrow> None | Some s' \<Rightarrow> steps step es s')"

lemma steps_append:
  "steps step (es @ fs) s = (case steps step es s of None \<Rightarrow> None | Some s' \<Rightarrow> steps step fs s')"
  by (induction es arbitrary: s) (simp_all split: option.split)

text \<open>\<open>reaches s es s'\<close>: the events \<open>es\<close> take the machine from \<open>s\<close> to \<open>s'\<close>.\<close>

locale event_machine =
  fixes step :: "'ev \<Rightarrow> 's \<Rightarrow> 's option"
    and reaches :: "'s \<Rightarrow> 'ev list \<Rightarrow> 's \<Rightarrow> bool"
  assumes reaches_Nil: "reaches s [] s' \<longleftrightarrow> s' = s"
    and reaches_snoc: "reaches s (es @ [ev]) s'' \<longleftrightarrow> (\<exists>s'. reaches s es s' \<and> step ev s' = Some s'')"
begin

text \<open>The relation is computed by \<open>steps\<close>, so a sequence of events leads to one state.\<close>

lemma reaches_steps: "reaches s es s' \<longleftrightarrow> steps step es s = Some s'"
proof (induction es arbitrary: s' rule: rev_induct)
  case Nil
  then show ?case by (auto simp: reaches_Nil)
next
  case (snoc ev es)
  then show ?case by (auto simp: reaches_snoc steps_append split: option.splits)
qed

lemma reaches_deterministic: "reaches s es s1 \<Longrightarrow> reaches s es s2 \<Longrightarrow> s1 = s2"
  by (simp add: reaches_steps)

lemma reaches_append: "reaches s (es @ fs) s'' \<longleftrightarrow> (\<exists>s'. reaches s es s' \<and> reaches s' fs s'')"
  by (auto simp: reaches_steps steps_append split: option.splits)

lemma reaches_single: "reaches s [ev] s' \<longleftrightarrow> step ev s = Some s'"
  by (simp add: reaches_steps split: option.split)

text \<open>A property of the events so far and the state that every step keeps.\<close>

lemma reaches_invariant:
  assumes "reaches s es s'" and "P [] s"
    and "\<And>es s1 ev s2. reaches s es s1 \<Longrightarrow> P es s1 \<Longrightarrow> step ev s1 = Some s2 \<Longrightarrow> P (es @ [ev]) s2"
  shows "P es s'"
  using assms(1)
proof (induction es arbitrary: s' rule: rev_induct)
  case Nil
  with assms(2) show ?case by (simp add: reaches_Nil)
next
  case (snoc ev es)
  then show ?case using assms(3) by (auto simp: reaches_snoc)
qed

end

end
