(* ===== verification/Capture.thy ===== *)
theory Capture
  imports Py_Struct Bpf Event_Machine
begin

text \<open>
  \<^verbatim>\<open>src/rootwire/capture.py\<close>: the kernel timestamp of a frame, the calls that open a
  capture socket, the callback that reads one datagram, and the generator that merges the
  sockets through one queue, as a machine stepped by events. The operating system is an
  argument: which calls fail, and what \<^verbatim>\<open>recvmsg\<close> returns.
\<close>

section \<open>Constants\<close>

definition ETH_P_ALL :: nat where "ETH_P_ALL = 0x0003"
definition BUFFER_SIZE :: nat where "BUFFER_SIZE = 65550"
definition SO_TIMESTAMPNS :: int where "SO_TIMESTAMPNS = 35"
definition SCM_TIMESTAMPNS :: int where "SCM_TIMESTAMPNS = 35"

text \<open>\<^verbatim>\<open>socket.SOL_SOCKET\<close> on Linux, and the two option numbers of \<^verbatim>\<open>bpf.py\<close>.\<close>

definition SOL_SOCKET :: int where "SOL_SOCKET = 1"
definition SO_ATTACH_FILTER :: int where "SO_ATTACH_FILTER = 26"
definition SO_LOCK_FILTER :: int where "SO_LOCK_FILTER = 44"

section \<open>The kernel timestamp\<close>

text \<open>
  \<^verbatim>\<open>struct.Struct("ll")\<close> where a \<^verbatim>\<open>long\<close> has 64 bits: two signed integers in the host's
  byte order, 16 bytes. A shorter buffer is a \<^verbatim>\<open>struct.error\<close>.
\<close>

definition TIMESPEC_size :: nat where "TIMESPEC_size = 16"

definition long_value :: "endian \<Rightarrow> bytes \<Rightarrow> int" where
  "long_value e bs =
     (let v = int (from_bytes e bs) in if v \<ge> 9223372036854775808 then v - 18446744073709551616 else v)"

definition unpack_timespec :: "endian \<Rightarrow> bytes \<Rightarrow> struct_error + int \<times> int" where
  "unpack_timespec e bs =
     (if length bs = TIMESPEC_size then Inr (long_value e (take 8 bs), long_value e (drop 8 bs))
      else Inl StructError)"

type_synonym ancillary = "(int \<times> int \<times> bytes) list"

fun parse_timestamp :: "endian \<Rightarrow> ancillary \<Rightarrow> struct_error + int option" where
  "parse_timestamp e [] = Inr None"
| "parse_timestamp e ((level, kind, data) # ancdata) =
     (if level = SOL_SOCKET \<and> kind = SCM_TIMESTAMPNS
      then then_do (unpack_timespec e (py_slice data 0 TIMESPEC_size)) (\<lambda>(tv_sec, tv_nsec).
        Inr (Some (tv_sec * 1000000000 + tv_nsec)))
      else parse_timestamp e ancdata)"

section \<open>Opening a socket\<close>

datatype os_error = Permission_denied pystr | Other_OSError pystr

datatype syscall =
    Create_socket nat
  | Set_option int int bytes
  | Set_flag int int int
  | Bind_interface pystr
  | Set_nonblocking

text \<open>The calls of \<^verbatim>\<open>_open_socket\<close>, in order.\<close>

definition open_socket_calls :: "endian \<Rightarrow> pystr option \<Rightarrow> FilterProgram option \<Rightarrow> syscall list" where
  "open_socket_calls e interface filter_program =
     [Create_socket ETH_P_ALL, Set_flag SOL_SOCKET SO_TIMESTAMPNS 1] @
     (case filter_program of
        None \<Rightarrow> []
      | Some program \<Rightarrow>
          [Set_option SOL_SOCKET SO_ATTACH_FILTER (as_bytes e program),
           Set_flag SOL_SOCKET SO_LOCK_FILTER 1]) @
     (case interface of None \<Rightarrow> [] | Some name \<Rightarrow> [Bind_interface name]) @
     [Set_nonblocking]"

text \<open>The calls are made until one fails; \<open>os\<close> says which do.\<close>

fun run_calls :: "(syscall \<Rightarrow> os_error option) \<Rightarrow> syscall list \<Rightarrow> os_error + syscall list" where
  "run_calls os [] = Inr []"
| "run_calls os (c # cs) =
     (case os c of
        Some err \<Rightarrow> Inl err
      | None \<Rightarrow> then_do (run_calls os cs) (\<lambda>made. Inr (c # made)))"

definition open_socket ::
    "(pystr option \<Rightarrow> syscall \<Rightarrow> os_error option) \<Rightarrow> endian \<Rightarrow> pystr option \<Rightarrow> FilterProgram option \<Rightarrow>
     os_error + syscall list" where
  "open_socket os e interface filter_program = run_calls (os interface) (open_socket_calls e interface filter_program)"

section \<open>The reader callback\<close>

datatype capture_item = Captured bytes int "pystr option" | Read_error os_error

datatype recv_result = Would_block | Recv_failed os_error | Received bytes ancillary

text \<open>
  \<^verbatim>\<open>_on_readable\<close>: what the callback leaves on the queue. \<open>now\<close> is \<^verbatim>\<open>time.time_ns()\<close>. A
  \<^verbatim>\<open>struct.error\<close> of the timestamp leaves the callback before anything is queued.
\<close>

definition on_readable ::
    "endian \<Rightarrow> pystr option \<Rightarrow> int \<Rightarrow> recv_result \<Rightarrow> capture_item list \<Rightarrow> struct_error + capture_item list" where
  "on_readable e interface now result queue =
     (case result of
        Would_block \<Rightarrow> Inr queue
      | Recv_failed err \<Rightarrow> Inr (queue @ [Read_error err])
      | Received data ancdata \<Rightarrow>
          then_do (parse_timestamp e ancdata) (\<lambda>timestamp.
            Inr (queue @ [Captured data (case timestamp of None \<Rightarrow> now | Some ts \<Rightarrow> ts) interface])))"

section \<open>\<^verbatim>\<open>capture_async\<close>\<close>

definition socket_names :: "pystr list option \<Rightarrow> pystr option list" where
  "socket_names interfaces =
     (case interfaces of None \<Rightarrow> [None] | Some names \<Rightarrow> if names = [] then [None] else map Some names)"

text \<open>
  The sockets are opened and registered one after the other. When one fails, the
  \<^verbatim>\<open>ExitStack\<close> undoes those already opened, the last first.
\<close>

fun open_all ::
    "(pystr option \<Rightarrow> syscall \<Rightarrow> os_error option) \<Rightarrow> endian \<Rightarrow> FilterProgram option \<Rightarrow>
     pystr option list \<Rightarrow> pystr option list \<Rightarrow> (os_error \<times> pystr option list) + pystr option list" where
  "open_all os e filter_program opened [] = Inr opened"
| "open_all os e filter_program opened (name # names) =
     (case open_socket os e name filter_program of
        Inl err \<Rightarrow> Inl (err, rev opened)
      | Inr _ \<Rightarrow> open_all os e filter_program (opened @ [name]) names)"

text \<open>
  The running generator: the sockets registered with the event loop, the queue, the
  frames yielded so far, and the exception it has ended with. Events: a socket is
  readable, the generator takes an item from the queue, or it is cancelled.
\<close>

type_synonym captured_frame = "bytes \<times> int \<times> pystr option"

datatype capture_end = Raised os_error | Cancelled

record capture_state =
  registered :: "pystr option list"
  queue :: "capture_item list"
  yielded :: "captured_frame list"
  ended :: "capture_end option"

definition capture_start :: "pystr option list \<Rightarrow> capture_state" where
  "capture_start sockets = \<lparr>registered = sockets, queue = [], yielded = [], ended = None\<rparr>"

datatype capture_event = Readable nat int recv_result | Get | Cancel

definition stop_with :: "capture_end \<Rightarrow> capture_state \<Rightarrow> capture_state" where
  "stop_with r s = s\<lparr>registered := [], ended := Some r\<rparr>"

definition get_item :: "capture_item \<Rightarrow> capture_item list \<Rightarrow> capture_state \<Rightarrow> capture_state" where
  "get_item item rest s =
     (let s = s\<lparr>queue := rest\<rparr>
      in case item of
           Read_error err \<Rightarrow> stop_with (Raised err) s
         | Captured data ts interface \<Rightarrow> s\<lparr>yielded := yielded s @ [(data, ts, interface)]\<rparr>)"

definition capture_step :: "endian \<Rightarrow> capture_event \<Rightarrow> capture_state \<Rightarrow> capture_state option" where
  "capture_step e event s =
     (if ended s \<noteq> None then None
      else case event of
          Readable i now result \<Rightarrow>
            if i < length (registered s)
            then (case on_readable e (registered s ! i) now result (queue s) of
                    Inl _ \<Rightarrow> Some s
                  | Inr q \<Rightarrow> Some (s\<lparr>queue := q\<rparr>))
            else None
        | Get \<Rightarrow>
            (case queue s of
               [] \<Rightarrow> None
             | item # rest \<Rightarrow> Some (get_item item rest s))
        | Cancel \<Rightarrow> Some (stop_with Cancelled s))"

inductive capture_run :: "endian \<Rightarrow> capture_state \<Rightarrow> capture_event list \<Rightarrow> capture_state \<Rightarrow> bool" for e where
  run_none: "capture_run e s [] s"
| run_event: "capture_run e s es s' \<Longrightarrow> capture_step e ev s' = Some s'' \<Longrightarrow> capture_run e s (es @ [ev]) s''"

inductive_simps capture_run_Nil: "capture_run e s [] s'"
  and capture_run_snoc: "capture_run e s (es @ [ev]) s''"

code_pred capture_run .

interpretation capture: event_machine "capture_step e" "capture_run e" for e
  by unfold_locales (simp add: capture_run_Nil eq_commute, simp add: capture_run_snoc)

section \<open>Timestamps\<close>

text \<open>What the kernel writes: a \<^verbatim>\<open>struct timespec\<close> in the host's byte order.\<close>

definition timespec_bytes :: "endian \<Rightarrow> nat \<Rightarrow> nat \<Rightarrow> bytes" where
  "timespec_bytes e sec nsec = to_bytes e 8 sec @ to_bytes e 8 nsec"

lemma long_value_to_bytes: "v < 9223372036854775808 \<Longrightarrow> long_value e (to_bytes e 8 v) = int v"
  using from_bytes_to_bytes [of e 8 v] by (simp add: long_value_def del: from_bytes.simps to_bytes.simps)

lemma unpack_timespec_bytes:
  "sec < 9223372036854775808 \<Longrightarrow> nsec < 9223372036854775808 \<Longrightarrow>
     unpack_timespec e (timespec_bytes e sec nsec) = Inr (int sec, int nsec)"
  by (simp add: unpack_timespec_def timespec_bytes_def TIMESPEC_size_def long_value_to_bytes del: to_bytes.simps)

text \<open>The first timestamp entry counts, whatever other control messages come with it.\<close>

lemma parse_timestamp_other:
  "\<forall>(level, kind, data) \<in> set before. \<not> (level = SOL_SOCKET \<and> kind = SCM_TIMESTAMPNS) \<Longrightarrow>
     parse_timestamp e (before @ ancdata) = parse_timestamp e ancdata"
  by (induction before) auto

lemma parse_timestamp_kernel:
  assumes "\<forall>(level, kind, data) \<in> set before. \<not> (level = SOL_SOCKET \<and> kind = SCM_TIMESTAMPNS)"
    and "sec < 9223372036854775808" "nsec < 9223372036854775808"
  shows "parse_timestamp e (before @ (SOL_SOCKET, SCM_TIMESTAMPNS, timespec_bytes e sec nsec @ pad) # after) =
     Inr (Some (int sec * 1000000000 + int nsec))"
proof -
  have "py_slice (timespec_bytes e sec nsec @ pad) 0 TIMESPEC_size = timespec_bytes e sec nsec"
    by (simp add: py_slice_def timespec_bytes_def TIMESPEC_size_def del: to_bytes.simps)
  then show ?thesis
    using assms by (simp add: parse_timestamp_other unpack_timespec_bytes)
qed

lemma parse_timestamp_None:
  "parse_timestamp e ancdata = Inr None \<longleftrightarrow>
     (\<forall>(level, kind, data) \<in> set ancdata. \<not> (level = SOL_SOCKET \<and> kind = SCM_TIMESTAMPNS))"
  by (induction e ancdata rule: parse_timestamp.induct) (auto simp: then_do_Inr_iff)

section \<open>Opening\<close>

lemma run_calls_Inr: "run_calls os cs = Inr made \<longleftrightarrow> made = cs \<and> (\<forall>c \<in> set cs. os c = None)"
  by (induction cs arbitrary: made) (auto simp: then_do_Inr_iff split: option.splits)

definition opens :: "(pystr option \<Rightarrow> syscall \<Rightarrow> os_error option) \<Rightarrow> endian \<Rightarrow> FilterProgram option \<Rightarrow> pystr option \<Rightarrow> bool" where
  "opens os e program name \<longleftrightarrow> (\<forall>c \<in> set (open_socket_calls e name program). os name c = None)"

lemma open_socket_Inr: "(\<exists>made. open_socket os e name program = Inr made) \<longleftrightarrow> opens os e program name"
  by (simp add: open_socket_def run_calls_Inr opens_def)

lemma open_all_Inr:
  "open_all os e program opened names = Inr sockets \<longleftrightarrow>
     sockets = opened @ names \<and> list_all (opens os e program) names"
proof (induction names arbitrary: opened)
  case Nil
  then show ?case by auto
next
  case (Cons name names)
  show ?case
  proof (cases "open_socket os e name program")
    case (Inl err)
    then have "\<not> opens os e program name" using open_socket_Inr [of os e name program] by simp
    then show ?thesis using Inl by simp
  next
    case (Inr made)
    then have "opens os e program name" using open_socket_Inr by blast
    then show ?thesis using Inr Cons by auto
  qed
qed

text \<open>When a socket cannot be opened, exactly the ones opened before it are closed, last first.\<close>

lemma open_all_Inl:
  "open_all os e program opened names = Inl (err, closed) \<Longrightarrow>
     \<exists>pre name post. names = pre @ name # post \<and> list_all (opens os e program) pre \<and>
       open_socket os e name program = Inl err \<and> closed = rev (opened @ pre)"
proof (induction names arbitrary: opened)
  case Nil
  then show ?case by simp
next
  case (Cons name names)
  show ?case
  proof (cases "open_socket os e name program")
    case (Inl err')
    then show ?thesis using Cons.prems by (intro exI [of _ "[]"]) auto
  next
    case (Inr made)
    then have "opens os e program name" using open_socket_Inr by blast
    moreover from Inr Cons.prems Cons.IH [of "opened @ [name]"] obtain pre name' post where
      "names = pre @ name' # post" "list_all (opens os e program) pre"
      "open_socket os e name' program = Inl err" "closed = rev (opened @ name # pre)"
      by auto
    ultimately show ?thesis by (intro exI [of _ "name # pre"]) auto
  qed
qed

section \<open>The queue\<close>

text \<open>What an event adds to the queue, and the frames among the items.\<close>

definition pushed :: "endian \<Rightarrow> pystr option list \<Rightarrow> capture_event \<Rightarrow> capture_item list" where
  "pushed e sockets event =
     (case event of
        Readable i now result \<Rightarrow>
          (case on_readable e (sockets ! i) now result [] of Inl _ \<Rightarrow> [] | Inr q \<Rightarrow> q)
      | _ \<Rightarrow> [])"

definition all_pushed :: "endian \<Rightarrow> pystr option list \<Rightarrow> capture_event list \<Rightarrow> capture_item list" where
  "all_pushed e sockets es = concat (map (pushed e sockets) es)"

definition items_of :: "captured_frame list \<Rightarrow> capture_item list" where
  "items_of fs = map (\<lambda>(data, ts, interface). Captured data ts interface) fs"

lemma all_pushed_simps [simp]:
  "all_pushed e sockets [] = []"
  "all_pushed e sockets (es @ [ev]) = all_pushed e sockets es @ pushed e sockets ev"
  by (simp_all add: all_pushed_def)

lemma items_of_simps [simp]:
  "items_of [] = []" "items_of (fs @ gs) = items_of fs @ items_of gs"
  "items_of ((data, ts, interface) # fs) = Captured data ts interface # items_of fs"
  by (simp_all add: items_of_def)

lemma on_readable_queue:
  "on_readable e interface now result items =
     (case on_readable e interface now result [] of Inl err \<Rightarrow> Inl err | Inr q \<Rightarrow> Inr (items @ q))"
  by (cases result; cases "parse_timestamp e (case result of Received _ a \<Rightarrow> a | _ \<Rightarrow> [])")
    (auto simp: on_readable_def split: option.splits)

text \<open>
  The invariant: until the generator ends, every item pushed is yielded or still queued, in
  the order pushed, and all sockets are registered; ending leaves no socket registered,
  and it is a read error that ends it only at that error's place in the order.
\<close>

definition capture_inv :: "pystr option list \<Rightarrow> capture_item list \<Rightarrow> capture_state \<Rightarrow> bool" where
  "capture_inv sockets log s \<longleftrightarrow>
     (case ended s of
        None \<Rightarrow> registered s = sockets \<and> log = items_of (yielded s) @ queue s
      | Some Cancelled \<Rightarrow> registered s = [] \<and> log = items_of (yielded s) @ queue s
      | Some (Raised err) \<Rightarrow> registered s = [] \<and> log = items_of (yielded s) @ Read_error err # queue s)"

lemma capture_inv_start: "capture_inv sockets [] (capture_start sockets)"
  by (simp add: capture_inv_def capture_start_def)

lemma capture_inv_step:
  assumes "capture_inv sockets log s" "capture_step e ev s = Some s'"
  shows "capture_inv sockets (log @ pushed e sockets ev) s'"
proof -
  from assms(2) have running: "ended s = None" by (auto simp: capture_step_def split: if_splits)
  with assms(1) have inv: "registered s = sockets" "log = items_of (yielded s) @ queue s"
    by (simp_all add: capture_inv_def)
  show ?thesis
  proof (cases ev)
    case (Readable i now result)
    with assms(2) running inv show ?thesis
      using on_readable_queue [of e "sockets ! i" now result "queue s"]
      by (auto simp: capture_step_def capture_inv_def pushed_def split: if_splits sum.splits)
  next
    case Get
    with assms(2) running inv show ?thesis
      by (auto simp: capture_step_def capture_inv_def pushed_def get_item_def stop_with_def Let_def
          split: list.splits capture_item.splits)
  next
    case Cancel
    with assms(2) running inv show ?thesis
      by (auto simp: capture_step_def capture_inv_def pushed_def stop_with_def)
  qed
qed

lemma capture_run_inv:
  "capture_run e (capture_start sockets) es s \<Longrightarrow> capture_inv sockets (all_pushed e sockets es) s"
  by (erule capture.reaches_invariant) (simp_all add: capture_inv_start capture_inv_step)

lemma capture_run_ended: "capture_step e ev s = Some s' \<Longrightarrow> ended s = None"
  by (auto simp: capture_step_def split: if_splits)

text \<open>What is yielded is a prefix of what was pushed, and holds no item behind a read error.\<close>

lemma items_of_no_error: "Read_error err \<notin> set (items_of fs)"
  by (auto simp: items_of_def)

lemma capture_inv_prefix:
  "capture_inv sockets log s \<Longrightarrow> \<exists>rest. log = items_of (yielded s) @ rest"
  by (auto simp: capture_inv_def split: option.splits capture_end.splits)

text \<open>Every frame still queued can be taken out, one \<^verbatim>\<open>Get\<close> after the other.\<close>

lemma capture_get:
  "ended s = None \<Longrightarrow> queue s = Captured data ts interface # rest \<Longrightarrow>
     capture_step e Get s = Some (s\<lparr>queue := rest, yielded := yielded s @ [(data, ts, interface)]\<rparr>)"
  by (simp add: capture_step_def get_item_def Let_def)

lemma capture_drain:
  "ended s = None \<Longrightarrow> queue s = items_of fs @ rest \<Longrightarrow>
     capture_run e s (replicate (length fs) Get) (s\<lparr>queue := rest, yielded := yielded s @ fs\<rparr>)"
proof (induction fs arbitrary: s)
  case Nil
  have "s\<lparr>queue := rest, yielded := yielded s @ []\<rparr> = s" using Nil by simp
  then show ?case by (simp add: run_none)
next
  case (Cons f fs)
  obtain data ts interface where f: "f = (data, ts, interface)" by (cases f)
  let ?s = "s\<lparr>queue := items_of fs @ rest, yielded := yielded s @ [f]\<rparr>"
  have "capture_step e Get s = Some ?s" using Cons.prems f by (simp add: capture_get)
  then have "capture_run e s [Get] ?s" by (simp add: capture.reaches_single)
  moreover have "capture_run e ?s (replicate (length fs) Get) (?s\<lparr>queue := rest, yielded := yielded ?s @ fs\<rparr>)"
    using Cons.prems by (intro Cons.IH) simp_all
  ultimately have "capture_run e s ([Get] @ replicate (length fs) Get) (?s\<lparr>queue := rest, yielded := yielded ?s @ fs\<rparr>)"
    unfolding capture.reaches_append by blast
  then show ?case by simp
qed

text \<open>Datagrams read one after the other are queued in that order, with the socket's interface.\<close>

lemma capture_reads:
  assumes "ended s = None" and "i < length (registered s)"
  shows "capture_run e s (map (\<lambda>frame. Readable i now (Received frame [])) frames)
    (s\<lparr>queue := queue s @ items_of (map (\<lambda>frame. (frame, now, registered s ! i)) frames)\<rparr>)"
proof (induction frames rule: rev_induct)
  case Nil
  then show ?case by (simp add: run_none)
next
  case (snoc frame frames)
  let ?s = "s\<lparr>queue := queue s @ items_of (map (\<lambda>frame. (frame, now, registered s ! i)) frames)\<rparr>"
  have "capture_step e (Readable i now (Received frame [])) ?s =
      Some (s\<lparr>queue := queue s @ items_of (map (\<lambda>frame. (frame, now, registered s ! i)) (frames @ [frame]))\<rparr>)"
    using assms by (simp add: capture_step_def on_readable_def)
  with snoc show ?case by (simp add: run_event)
qed

lemma capture_reads_yields:
  "\<exists>es s. capture_run e (capture_start [interface]) es s \<and> ended s = None \<and> queue s = [] \<and>
     yielded s = map (\<lambda>frame. (frame, now, interface)) frames"
proof -
  let ?fs = "map (\<lambda>frame. (frame, now, interface)) frames"
  let ?s = "\<lparr>registered = [interface], queue = items_of ?fs, yielded = [], ended = None\<rparr>"
  have "capture_run e (capture_start [interface]) (map (\<lambda>frame. Readable 0 now (Received frame [])) frames) ?s"
    using capture_reads [of "capture_start [interface]" 0 e now frames] by (simp add: capture_start_def)
  moreover have "capture_run e ?s (replicate (length ?fs) Get) (?s\<lparr>queue := [], yielded := yielded ?s @ ?fs\<rparr>)"
    by (rule capture_drain) simp_all
  ultimately have "capture_run e (capture_start [interface])
      (map (\<lambda>frame. Readable 0 now (Received frame [])) frames @ replicate (length ?fs) Get)
      (?s\<lparr>queue := [], yielded := ?fs\<rparr>)"
    unfolding capture.reaches_append by auto
  then show ?thesis by fastforce
qed

text \<open>
  Frames that arrive while \<^verbatim>\<open>_open_socket\<close> makes its calls or later: \<open>(made, interface, frame)\<close>
  arrives on an interface when the first \<open>made\<close> calls are done. The kernel keeps those it
  delivers to a socket in that state until they are read.
\<close>

type_synonym arrival = "nat \<times> pystr \<times> bytes"

definition kernel_queue ::
    "(syscall list \<Rightarrow> pystr \<Rightarrow> bytes \<Rightarrow> bool) \<Rightarrow> syscall list \<Rightarrow> arrival list \<Rightarrow> arrival list" where
  "kernel_queue delivers calls arrivals =
     filter (\<lambda>(made, interface, frame). delivers (take made calls) interface frame) arrivals"

text \<open>The frames of one interface, among the items pushed and among those yielded.\<close>

lemma pushed_interface:
  "Captured data ts interface \<in> set (pushed e sockets ev) \<Longrightarrow>
     \<exists>i now ancdata. ev = Readable i now (Received data ancdata) \<and> interface = sockets ! i \<and>
       (\<exists>t. parse_timestamp e ancdata = Inr t \<and> ts = (case t of None \<Rightarrow> now | Some v \<Rightarrow> v))"
  by (cases ev)
    (auto simp: pushed_def on_readable_def then_do_Inr_iff dest!: sym [of "Inr _"]
      split: sum.splits recv_result.splits)

end
