(* ===== verification/Output_Interface.thy ===== *)
theory Output_Interface
  imports Output
begin

text \<open>
  The \<^verbatim>\<open>Output\<close> interface of \<^verbatim>\<open>src/rootwire/output.py\<close> as a contract, and the two
  implementations that keep no text stream: \<^verbatim>\<open>OutputToPcap\<close> and \<^verbatim>\<open>StatsCollector\<close>.
  \<open>has_seen s fs\<close> says that \<open>s\<close> is the state of an output whose \<^verbatim>\<open>update\<close> was called with
  exactly the frames \<open>fs\<close>, in that order.
\<close>

section \<open>The contract\<close>

text \<open>
  \<^verbatim>\<open>update\<close> may raise; the output then keeps its state. \<open>accepts\<close> says of which frames it
  does not.
\<close>

fun feed :: "('f \<Rightarrow> 's \<Rightarrow> 'e + 's) \<Rightarrow> 'f list \<Rightarrow> 's \<Rightarrow> 'e + 's" where
  "feed update [] s = Inr s"
| "feed update (f # fs) s = then_do (update f s) (feed update fs)"

locale frame_output =
  fixes update :: "'f \<Rightarrow> 's \<Rightarrow> 'e + 's"
    and has_seen :: "'s \<Rightarrow> 'f list \<Rightarrow> bool"
    and accepts :: "'s \<Rightarrow> 'f \<Rightarrow> bool"
  assumes update_accepted:
      "has_seen s fs \<Longrightarrow> accepts s f \<Longrightarrow> \<exists>s'. update f s = Inr s' \<and> has_seen s' (fs @ [f])"
    and update_refused: "has_seen s fs \<Longrightarrow> \<not> accepts s f \<Longrightarrow> \<exists>e. update f s = Inl e"
    and accepts_kept: "update f s = Inr s' \<Longrightarrow> accepts s' g = accepts s g"
begin

lemma update_Inr_iff: "has_seen s fs \<Longrightarrow> (\<exists>s'. update f s = Inr s') \<longleftrightarrow> accepts s f"
  using update_accepted update_refused by (metis Inl_Inr_False)

lemma update_seen: "has_seen s fs \<Longrightarrow> update f s = Inr s' \<Longrightarrow> has_seen s' (fs @ [f])"
  using update_Inr_iff update_accepted by (metis sum.inject(2))

lemma feed_seen:
  "has_seen s fs \<Longrightarrow> feed update gs s = Inr s' \<Longrightarrow> has_seen s' (fs @ gs)"
  by (induction gs arbitrary: s fs) (fastforce simp: then_do_Inr_iff dest: update_seen)+

lemma feed_Inr_iff:
  "has_seen s fs \<Longrightarrow> (\<exists>s'. feed update gs s = Inr s') \<longleftrightarrow> (\<forall>g \<in> set gs. accepts s g)"
proof (induction gs arbitrary: s fs)
  case Nil
  then show ?case by simp
next
  case (Cons g gs)
  show ?case
  proof (cases "update g s")
    case (Inl e)
    then have "\<not> accepts s g" using update_Inr_iff [OF Cons.prems, of g] by simp
    then show ?thesis using Inl by simp
  next
    case (Inr s')
    then have "accepts s g" using update_Inr_iff [OF Cons.prems, of g] by simp
    moreover have "has_seen s' (fs @ [g])" by (rule update_seen [OF Cons.prems Inr])
    ultimately show ?thesis
      using Inr Cons.IH [of s' "fs @ [g]"] accepts_kept [OF Inr] by simp
  qed
qed

lemma feed_accepted:
  "has_seen s fs \<Longrightarrow> \<forall>g \<in> set gs. accepts s g \<Longrightarrow> \<exists>s'. feed update gs s = Inr s' \<and> has_seen s' (fs @ gs)"
  using feed_Inr_iff feed_seen by metis

end

section \<open>\<^verbatim>\<open>OutputToPcap\<close>\<close>

definition captured :: "'l DecodedFrame \<Rightarrow> bytes \<times> int" where
  "captured frame = (frame_raw frame, frame_timestamp frame)"

definition OutputToPcap_update :: "'l DecodedFrame \<Rightarrow> PcapWriter \<Rightarrow> pcap_error + PcapWriter" where
  "OutputToPcap_update frame writer = pcap_write (frame_raw frame) (Some (frame_timestamp frame)) 0 writer"

definition OutputToPcap_close :: "PcapWriter \<Rightarrow> PcapWriter" where
  "OutputToPcap_close writer = pcap_close writer"

definition pcap_has_seen :: "PcapWriter \<Rightarrow> 'l DecodedFrame list \<Rightarrow> bool" where
  "pcap_has_seen w fs \<longleftrightarrow> \<not> pcap_closed w \<and> written (map captured fs) = Inr (pcap_file w)"

lemma OutputToPcap_update_cases:
  "\<not> pcap_closed w \<Longrightarrow> OutputToPcap_update frame w =
     (if record_fits (captured frame)
      then Inr (w\<lparr>pcap_file := pcap_file w @ record_bytes (captured frame)\<rparr>)
      else Inl PackError)"
  using record_fits_header [of "captured frame"]
  by (auto simp: OutputToPcap_update_def pcap_write_open captured_def record_bytes_def split: sum.split)

lemma OutputToPcap_update_open: "OutputToPcap_update f w = Inr w' \<Longrightarrow> pcap_closed w' = pcap_closed w"
  by (auto simp: OutputToPcap_update_def pcap_write_def Let_def split: sum.splits if_splits)

interpretation pcap_output: frame_output OutputToPcap_update pcap_has_seen
  "\<lambda>w frame. \<not> pcap_closed w \<and> record_fits (captured frame)"
proof
  fix w and fs :: "'a DecodedFrame list" and f :: "'a DecodedFrame"
  assume "pcap_has_seen w fs" "\<not> pcap_closed w \<and> record_fits (captured f)"
  then show "\<exists>w'. OutputToPcap_update f w = Inr w' \<and> pcap_has_seen w' (fs @ [f])"
    by (simp add: OutputToPcap_update_cases pcap_has_seen_def written_Inr)
next
  fix w and fs :: "'a DecodedFrame list" and f :: "'a DecodedFrame"
  assume "pcap_has_seen w fs" "\<not> (\<not> pcap_closed w \<and> record_fits (captured f))"
  then show "\<exists>e. OutputToPcap_update f w = Inl e"
    by (simp add: OutputToPcap_update_cases pcap_has_seen_def)
next
  fix f g :: "'a DecodedFrame" and w w'
  assume "OutputToPcap_update f w = Inr w'"
  then show "(\<not> pcap_closed w' \<and> record_fits (captured g)) = (\<not> pcap_closed w \<and> record_fits (captured g))"
    by (simp add: OutputToPcap_update_open)
qed

section \<open>\<^verbatim>\<open>StatsCollector\<close>\<close>

text \<open>
  A \<^verbatim>\<open>Counter\<close> is a dictionary: its items in the order their keys were first counted.
\<close>

type_synonym counter = "(pystr \<times> nat) list"

fun counter_add :: "pystr \<Rightarrow> counter \<Rightarrow> counter" where
  "counter_add name [] = [(name, 1)]"
| "counter_add name ((k, n) # items) =
     (if k = name then (k, n + 1) # items else (k, n) # counter_add name items)"

text \<open>The start time is only used for the duration and the rate in the report; both are its arguments.\<close>

record StatsCollector =
  stats_frames :: nat
  stats_bytes :: nat
  stats_malformed :: nat
  stats_truncated :: nat
  stats_buckets :: counter

definition new_StatsCollector :: StatsCollector where
  "new_StatsCollector =
     \<lparr>stats_frames = 0, stats_bytes = 0, stats_malformed = 0, stats_truncated = 0, stats_buckets = []\<rparr>"

definition STATS_BUCKETS :: "protocol_class list" where
  "STATS_BUCKETS = [TCP_class, UDP_class, ICMPv4_class, ICMPv6_class, ARP_class]"

fun bucket_of :: "'l netprotocols \<Rightarrow> 'l list \<Rightarrow> pystr" where
  "bucket_of np [] = ascii ''other''"
| "bucket_of np (layer # ls) =
     (if list_ex (isinstance_of np layer) STATS_BUCKETS then class_name np layer else bucket_of np ls)"

definition stats_update :: "'l netprotocols \<Rightarrow> 'l DecodedFrame \<Rightarrow> StatsCollector \<Rightarrow> StatsCollector" where
  "stats_update np frame st =
     (let st = st\<lparr>stats_frames := stats_frames st + 1\<rparr>;
          st = st\<lparr>stats_bytes := stats_bytes st + frame_length frame\<rparr>;
          st = (if frame_error frame \<noteq> None \<or> frame_malformed_length frame
                then st\<lparr>stats_malformed := stats_malformed st + 1\<rparr> else st);
          st = (if frame_truncated frame then st\<lparr>stats_truncated := stats_truncated st + 1\<rparr> else st)
      in st\<lparr>stats_buckets := counter_add (bucket_of np (rev (frame_layers frame))) (stats_buckets st)\<rparr>)"

text \<open>The lines of \<^verbatim>\<open>report\<close>; \<open>duration\<close> and \<open>rate\<close> are the two formatted floats.\<close>

definition tallies :: "counter \<Rightarrow> pystr" where
  "tallies buckets =
     join (ascii '', '')
       (map (\<lambda>(name, count). name @ ascii '': '' @ decimal count) (sort_key (\<lambda>item. - int (snd item)) buckets))"

definition stats_report :: "pystr \<Rightarrow> pystr \<Rightarrow> StatsCollector \<Rightarrow> pystr list" where
  "stats_report duration rate st =
     [ascii ''[=] '' @ decimal (stats_frames st) @ ascii '' frames, '' @ with_commas (stats_bytes st) @
        ascii '' bytes in '' @ duration @ ascii ''s ('' @ rate @ ascii '' frames/s)''] @
     (if tallies (stats_buckets st) \<noteq> [] then [ascii ''[=] '' @ tallies (stats_buckets st)] else []) @
     (if stats_malformed st > 0 \<or> stats_truncated st > 0
      then [ascii ''[=] malformed: '' @ decimal (stats_malformed st) @
              ascii '', truncated: '' @ decimal (stats_truncated st)]
      else [])"

text \<open>What the counters say of the frames seen.\<close>

definition first_seen :: "'a list \<Rightarrow> 'a list" where
  "first_seen xs = rev (remdups (rev xs))"

definition counter_of :: "pystr list \<Rightarrow> counter" where
  "counter_of names = map (\<lambda>name. (name, count_list names name)) (first_seen names)"

definition frame_bucket :: "'l netprotocols \<Rightarrow> 'l DecodedFrame \<Rightarrow> pystr" where
  "frame_bucket np frame = bucket_of np (rev (frame_layers frame))"

text \<open>Malformed: the decode chain stopped at an error, or the IPv4 header's length is impossible.\<close>

definition counts_as_malformed :: "'l DecodedFrame \<Rightarrow> bool" where
  "counts_as_malformed f \<longleftrightarrow> frame_error f \<noteq> None \<or> frame_malformed_length f"

definition stats_of :: "'l netprotocols \<Rightarrow> 'l DecodedFrame list \<Rightarrow> StatsCollector" where
  "stats_of np fs =
     \<lparr>stats_frames = length fs,
      stats_bytes = sum_list (map frame_length fs),
      stats_malformed = length (filter counts_as_malformed fs),
      stats_truncated = length (filter frame_truncated fs),
      stats_buckets = counter_of (map (frame_bucket np) fs)\<rparr>"

lemma set_first_seen [simp]: "set (first_seen xs) = set xs"
  by (simp add: first_seen_def)

lemma distinct_first_seen [simp]: "distinct (first_seen xs)"
  by (simp add: first_seen_def)

lemma first_seen_snoc: "first_seen (xs @ [x]) = (if x \<in> set xs then first_seen xs else first_seen xs @ [x])"
  by (simp add: first_seen_def)

lemma counter_add_map:
  "distinct ks \<Longrightarrow> counter_add name (map (\<lambda>k. (k, c k)) ks) =
     (if name \<in> set ks then map (\<lambda>k. (k, if k = name then c k + 1 else c k)) ks
      else map (\<lambda>k. (k, c k)) ks @ [(name, 1)])"
proof (induction ks)
  case (Cons k ks)
  then show ?case by (auto intro!: map_cong)
qed simp

lemma counter_of_snoc: "counter_add name (counter_of names) = counter_of (names @ [name])"
proof (cases "name \<in> set names")
  case True
  have "(\<lambda>k. (k, if k = name then count_list names k + 1 else count_list names k)) =
      (\<lambda>k. (k, count_list (names @ [name]) k))"
    by (auto simp: fun_eq_iff)
  with True show ?thesis by (simp add: counter_of_def counter_add_map first_seen_snoc)
next
  case False
  have "map (\<lambda>k. (k, count_list (names @ [name]) k)) (first_seen names) =
      map (\<lambda>k. (k, count_list names k)) (first_seen names)"
    using False by (intro map_cong) auto
  with False show ?thesis by (simp add: counter_of_def counter_add_map first_seen_snoc count_list_0_iff)
qed

lemma stats_update_of: "stats_update np f (stats_of np fs) = stats_of np (fs @ [f])"
  by (simp add: stats_update_def stats_of_def Let_def counter_of_snoc frame_bucket_def counts_as_malformed_def)

interpretation stats_output: frame_output "\<lambda>f st. Inr (stats_update np f st) :: unit + StatsCollector"
  "\<lambda>st fs. st = stats_of np fs" "\<lambda>st f. True" for np
  by unfold_locales (simp_all add: stats_update_of)

lemma stats_of_Nil: "stats_of np [] = new_StatsCollector"
  by (simp add: stats_of_def new_StatsCollector_def counter_of_def first_seen_def)

text \<open>The tally names every bucket once, with its number of frames, and sums to the frames.\<close>

lemma sum_counter_of: "sum_list (map snd (counter_of names)) = length names"
  using sum_list_distinct_conv_sum_set [of "first_seen names" "count_list names"]
  by (simp add: counter_of_def o_def sum_count_set)

end
