(* ===== verification/Ndjson.thy ===== *)
theory Ndjson
  imports Output_Interface
begin

text \<open>
  \<^verbatim>\<open>OutputToNDJSON\<close> of \<^verbatim>\<open>src/rootwire/output.py\<close>, down to the characters
  \<^verbatim>\<open>json.dumps(record, separators=(",", ":"))\<close> writes. \<^verbatim>\<open>dataclasses.asdict\<close> of a layer
  is an argument: the fields are the library's.
\<close>

section \<open>\<^verbatim>\<open>json.dumps\<close>\<close>

text \<open>
  The values a record is made of. Tuples are written like lists; \<open>Py_bytes\<close> and any other
  object are not JSON serializable (\<^verbatim>\<open>TypeError\<close>).
\<close>

datatype py_value =
    Py_None
  | Py_bool bool
  | Py_int int
  | Py_str pystr
  | Py_bytes bytes
  | Py_list "py_value list"
  | Py_dict "(pystr \<times> py_value) list"
  | Py_object

datatype json_error = JSON_TypeError

definition json_u :: "nat \<Rightarrow> pystr" where
  "json_u n = [92, 117] @ zero_pad 4 (hex_digits n)"

text \<open>\<^verbatim>\<open>ensure_ascii\<close>: beyond the basic plane a character is a pair of surrogates.\<close>

definition json_escape :: "pychar \<Rightarrow> pystr" where
  "json_escape c =
     (if c = 34 then [92, 34] else if c = 92 then [92, 92]
      else if c = 10 then [92, 110] else if c = 13 then [92, 114] else if c = 9 then [92, 116]
      else if c = 12 then [92, 102] else if c = 8 then [92, 98]
      else if 32 \<le> c \<and> c \<le> 126 then [c]
      else if c < 0x10000 then json_u c
      else json_u (0xD800 + (c - 0x10000) div 1024 mod 1024) @ json_u (0xDC00 + (c - 0x10000) mod 1024))"

definition json_string :: "pystr \<Rightarrow> pystr" where
  "json_string s = [34] @ concat (map json_escape s) @ [34]"

fun json_dumps :: "py_value \<Rightarrow> json_error + pystr"
  and dumps_list :: "py_value list \<Rightarrow> json_error + pystr list"
  and dumps_items :: "(pystr \<times> py_value) list \<Rightarrow> json_error + pystr list" where
  "json_dumps Py_None = Inr (ascii ''null'')"
| "json_dumps (Py_bool b) = Inr (if b then ascii ''true'' else ascii ''false'')"
| "json_dumps (Py_int v) = Inr (str_int v)"
| "json_dumps (Py_str s) = Inr (json_string s)"
| "json_dumps (Py_bytes bs) = Inl JSON_TypeError"
| "json_dumps (Py_list vs) = then_do (dumps_list vs) (\<lambda>ss. Inr ([91] @ join [44] ss @ [93]))"
| "json_dumps (Py_dict items) = then_do (dumps_items items) (\<lambda>ss. Inr ([123] @ join [44] ss @ [125]))"
| "json_dumps Py_object = Inl JSON_TypeError"
| "dumps_list [] = Inr []"
| "dumps_list (v # vs) = then_do (json_dumps v) (\<lambda>s. then_do (dumps_list vs) (\<lambda>ss. Inr (s # ss)))"
| "dumps_items [] = Inr []"
| "dumps_items ((k, v) # items) =
     then_do (json_dumps v) (\<lambda>s. then_do (dumps_items items) (\<lambda>ss. Inr ((json_string k @ [58] @ s) # ss)))"

section \<open>The record of a frame\<close>

definition json_safe :: "py_value \<Rightarrow> py_value" where
  "json_safe value = (case value of Py_bytes bs \<Rightarrow> Py_str (bytes_hex bs) | _ \<Rightarrow> value)"

text \<open>Storing a key of a dictionary: in its place when it is there, else at the end.\<close>

fun dict_set :: "pystr \<Rightarrow> 'v \<Rightarrow> (pystr \<times> 'v) list \<Rightarrow> (pystr \<times> 'v) list" where
  "dict_set k v [] = [(k, v)]"
| "dict_set k v ((k', v') # items) = (if k = k' then (k, v) # items else (k', v') # dict_set k v items)"

fun dict_update :: "(pystr \<times> 'v) list \<Rightarrow> (pystr \<times> 'v) list \<Rightarrow> (pystr \<times> 'v) list" where
  "dict_update items [] = items"
| "dict_update items ((k, v) # news) = dict_update (dict_set k v items) news"

definition layer_record :: "'l netprotocols \<Rightarrow> ('l \<Rightarrow> (pystr \<times> py_value) list) \<Rightarrow> 'l \<Rightarrow> py_value" where
  "layer_record np asdict layer =
     Py_dict (dict_update [(ascii ''type'', Py_str (class_name np layer))]
       (map (\<lambda>(key, value). (key, json_safe value)) (asdict layer)))"

definition optional_str :: "pystr option \<Rightarrow> py_value" where
  "optional_str s = (case s of None \<Rightarrow> Py_None | Some t \<Rightarrow> Py_str t)"

definition frame_record ::
    "'l netprotocols \<Rightarrow> ('l \<Rightarrow> (pystr \<times> py_value) list) \<Rightarrow> 'l DecodedFrame \<Rightarrow> py_value" where
  "frame_record np asdict frame =
     Py_dict
       [(ascii ''number'', Py_int (int (frame_number frame))),
        (ascii ''timestamp'', Py_int (frame_timestamp frame)),
        (ascii ''interface'', optional_str (frame_interface frame)),
        (ascii ''length'', Py_int (int (frame_length frame))),
        (ascii ''truncated'', Py_bool (frame_truncated frame)),
        (ascii ''malformed_length'', Py_bool (frame_malformed_length frame)),
        (ascii ''error'', optional_str (frame_error frame)),
        (ascii ''payload_len'', Py_int (int (length (frame_payload frame)))),
        (ascii ''layers'', Py_list (map (layer_record np asdict) (frame_layers frame)))]"

definition ndjson_update ::
    "'l netprotocols \<Rightarrow> ('l \<Rightarrow> (pystr \<times> py_value) list) \<Rightarrow> 'l DecodedFrame \<Rightarrow> pystr \<Rightarrow> json_error + pystr" where
  "ndjson_update np asdict frame stream =
     then_do (json_dumps (frame_record np asdict frame)) (\<lambda>text. Inr (stream @ text @ [NEWLINE]))"

section \<open>What is serializable\<close>

fun serializable :: "py_value \<Rightarrow> bool" where
  "serializable (Py_bytes bs) \<longleftrightarrow> False"
| "serializable Py_object \<longleftrightarrow> False"
| "serializable (Py_list vs) \<longleftrightarrow> list_all serializable vs"
| "serializable (Py_dict items) \<longleftrightarrow> list_all (\<lambda>(k, v). serializable v) items"
| "serializable _ \<longleftrightarrow> True"

lemma dumps_Inr_iff:
  "(\<exists>s. json_dumps v = Inr s) \<longleftrightarrow> serializable v"
  "(\<exists>ss. dumps_list vs = Inr ss) \<longleftrightarrow> list_all serializable vs"
  "(\<exists>ss. dumps_items items = Inr ss) \<longleftrightarrow> list_all (\<lambda>(k, v). serializable v) items"
proof (induction v and vs and items rule: json_dumps_dumps_list_dumps_items.induct)
qed (auto simp: then_do_Inr_iff)

lemma json_u_printable: "\<forall>c \<in> set (json_u n). ascii_printable c"
  using zero_pad_printable [OF hex_digits_printable] by (auto simp: json_u_def ascii_printable_def)

lemma json_escape_printable: "\<forall>c \<in> set (json_escape c'). ascii_printable c"
  using json_u_printable by (auto simp: json_escape_def ascii_printable_def)

lemma json_string_printable: "\<forall>c \<in> set (json_string s). ascii_printable c"
  using json_escape_printable by (auto simp: json_string_def ascii_printable_def)

lemma ascii_printable_literals [simp]:
  "ascii_printable 91" "ascii_printable 93" "ascii_printable 123" "ascii_printable 125"
  "ascii_printable 44" "ascii_printable 58"
  by (simp_all add: ascii_printable_def)

text \<open>A JSON text is printable ASCII, whatever the strings in the value hold.\<close>

lemma dumps_printable:
  "json_dumps v = Inr s \<Longrightarrow> \<forall>c \<in> set s. ascii_printable c"
  "dumps_list vs = Inr ss \<Longrightarrow> \<forall>s \<in> set ss. \<forall>c \<in> set s. ascii_printable c"
  "dumps_items items = Inr ss \<Longrightarrow> \<forall>s \<in> set ss. \<forall>c \<in> set s. ascii_printable c"
proof (induction v and vs and items arbitrary: s and ss and ss rule: json_dumps_dumps_list_dumps_items.induct)
  case (6 vs)
  then show ?case by (fastforce simp: then_do_Inr_iff dest!: join_forall [where sep = "[44]", rotated])
next
  case (7 items)
  then show ?case by (fastforce simp: then_do_Inr_iff dest!: join_forall [where sep = "[44]", rotated])
next
  case (12 k v items)
  then show ?case using json_string_printable [of k] by (fastforce simp: then_do_Inr_iff)
qed (use json_string_printable str_int_printable in \<open>auto simp: then_do_Inr_iff ascii_printable_def\<close>)

section \<open>One line per frame\<close>

text \<open>Cutting a stream at its newlines, as a consumer of the stream does.\<close>

fun split_lines :: "pystr \<Rightarrow> pystr \<Rightarrow> pystr list" where
  "split_lines line [] = (if line = [] then [] else [line])"
| "split_lines line (c # s) = (if c = NEWLINE then line # split_lines [] s else split_lines (line @ [c]) s)"

lemma split_lines_line: "NEWLINE \<notin> set s \<Longrightarrow> split_lines line (s @ NEWLINE # rest) = (line @ s) # split_lines [] rest"
  by (induction s arbitrary: line) auto

lemma split_lines_concat:
  "\<forall>s \<in> set ss. NEWLINE \<notin> set s \<Longrightarrow> split_lines [] (concat (map (\<lambda>s. s @ [NEWLINE]) ss)) = ss"
  by (induction ss) (simp_all add: split_lines_line)

lemma dumps_no_newline: "json_dumps v = Inr s \<Longrightarrow> NEWLINE \<notin> set s"
  using dumps_printable(1) [of v s] by (auto simp: NEWLINE_def ascii_printable_def)

definition frame_line ::
    "'l netprotocols \<Rightarrow> ('l \<Rightarrow> (pystr \<times> py_value) list) \<Rightarrow> 'l DecodedFrame \<Rightarrow> pystr" where
  "frame_line np asdict frame = (case json_dumps (frame_record np asdict frame) of Inl _ \<Rightarrow> [] | Inr s \<Rightarrow> s)"

definition ndjson_has_seen ::
    "'l netprotocols \<Rightarrow> ('l \<Rightarrow> (pystr \<times> py_value) list) \<Rightarrow> pystr \<Rightarrow> 'l DecodedFrame list \<Rightarrow> bool" where
  "ndjson_has_seen np asdict stream fs \<longleftrightarrow>
     (\<forall>f \<in> set fs. serializable (frame_record np asdict f)) \<and>
     stream = concat (map (\<lambda>f. frame_line np asdict f @ [NEWLINE]) fs)"

interpretation ndjson_output: frame_output "ndjson_update np asdict" "ndjson_has_seen np asdict"
  "\<lambda>stream f. serializable (frame_record np asdict f)" for np asdict
proof
  fix stream fs f
  assume "ndjson_has_seen np asdict stream fs" and "serializable (frame_record np asdict f)"
  moreover from this(2) obtain s where "json_dumps (frame_record np asdict f) = Inr s"
    using dumps_Inr_iff(1) by blast
  ultimately show "\<exists>s'. ndjson_update np asdict f stream = Inr s' \<and> ndjson_has_seen np asdict s' (fs @ [f])"
    by (auto simp: ndjson_update_def ndjson_has_seen_def frame_line_def)
next
  fix stream f and fs :: "'a DecodedFrame list"
  assume "\<not> serializable (frame_record np asdict f)"
  then obtain e where "json_dumps (frame_record np asdict f) = Inl e"
    using dumps_Inr_iff(1) [of "frame_record np asdict f"] by (cases "json_dumps (frame_record np asdict f)") auto
  then show "\<exists>e. ndjson_update np asdict f stream = Inl e" by (simp add: ndjson_update_def)
qed simp

lemma ndjson_lines:
  assumes "ndjson_has_seen np asdict stream fs"
  shows "map Inr (split_lines [] stream) = map (\<lambda>f. json_dumps (frame_record np asdict f)) fs"
proof -
  have lines: "json_dumps (frame_record np asdict f) = Inr (frame_line np asdict f)" if "f \<in> set fs" for f
  proof -
    have "serializable (frame_record np asdict f)" using assms that by (simp add: ndjson_has_seen_def)
    then show ?thesis using dumps_Inr_iff(1) [of "frame_record np asdict f"] by (auto simp: frame_line_def)
  qed
  then have "\<forall>s \<in> set (map (frame_line np asdict) fs). NEWLINE \<notin> set s"
    using dumps_no_newline by fastforce
  from split_lines_concat [OF this] assms lines show ?thesis
    by (simp add: ndjson_has_seen_def o_def)
qed

section \<open>A layer's \<^verbatim>\<open>type\<close> key\<close>

lemma map_of_dict_set: "map_of (dict_set k v items) = (map_of items)(k \<mapsto> v)"
  by (induction k v items rule: dict_set.induct) (auto simp: fun_eq_iff)

lemma map_of_dict_update: "map_of (dict_update items news) = map_of items ++ map_of (rev news)"
  by (induction items news rule: dict_update.induct) (auto simp: map_of_dict_set map_add_def fun_eq_iff split: option.split)

lemma dict_set_keys: "map fst (dict_set k v items) =
    map fst items @ (if k \<in> set (map fst items) then [] else [k])"
  by (induction k v items rule: dict_set.induct) auto

lemma dict_update_keys:
  "distinct (map fst items) \<Longrightarrow> distinct (map fst (dict_update items news))"
  "\<exists>ks. map fst (dict_update items news) = map fst items @ ks"
  by (induction items news rule: dict_update.induct) (auto simp: dict_set_keys)

text \<open>
  What every key of a layer's record holds: the last field of that name. The class name
  survives only when the layer has no field called \<^verbatim>\<open>type\<close>; such a field replaces it.
\<close>

lemma layer_record_keys:
  "\<exists>items. layer_record np asdict layer = Py_dict items \<and> distinct (map fst items) \<and>
     (\<exists>keys. map fst items = ascii ''type'' # keys) \<and>
     (\<forall>k. map_of items k =
       (case map_of (rev (asdict layer)) k of
          Some value \<Rightarrow> Some (json_safe value)
        | None \<Rightarrow> if k = ascii ''type'' then Some (Py_str (class_name np layer)) else None))"
proof -
  have "map_of (rev (map (\<lambda>(key, value). (key, json_safe value)) xs)) k =
      map_option json_safe (map_of (rev xs) k)" for xs :: "(pystr \<times> py_value) list" and k
    by (simp add: rev_map map_of_map [symmetric] split_def)
      (metis (no_types, lifting) map_of_map case_prod_unfold comp_apply map_eq_conv)
  then show ?thesis
    using dict_update_keys [of "[(ascii ''type'', Py_str (class_name np layer))]"
        "map (\<lambda>(key, value). (key, json_safe value)) (asdict layer)"]
    by (auto simp add: layer_record_def map_of_dict_update map_add_def simp del: ascii_Cons
        split: option.split)
qed

lemma dict_update_replaces:
  "k \<in> fst ` set news \<Longrightarrow> dict_update ((k, v) # items) news = dict_update ((k, w) # items) news"
proof (induction news arbitrary: v w items)
  case (Cons new news)
  obtain a b where new: "new = (a, b)" by force
  show ?case
  proof (cases "a = k")
    case False
    with Cons.prems new have "k \<in> fst ` set news" by auto
    from Cons.IH [OF this] False new show ?thesis by simp
  qed (simp add: new)
qed simp

lemma layer_record_class:
  assumes "ascii ''type'' \<in> fst ` set (asdict layer)" and "asdict other = asdict layer"
  shows "layer_record np asdict other = layer_record np asdict layer"
proof -
  have "ascii ''type'' \<in> fst ` set (map (\<lambda>(key, value). (key, json_safe value)) (asdict layer))"
    using assms(1) by force
  from dict_update_replaces [OF this] assms(2) show ?thesis by (simp add: layer_record_def del: ascii_Cons)
qed

section \<open>Reading a string back\<close>

text \<open>
  What a JSON reader does with the characters between the quotes: short escapes,
  \<^verbatim>\<open>\uXXXX\<close>, and a pair of surrogates joined into one character.
\<close>

definition short_escape :: "pychar \<Rightarrow> pychar" where
  "short_escape e =
     (if e = 110 then 10 else if e = 114 then 13 else if e = 116 then 9
      else if e = 102 then 12 else if e = 98 then 8 else e)"

definition high_surrogate :: "nat \<Rightarrow> bool" where "high_surrogate u \<longleftrightarrow> 0xD800 \<le> u \<and> u < 0xDC00"
definition low_surrogate :: "nat \<Rightarrow> bool" where "low_surrogate u \<longleftrightarrow> 0xDC00 \<le> u \<and> u < 0xE000"

function json_unescape :: "pystr \<Rightarrow> pystr" where
  "json_unescape s =
     (case s of
        [] \<Rightarrow> []
      | c # s' \<Rightarrow>
          if c \<noteq> 92 then c # json_unescape s'
          else (case s' of
              [] \<Rightarrow> []
            | e # r \<Rightarrow>
                if e \<noteq> 117 then short_escape e # json_unescape r
                else let u = hex_value (take 4 r); r1 = drop 4 r; u2 = hex_value (take 4 (drop 2 r1))
                  in if high_surrogate u \<and> take 2 r1 = [92, 117] \<and> low_surrogate u2
                     then (0x10000 + (u - 0xD800) * 1024 + (u2 - 0xDC00)) # json_unescape (drop 6 r1)
                     else u # json_unescape r1))"
  by pat_completeness auto
termination
  by (relation "measure length") auto

declare json_unescape.simps [simp del]

text \<open>Characters of well-formed text: a code point that is not a surrogate.\<close>

definition scalar_value :: "pychar \<Rightarrow> bool" where
  "scalar_value c \<longleftrightarrow> c < 0x110000 \<and> \<not> high_surrogate c \<and> \<not> low_surrogate c"

lemma json_u_read:
  assumes "n < 65536"
  shows "\<exists>h. json_u n = 92 # 117 # h \<and> length h = 4 \<and> hex_value h = n"
proof -
  have "length (hex_digits n) \<le> 4" using assms length_hex_digits [of 4 n] by simp
  then show ?thesis by (simp add: json_u_def length_zero_pad)
qed

lemma unescape_json_u:
  assumes "n < 65536" "\<not> high_surrogate n"
  shows "json_unescape (json_u n @ s) = n # json_unescape s"
proof -
  obtain h where "json_u n = 92 # 117 # h" "length h = 4" "hex_value h = n"
    using json_u_read [OF assms(1)] by blast
  then show ?thesis using assms(2) by (simp add: json_unescape.simps [of "92 # 117 # h @ s"] Let_def)
qed

lemma unescape_pair:
  assumes "u < 1024" "v < 1024"
  shows "json_unescape (json_u (0xD800 + u) @ json_u (0xDC00 + v) @ s) =
    (0x10000 + u * 1024 + v) # json_unescape s"
proof -
  obtain h where h: "json_u (0xD800 + u) = 92 # 117 # h" "length h = 4" "hex_value h = 0xD800 + u"
    using json_u_read [of "0xD800 + u"] assms by auto
  obtain k where k: "json_u (0xDC00 + v) = 92 # 117 # k" "length k = 4" "hex_value k = 0xDC00 + v"
    using json_u_read [of "0xDC00 + v"] assms by auto
  show ?thesis
    using h k assms
    by (simp add: json_unescape.simps [of "92 # 117 # h @ 92 # 117 # k @ s"] Let_def
        high_surrogate_def low_surrogate_def)
qed

lemma unescape_escape_char:
  assumes "scalar_value c"
  shows "json_unescape (json_escape c @ s) = c # json_unescape s"
proof -
  consider "c \<in> {34, 92, 10, 13, 9, 12, 8}" | "c \<notin> {34, 92, 10, 13, 9, 12, 8}" "32 \<le> c" "c \<le> 126"
    | "json_escape c = json_u c" "c < 0x10000"
    | "json_escape c = json_u (0xD800 + (c - 0x10000) div 1024) @ json_u (0xDC00 + (c - 0x10000) mod 1024)"
      "0x10000 \<le> c"
  proof -
    have "json_escape c = json_u c" if "c \<notin> {34, 92, 10, 13, 9, 12, 8}" "\<not> (32 \<le> c \<and> c \<le> 126)" "c < 0x10000"
      using that by (auto simp: json_escape_def)
    moreover have "json_escape c =
        json_u (0xD800 + (c - 0x10000) div 1024) @ json_u (0xDC00 + (c - 0x10000) mod 1024)" if "0x10000 \<le> c"
    proof -
      have "(c - 0x10000) div 1024 < 1024"
        using assms that by (auto simp: scalar_value_def div_less_iff_less_mult less_diff_conv2)
      then show ?thesis using that by (simp add: json_escape_def)
    qed
    ultimately show thesis using that by (cases "c < 0x10000") force+
  qed
  then show ?thesis
  proof cases
    case 1
    then show ?thesis
      by (elim insertE) (simp_all add: json_escape_def json_unescape.simps [of "92 # _"] short_escape_def)
  next
    case 2
    then show ?thesis by (simp add: json_escape_def json_unescape.simps [of "c # s"])
  next
    case 3
    then show ?thesis using assms by (simp add: unescape_json_u scalar_value_def)
  next
    case 4
    then have "(c - 0x10000) div 1024 < 1024"
      using assms by (auto simp: scalar_value_def div_less_iff_less_mult less_diff_conv2)
    then show ?thesis using 4 by (simp add: unescape_pair)
  qed
qed

lemma json_string_read:
  "\<forall>c \<in> set s. scalar_value c \<Longrightarrow> json_unescape (butlast (tl (json_string s))) = s"
proof (induction s)
  case Nil
  show ?case by (simp add: json_string_def json_unescape.simps [of "[]"])
next
  case (Cons c s)
  then show ?case by (simp add: json_string_def butlast_append unescape_escape_char)
qed

end
