(* ===== verification/Screen.thy ===== *)
theory Screen
  imports Output_Interface
begin

text \<open>
  \<^verbatim>\<open>OutputToScreen\<close> of \<^verbatim>\<open>src/rootwire/output.py\<close>: the lines it prints for a frame. What a
  renderer reads of a layer is the argument \<open>view\<close>, one constructor per registered
  renderer; an attribute read inside a \<^verbatim>\<open>try\<close> is a sum with the library's
  \<^verbatim>\<open>InvalidFieldError\<close>, every other attribute is a value.
\<close>

section \<open>What the renderers read\<close>

record arp_view =
  arp_oper :: nat
  arp_oper_name :: pystr
  arp_ptype_name :: pystr
  arp_ptype_hex :: pystr
  arp_sha :: pystr
  arp_spa :: pystr
  arp_tha :: pystr
  arp_tpa :: pystr

text \<open>The options bytes of an IPv4 or TCP header, and \<^verbatim>\<open>parsed_options\<close>.\<close>

record options_view =
  raw_options :: bytes
  parsed_options :: "invalid_field + tlv_option list"

record ipv4_view =
  v4_src :: pystr
  v4_dst :: pystr
  v4_ttl :: nat
  v4_flags_name :: pystr
  v4_identification :: nat
  v4_protocol_name :: pystr
  v4_checksum_hex :: pystr
  v4_options :: options_view

record ipv6_view =
  v6_src :: pystr
  v6_dst :: pystr
  v6_hop_limit :: nat
  v6_traffic_class_hex :: pystr
  v6_flow_label_hex :: pystr
  v6_next_header_name :: pystr

record gre_view =
  gre_protocol_name :: pystr
  gre_checksum :: "pystr option"
  gre_key :: "nat option"
  gre_sequence :: "nat option"

record group_record =
  record_type_name :: pystr
  multicast_address :: pystr
  source_addresses :: "pystr list"

record igmp_view =
  igmp_type_name :: pystr
  igmp_max_resp_code :: nat
  igmp_checksum_hex :: pystr
  igmp_group_address :: "invalid_field + pystr option"
  igmp_group_records :: "invalid_field + group_record list option"

record icmp_view =
  icmp_type :: nat
  icmp_type_name :: pystr
  icmp_code :: nat
  icmp_checksum_hex :: pystr

record ndp_option =
  ndp_type_name :: pystr
  link_layer_address :: "pystr option"
  ndp_data :: bytes

record ndp_view =
  ndp_target_address :: "pystr option"
  ndp_options :: "invalid_field + ndp_option list option"

record tcp_view =
  tcp_src_port :: nat
  tcp_dst_port :: nat
  tcp_flags_hex :: pystr
  tcp_flags_str :: pystr
  tcp_seq :: nat
  tcp_ack :: nat
  tcp_window :: nat
  tcp_checksum_hex :: pystr
  tcp_options :: options_view

record udp_view =
  udp_src_port :: nat
  udp_dst_port :: nat
  udp_length :: nat
  udp_checksum_hex :: pystr

record dns_question =
  q_name :: pystr
  q_type :: nat

record dns_answer =
  a_name :: pystr
  a_rtype_name :: pystr
  a_ttl :: nat
  a_rdata :: pystr

record dns_view =
  dns_qr :: bool
  dns_id :: nat
  dns_flags_hex :: pystr
  dns_opcode :: nat
  dns_rcode :: nat
  dns_questions :: "invalid_field + dns_question list"
  dns_answers :: "invalid_field + dns_answer list"

record dhcp_view =
  dhcp_message_type :: "invalid_field + pystr option"
  dhcp_op_name :: pystr
  dhcp_client_mac :: "pystr option"
  dhcp_xid :: nat
  dhcp_ciaddr :: pystr
  dhcp_yiaddr :: pystr
  dhcp_siaddr :: pystr
  dhcp_giaddr :: pystr
  dhcp_option_count :: "invalid_field + nat"

datatype layer_view =
    Ethernet_view (eth_src: pystr) (eth_dst: pystr) (eth_type_name: pystr)
  | ARP_view arp_view
  | IPv4_view ipv4_view
  | IPv6_view ipv6_view
  | HopByHop_view pystr
  | Destination_view pystr
  | Routing_view nat nat pystr
  | Fragment_view nat bool pystr
  | GRE_view gre_view
  | IGMP_view igmp_view
  | ICMPv4_view icmp_view
  | ICMPv6_view icmp_view ndp_view
  | TCP_view tcp_view
  | UDP_view udp_view
  | DNS_view dns_view
  | DNSOverTCP_view nat
  | DHCP_view dhcp_view
  | VLAN_view nat nat nat pystr
  | No_renderer

text \<open>
  The library's part: the view of a layer (the renderer is the one \<^verbatim>\<open>singledispatch\<close>
  selects for its type), the addresses of an IP layer, and the checksum functions. The
  environment: \<^verbatim>\<open>str.isprintable\<close>, and the local time of a timestamp as text, whose
  \<^verbatim>\<open>OverflowError\<close> or \<^verbatim>\<open>OSError\<close> (a time the platform cannot represent) is a value.
\<close>

datatype clock_error = ClockError

record 'l screen_env =
  view :: "'l \<Rightarrow> layer_view"
  ip_src :: "'l \<Rightarrow> pystr"
  ip_dst :: "'l \<Rightarrow> pystr"
  verify :: "'l \<Rightarrow> 'l option \<Rightarrow> bytes \<Rightarrow> invalid_field + bool"
  compute :: "'l \<Rightarrow> 'l option \<Rightarrow> bytes \<Rightarrow> invalid_field + nat"
  isprintable :: "pychar \<Rightarrow> bool"
  clock_text :: "int \<Rightarrow> clock_error + pystr"

section \<open>UTF-8 with undecodable bytes ignored\<close>

text \<open>
  \<^verbatim>\<open>bytes.decode(errors="ignore")\<close>. An undecodable byte is dropped; dropping only the
  first byte of a broken sequence is the same as dropping its longest valid prefix, since
  the rest of it are continuation bytes, none of which starts a character.
\<close>

definition continuation :: "nat \<Rightarrow> bool" where "continuation b \<longleftrightarrow> 0x80 \<le> b \<and> b < 0xC0"

fun utf8_take :: "nat list \<Rightarrow> (pychar \<times> nat) option" where
  "utf8_take [] = None"
| "utf8_take (a # bs) =
     (if a < 0x80 then Some (a, 1)
      else case bs of
          [] \<Rightarrow> None
        | b # cs \<Rightarrow>
            if 0xC2 \<le> a \<and> a < 0xE0
            then (if continuation b then Some ((a - 0xC0) * 64 + (b - 0x80), 2) else None)
            else case cs of
                [] \<Rightarrow> None
              | c # ds \<Rightarrow>
                  if 0xE0 \<le> a \<and> a < 0xF0
                  then (if continuation b \<and> continuation c \<and> (a = 0xE0 \<longrightarrow> 0xA0 \<le> b) \<and> (a = 0xED \<longrightarrow> b < 0xA0)
                        then Some ((a - 0xE0) * 4096 + (b - 0x80) * 64 + (c - 0x80), 3) else None)
                  else case ds of
                      [] \<Rightarrow> None
                    | d # _ \<Rightarrow>
                        if 0xF0 \<le> a \<and> a < 0xF5 \<and> continuation b \<and> continuation c \<and> continuation d \<and>
                           (a = 0xF0 \<longrightarrow> 0x90 \<le> b) \<and> (a = 0xF4 \<longrightarrow> b < 0x90)
                        then Some ((a - 0xF0) * 262144 + (b - 0x80) * 4096 + (c - 0x80) * 64 + (d - 0x80), 4)
                        else None)"

fun utf8_ignore :: "nat list \<Rightarrow> pystr" where
  "utf8_ignore [] = []"
| "utf8_ignore (b # bs) =
     (case utf8_take (b # bs) of
        None \<Rightarrow> utf8_ignore bs
      | Some (c, n) \<Rightarrow> c # utf8_ignore (drop (n - 1) bs))"

definition decode_ignore :: "bytes \<Rightarrow> pystr" where
  "decode_ignore bs = utf8_ignore (map unat bs)"

section \<open>Renderers\<close>

definition indent1 :: pystr where "indent1 = ascii ''    ''"
definition indent2 :: pystr where "indent2 = ascii ''        ''"

fun error_text :: "invalid_field \<Rightarrow> pystr" where
  "error_text (InvalidFieldError message) = message"

definition render_options_line :: "options_view \<Rightarrow> pystr list" where
  "render_options_line v =
     (if raw_options v = [] then []
      else case parsed_options v of
          Inl e \<Rightarrow> [indent2 @ ascii ''[!] Options malformed: '' @ error_text e]
        | Inr options \<Rightarrow> [indent2 @ ascii ''Options: '' @ join (ascii '', '') (map format_option options)])"

definition render_ethernet :: "pystr \<Rightarrow> pystr \<Rightarrow> pystr \<Rightarrow> pystr list" where
  "render_ethernet src dst ethertype =
     [indent1 @ ascii ''[+] Ethernet '' @ src @ ascii '' -> '' @ dst,
      indent2 @ ascii ''EtherType: '' @ ethertype]"

definition render_arp :: "arp_view \<Rightarrow> pystr list" where
  "render_arp v =
     (let summary =
        (if arp_oper v = 1 then ascii ''who has '' @ arp_tpa v @ ascii ''? tell '' @ arp_spa v
         else arp_spa v @ ascii '' is at '' @ arp_sha v)
      in [indent1 @ ascii ''[+] ARP '' @ summary,
          indent2 @ ascii ''Operation: '' @ decimal (arp_oper v) @ ascii '' ('' @ arp_oper_name v @ ascii '') | '' @
            ascii ''Protocol Type: '' @ arp_ptype_name v @ ascii '' ('' @ arp_ptype_hex v @ ascii '')'',
          indent2 @ ascii ''Sender: '' @ arp_sha v @ ascii '' / '' @ arp_spa v,
          indent2 @ ascii ''Target: '' @ arp_tha v @ ascii '' / '' @ arp_tpa v])"

definition render_ipv4 :: "'l netprotocols \<Rightarrow> 'l screen_env \<Rightarrow> 'l \<Rightarrow> ipv4_view \<Rightarrow> pystr list" where
  "render_ipv4 np env layer v =
     [indent1 @ ascii ''[+] IPv4 '' @ v4_src v @ ascii '' -> '' @ v4_dst v,
      indent2 @ ascii ''TTL: '' @ decimal (v4_ttl v) @ ascii '' | Flags: '' @ v4_flags_name v @ ascii '' | '' @
        ascii ''Total Length: '' @ decimal (total_length np layer) @ ascii '' | ID: '' @ decimal (v4_identification v),
      indent2 @ ascii ''Protocol: '' @ v4_protocol_name v @ ascii '' | '' @
        ascii ''Checksum: '' @ v4_checksum_hex v @ checksum_note (verify env) (compute env) layer None []] @
     render_options_line (v4_options v)"

definition render_ipv6 :: "'l netprotocols \<Rightarrow> 'l \<Rightarrow> ipv6_view \<Rightarrow> pystr list" where
  "render_ipv6 np layer v =
     [indent1 @ ascii ''[+] IPv6 '' @ v6_src v @ ascii '' -> '' @ v6_dst v,
      indent2 @ ascii ''Hop Limit: '' @ decimal (v6_hop_limit v) @ ascii '' | '' @
        ascii ''Traffic Class: '' @ v6_traffic_class_hex v @ ascii '' | '' @
        ascii ''Flow Label: '' @ v6_flow_label_hex v,
      indent2 @ ascii ''Payload Length: '' @ decimal (payload_length np layer) @ ascii '' | '' @
        ascii ''Next Header: '' @ v6_next_header_name v]"

definition render_options_header :: "'l netprotocols \<Rightarrow> 'l \<Rightarrow> pystr \<Rightarrow> pystr \<Rightarrow> pystr list" where
  "render_options_header np layer next_header title =
     [indent1 @ ascii ''[+] '' @ title,
      indent2 @ ascii ''Length: '' @ decimal (header_len np layer) @ ascii '' bytes | '' @
        ascii ''Next Header: '' @ next_header]"

definition render_routing :: "'l netprotocols \<Rightarrow> 'l \<Rightarrow> nat \<Rightarrow> nat \<Rightarrow> pystr \<Rightarrow> pystr list" where
  "render_routing np layer routing_type segments_left next_header =
     [indent1 @ ascii ''[+] IPv6 Routing (type '' @ decimal routing_type @ ascii '')'',
      indent2 @ ascii ''Segments Left: '' @ decimal segments_left @ ascii '' | '' @
        ascii ''Length: '' @ decimal (header_len np layer) @ ascii '' bytes | '' @
        ascii ''Next Header: '' @ next_header]"

definition render_fragment :: "'l netprotocols \<Rightarrow> 'l \<Rightarrow> nat \<Rightarrow> bool \<Rightarrow> pystr \<Rightarrow> pystr list" where
  "render_fragment np layer identification m_flag next_header =
     (let position =
        (if fragment_offset np layer = 0 then ascii ''first fragment''
         else ascii ''fragment at offset '' @ decimal (fragment_offset np layer * 8))
      in [indent1 @ ascii ''[+] IPv6 Fragment ('' @ position @ ascii '')'',
          indent2 @ ascii ''ID: '' @ decimal identification @ ascii '' | '' @
            ascii ''More Fragments: '' @ (if m_flag then ascii ''yes'' else ascii ''no'') @ ascii '' | '' @
            ascii ''Next Header: '' @ next_header])"

definition render_gre :: "gre_view \<Rightarrow> pystr list" where
  "render_gre v =
     (let optional =
        (case gre_checksum v of None \<Rightarrow> [] | Some s \<Rightarrow> [ascii ''Checksum: '' @ s]) @
        (case gre_key v of None \<Rightarrow> [] | Some k \<Rightarrow> [ascii ''Key: '' @ hex_prefixed 10 k]) @
        (case gre_sequence v of None \<Rightarrow> [] | Some n \<Rightarrow> [ascii ''Sequence: '' @ decimal n])
      in [indent1 @ ascii ''[+] GRE (protocol: '' @ gre_protocol_name v @ ascii '')'',
          indent2 @ (if optional \<noteq> [] then join (ascii '' | '') optional else ascii ''No optional fields'')])"

definition render_group_record :: "group_record \<Rightarrow> pystr" where
  "render_group_record r =
     (let sources = join (ascii '', '') (source_addresses r);
          shown = (if sources \<noteq> [] then sources else ascii ''none'')
      in indent2 @ ascii ''Record: '' @ record_type_name r @ ascii '' '' @
           multicast_address r @ ascii '' (sources: '' @ shown @ ascii '')'')"

definition render_igmp :: "igmp_view \<Rightarrow> pystr list" where
  "render_igmp v =
     [indent1 @ ascii ''[+] IGMP '' @ igmp_type_name v,
      indent2 @ ascii ''Max Resp Code: '' @ decimal (igmp_max_resp_code v) @ ascii '' | '' @
        ascii ''Checksum: '' @ igmp_checksum_hex v] @
     (case then_do (igmp_group_address v) (\<lambda>address.
             then_do (igmp_group_records v) (\<lambda>records. Inr (address, records))) of
        Inl e \<Rightarrow> [indent2 @ ascii ''[!] Body malformed: '' @ error_text e]
      | Inr (address, records) \<Rightarrow>
          (case address of None \<Rightarrow> [] | Some g \<Rightarrow> [indent2 @ ascii ''Group: '' @ g]) @
          map render_group_record (case records of None \<Rightarrow> [] | Some rs \<Rightarrow> rs))"

text \<open>\<^verbatim>\<open>_is_fragmented\<close> silences the checksum note of a transport layer.\<close>

definition transport_note ::
    "'l netprotocols \<Rightarrow> 'l screen_env \<Rightarrow> 'l DecodedFrame \<Rightarrow> 'l \<Rightarrow> 'l option \<Rightarrow> bytes \<Rightarrow> pystr" where
  "transport_note np env frame layer ip payload =
     (if is_fragmented np frame then [] else checksum_note (verify env) (compute env) layer ip payload)"

text \<open>\<^verbatim>\<open>frame.layer(IPv4) or frame.layer(IPv6)\<close> (a layer object is always true).\<close>

definition ip_layer :: "'l netprotocols \<Rightarrow> 'l DecodedFrame \<Rightarrow> 'l option" where
  "ip_layer np frame =
     (case frame_layer np frame IPv4_class of
        Some ip \<Rightarrow> Some ip
      | None \<Rightarrow> frame_layer np frame IPv6_class)"

definition render_ndp_option :: "ndp_option \<Rightarrow> pystr" where
  "render_ndp_option opt =
     (let detail = (case link_layer_address opt of
           None \<Rightarrow> bytes_hex (ndp_data opt)
         | Some a \<Rightarrow> if a \<noteq> [] then a else bytes_hex (ndp_data opt))
      in indent2 @ ascii ''Option: '' @ ndp_type_name opt @
           (if detail \<noteq> [] then ascii '' ('' @ detail @ ascii '')'' else []))"

definition render_ndp :: "ndp_view \<Rightarrow> pystr list" where
  "render_ndp v =
     (case ndp_target_address v of None \<Rightarrow> [] | Some target \<Rightarrow> [indent2 @ ascii ''Target: '' @ target]) @
     (case ndp_options v of
        Inl e \<Rightarrow> [indent2 @ ascii ''[!] NDP options malformed: '' @ error_text e]
      | Inr options \<Rightarrow> map render_ndp_option (case options of None \<Rightarrow> [] | Some os \<Rightarrow> os))"

definition render_icmp ::
    "'l netprotocols \<Rightarrow> 'l screen_env \<Rightarrow> 'l DecodedFrame \<Rightarrow> 'l \<Rightarrow> icmp_view \<Rightarrow> ndp_view option \<Rightarrow> pystr list" where
  "render_icmp np env frame layer v ndp =
     (let version = (if ndp = None then 4 else 6);
          ip = frame_layer np frame (if ndp = None then IPv4_class else IPv6_class);
          route = (case ip of None \<Rightarrow> [] | Some i \<Rightarrow> ascii '' '' @ ip_src env i @ ascii '' -> '' @ ip_dst env i);
          note = transport_note np env frame layer (if version = 6 then ip else None) []
      in [indent1 @ ascii ''[+] ICMPv'' @ decimal version @ route,
          indent2 @ ascii ''Type: '' @ decimal (icmp_type v) @ ascii '' ('' @ icmp_type_name v @ ascii '') | '' @
            ascii ''Code: '' @ decimal (icmp_code v) @ ascii '' | Checksum: '' @ icmp_checksum_hex v @ note] @
         (case ndp of None \<Rightarrow> [] | Some n \<Rightarrow> render_ndp n))"

definition render_tcp ::
    "'l netprotocols \<Rightarrow> 'l screen_env \<Rightarrow> 'l DecodedFrame \<Rightarrow> 'l \<Rightarrow> tcp_view \<Rightarrow> pystr list" where
  "render_tcp np env frame layer v =
     (let note = transport_note np env frame layer (ip_layer np frame) (trailing_bytes np frame layer)
      in [indent1 @ ascii ''[+] TCP '' @ decimal (tcp_src_port v) @ ascii '' -> '' @ decimal (tcp_dst_port v),
          indent2 @ ascii ''Flags: '' @ tcp_flags_hex v @ ascii '' ('' @ tcp_flags_str v @ ascii '') | '' @
            ascii ''Seq: '' @ decimal (tcp_seq v) @ ascii '' | Ack: '' @ decimal (tcp_ack v),
          indent2 @ ascii ''Window: '' @ decimal (tcp_window v) @ ascii '' | '' @
            ascii ''Checksum: '' @ tcp_checksum_hex v @ note] @
         render_options_line (tcp_options v))"

definition render_udp ::
    "'l netprotocols \<Rightarrow> 'l screen_env \<Rightarrow> 'l DecodedFrame \<Rightarrow> 'l \<Rightarrow> udp_view \<Rightarrow> pystr list" where
  "render_udp np env frame layer v =
     (let note = transport_note np env frame layer (ip_layer np frame) (trailing_bytes np frame layer)
      in [indent1 @ ascii ''[+] UDP '' @ decimal (udp_src_port v) @ ascii '' -> '' @ decimal (udp_dst_port v),
          indent2 @ ascii ''Length: '' @ decimal (udp_length v) @ ascii '' | '' @
            ascii ''Checksum: '' @ udp_checksum_hex v @ note])"

definition render_question :: "(pychar \<Rightarrow> bool) \<Rightarrow> dns_question \<Rightarrow> pystr" where
  "render_question printable q =
     indent2 @ ascii ''Q: '' @ sanitize_for_terminal printable (q_name q) @
       ascii '' (type '' @ decimal (q_type q) @ ascii '')''"

definition render_answer :: "(pychar \<Rightarrow> bool) \<Rightarrow> dns_answer \<Rightarrow> pystr" where
  "render_answer printable a =
     indent2 @ ascii ''A: '' @ sanitize_for_terminal printable (a_name a) @ ascii '' '' @ a_rtype_name a @
       ascii '' '' @ decimal (a_ttl a) @ ascii ''s -> '' @ sanitize_for_terminal printable (a_rdata a)"

definition render_dns :: "(pychar \<Rightarrow> bool) \<Rightarrow> dns_view \<Rightarrow> pystr list" where
  "render_dns printable v =
     [indent1 @ ascii ''[+] DNS '' @ (if dns_qr v then ascii ''response'' else ascii ''query'') @
        ascii '' (id '' @ hex_prefixed 6 (dns_id v) @ ascii '')'',
      indent2 @ ascii ''Flags: '' @ dns_flags_hex v @ ascii '' | Opcode: '' @ decimal (dns_opcode v) @ ascii '' | '' @
        ascii ''RCODE: '' @ decimal (dns_rcode v)] @
     (case then_do (dns_questions v) (\<lambda>questions.
             then_do (dns_answers v) (\<lambda>answers. Inr (questions, answers))) of
        Inl e \<Rightarrow> [indent2 @ ascii ''[!] Records malformed: '' @ error_text e]
      | Inr (questions, answers) \<Rightarrow>
          map (render_question printable) questions @ map (render_answer printable) answers)"

definition render_dns_over_tcp :: "nat \<Rightarrow> pystr list" where
  "render_dns_over_tcp message_length =
     [indent1 @ ascii ''[+] DNS over TCP '' @
        ascii ''(message length: '' @ decimal message_length @ ascii '' bytes)'']"

definition render_dhcp :: "dhcp_view \<Rightarrow> pystr list" where
  "render_dhcp v =
     (let message_type = (case dhcp_message_type v of Inl _ \<Rightarrow> None | Inr t \<Rightarrow> t);
          title = (case message_type of None \<Rightarrow> dhcp_op_name v | Some t \<Rightarrow> if t \<noteq> [] then t else dhcp_op_name v);
          mac = (case dhcp_client_mac v of None \<Rightarrow> ascii ''n/a'' | Some m \<Rightarrow> if m \<noteq> [] then m else ascii ''n/a'')
      in [indent1 @ ascii ''[+] DHCP '' @ title,
          indent2 @ ascii ''Client: '' @ mac @ ascii '' | XID: '' @ hex_prefixed 10 (dhcp_xid v),
          indent2 @ ascii ''Client Addr: '' @ dhcp_ciaddr v @ ascii '' | Your Addr: '' @ dhcp_yiaddr v @ ascii '' | '' @
            ascii ''Server Addr: '' @ dhcp_siaddr v @ ascii '' | Gateway Addr: '' @ dhcp_giaddr v] @
         (case dhcp_option_count v of
            Inl e \<Rightarrow> [indent2 @ ascii ''[!] Options malformed: '' @ error_text e]
          | Inr n \<Rightarrow> if n \<noteq> 0 then [indent2 @ ascii ''Options: '' @ decimal n @ ascii '' parsed''] else []))"

definition render_vlan :: "nat \<Rightarrow> nat \<Rightarrow> nat \<Rightarrow> pystr \<Rightarrow> pystr list" where
  "render_vlan vid pcp dei ethertype =
     [indent1 @ ascii ''[+] 802.1Q VLAN (VID '' @ decimal vid @ ascii '', PCP '' @ decimal pcp @ ascii '', '' @
        ascii ''DEI '' @ decimal dei @ ascii '')'',
      indent2 @ ascii ''EtherType: '' @ ethertype]"

fun render_layer ::
    "'l netprotocols \<Rightarrow> 'l screen_env \<Rightarrow> 'l DecodedFrame \<Rightarrow> 'l \<Rightarrow> layer_view \<Rightarrow> pystr list" where
  "render_layer np env frame layer (Ethernet_view src dst ethertype) = render_ethernet src dst ethertype"
| "render_layer np env frame layer (ARP_view v) = render_arp v"
| "render_layer np env frame layer (IPv4_view v) = render_ipv4 np env layer v"
| "render_layer np env frame layer (IPv6_view v) = render_ipv6 np layer v"
| "render_layer np env frame layer (HopByHop_view next_header) =
     render_options_header np layer next_header (ascii ''IPv6 Hop-by-Hop Options'')"
| "render_layer np env frame layer (Destination_view next_header) =
     render_options_header np layer next_header (ascii ''IPv6 Destination Options'')"
| "render_layer np env frame layer (Routing_view routing_type segments_left next_header) =
     render_routing np layer routing_type segments_left next_header"
| "render_layer np env frame layer (Fragment_view identification m_flag next_header) =
     render_fragment np layer identification m_flag next_header"
| "render_layer np env frame layer (GRE_view v) = render_gre v"
| "render_layer np env frame layer (IGMP_view v) = render_igmp v"
| "render_layer np env frame layer (ICMPv4_view v) = render_icmp np env frame layer v None"
| "render_layer np env frame layer (ICMPv6_view v ndp) = render_icmp np env frame layer v (Some ndp)"
| "render_layer np env frame layer (TCP_view v) = render_tcp np env frame layer v"
| "render_layer np env frame layer (UDP_view v) = render_udp np env frame layer v"
| "render_layer np env frame layer (DNS_view v) = render_dns (isprintable env) v"
| "render_layer np env frame layer (DNSOverTCP_view message_length) = render_dns_over_tcp message_length"
| "render_layer np env frame layer (DHCP_view v) = render_dhcp v"
| "render_layer np env frame layer (VLAN_view vid pcp dei ethertype) = render_vlan vid pcp dei ethertype"
| "render_layer np env frame layer No_renderer =
     [indent1 @ ascii ''[+] '' @ class_name np layer @ ascii '' (no renderer)'']"

section \<open>\<^verbatim>\<open>update\<close>\<close>

definition header_line :: "pystr \<Rightarrow> 'l DecodedFrame \<Rightarrow> pystr" where
  "header_line local_time frame =
     (let interface = (case frame_interface frame of
           None \<Rightarrow> ascii ''all'' | Some i \<Rightarrow> if i \<noteq> [] then i else ascii ''all'')
      in ascii ''[>] Frame #'' @ decimal (frame_number frame) @ ascii '' at '' @ local_time @ ascii '' ('' @
           interface @ ascii '', '' @ decimal (frame_length frame) @ ascii '' bytes)'')"

definition diagnosis_lines :: "'l netprotocols \<Rightarrow> 'l DecodedFrame \<Rightarrow> pystr list" where
  "diagnosis_lines np frame =
     (case frame_error frame of
        None \<Rightarrow> []
      | Some e \<Rightarrow> [indent1 @ ascii ''[!] Malformed header: '' @ e]) @
     (if frame_truncated frame
      then [indent1 @ ascii ''[!] Truncated: the IP datagram declares more bytes '' @ ascii ''than were captured'']
      else []) @
     (if frame_malformed_length frame
      then (case frame_layer np frame IPv4_class of
              None \<Rightarrow> []
            | Some ip \<Rightarrow>
                [indent1 @ ascii ''[!] Malformed: IPv4 total_length ('' @ decimal (total_length np ip) @ ascii '') '' @
                   ascii ''is smaller than its header ('' @ decimal (header_len np ip) @ ascii '' bytes)''])
      else [])"

definition payload_lines :: "(pychar \<Rightarrow> bool) \<Rightarrow> bool \<Rightarrow> bytes \<Rightarrow> pystr list" where
  "payload_lines printable display_payload payload =
     (if display_payload \<and> payload \<noteq> []
      then let cs = sanitize_for_terminal printable (decode_ignore payload)
           in [indent1 @ ascii ''[+] Payload ('' @ decimal (length payload) @ ascii '' bytes):'',
               indent2 @ replace_char NEWLINE (NEWLINE # indent2) cs]
      else [])"

definition screen_lines ::
    "'l netprotocols \<Rightarrow> 'l screen_env \<Rightarrow> bool \<Rightarrow> 'l DecodedFrame \<Rightarrow> clock_error + pystr list" where
  "screen_lines np env display_payload frame =
     then_do (clock_text env (frame_timestamp frame)) (\<lambda>local_time. Inr
       ([header_line local_time frame] @
        concat (map (\<lambda>layer. render_layer np env frame layer (view env layer)) (frame_layers frame)) @
        diagnosis_lines np frame @
        payload_lines (isprintable env) display_payload (frame_payload frame) @
        [[]]))"

definition print_lines :: "pystr list \<Rightarrow> pystr" where
  "print_lines ls = concat (map (\<lambda>line. line @ [NEWLINE]) ls)"

definition screen_update ::
    "'l netprotocols \<Rightarrow> 'l screen_env \<Rightarrow> bool \<Rightarrow> 'l DecodedFrame \<Rightarrow> pystr \<Rightarrow> clock_error + pystr" where
  "screen_update np env display_payload frame stream =
     then_do (screen_lines np env display_payload frame) (\<lambda>ls. Inr (stream @ print_lines ls))"

end
