(* ===== verification/Cli.thy ===== *)
theory Cli
  imports Pcap Capture Ndjson Screen Bpf_Codegen
begin

text \<open>
  \<^verbatim>\<open>src/rootwire/cli.py\<close>: the checks of the arguments, the chain of outputs, the loop that
  decodes every frame of a source and hands it to every output, and \<^verbatim>\<open>main\<close> with its exit
  codes. A source is the frames it yields and how it ends.
\<close>

section \<open>Exceptions\<close>

text \<open>
  The exceptions that reach \<^verbatim>\<open>main\<close>, by the class its handlers look at. The
  \<^verbatim>\<open>struct.error\<close>, \<^verbatim>\<open>TypeError\<close>, \<^verbatim>\<open>RuntimeError\<close> and clock errors are none of the classes
  handled.
\<close>

datatype exn =
    Exn_OSError os_error
  | Exn_ValueError pystr
  | Exn_struct_error
  | Exn_TypeError
  | Exn_RuntimeError
  | Exn_clock

fun pcap_exn :: "pcap_error \<Rightarrow> exn" where
  "pcap_exn PackError = Exn_struct_error"
| "pcap_exn ClosedFileError = Exn_ValueError (ascii ''write to closed file'')"

section \<open>Arguments\<close>

text \<open>What \<^verbatim>\<open>argparse\<close> leaves in the namespace.\<close>

record arguments =
  arg_interface :: "pystr list option"
  arg_read :: "pystr option"
  arg_write :: "pystr option"
  arg_filter :: "pystr option"
  arg_json :: bool
  arg_data :: bool

datatype usage_error = Read_and_interface | Read_and_filter | Same_file | Bad_filter compile_reason

text \<open>\<open>samefile\<close> and \<open>realpath\<close> are those of \<^verbatim>\<open>os.path\<close>.\<close>

definition same_file :: "(pystr \<Rightarrow> pystr \<Rightarrow> os_error + bool) \<Rightarrow> (pystr \<Rightarrow> pystr) \<Rightarrow> pystr \<Rightarrow> pystr \<Rightarrow> bool" where
  "same_file samefile realpath a b =
     (case samefile a b of
        Inr r \<Rightarrow> r
      | Inl _ \<Rightarrow> realpath a = realpath b)"

definition validate_args :: "(pystr \<Rightarrow> pystr \<Rightarrow> bool) \<Rightarrow> arguments \<Rightarrow> usage_error + unit" where
  "validate_args same args =
     (if arg_read args \<noteq> None \<and> arg_interface args \<noteq> None then Inl Read_and_interface
      else if arg_read args \<noteq> None \<and> arg_filter args \<noteq> None then Inl Read_and_filter
      else case arg_read args of
          None \<Rightarrow> Inr ()
        | Some r \<Rightarrow>
            (case arg_write args of
               None \<Rightarrow> Inr ()
             | Some w \<Rightarrow> if same r w then Inl Same_file else Inr ()))"

datatype startup_error =
    Usage usage_error
  | Uncaught_compile compile_error
  | Uncaught_pack

definition resolve_filter_program ::
    "endian \<Rightarrow> 64 word \<Rightarrow> arguments \<Rightarrow> startup_error + FilterProgram option" where
  "resolve_filter_program e addr args =
     (case arg_filter args of
        None \<Rightarrow> Inr None
      | Some name_or_expr \<Rightarrow>
          then_do
            (case map_of CANNED_FILTERS name_or_expr of
               Some prog \<Rightarrow> Inr prog
             | None \<Rightarrow>
                 (case compile_expression name_or_expr of
                    Inr prog \<Rightarrow> Inr prog
                  | Inl (BPFCompileError reason) \<Rightarrow> Inl (Usage (Bad_filter reason))
                  | Inl other \<Rightarrow> Inl (Uncaught_compile other)))
            (\<lambda>prog.
               case new_FilterProgram e addr prog of
                 Inl _ \<Rightarrow> Inl Uncaught_pack
               | Inr program \<Rightarrow> Inr (Some program)))"

section \<open>The chain of outputs\<close>

text \<open>What the outputs are given by the library and the environment.\<close>

record 'l cli_env =
  env_np :: "'l netprotocols"
  env_asdict :: "'l \<Rightarrow> (pystr \<times> py_value) list"
  env_screen :: "'l screen_env"

text \<open>An output with its state; the two text outputs hold what they wrote to standard output.\<close>

datatype out_state =
    Screen_output bool pystr
  | NDJSON_output pystr
  | Pcap_output PcapWriter
  | Stats_output StatsCollector

fun map_result :: "('e \<Rightarrow> exn) \<Rightarrow> ('s \<Rightarrow> out_state) \<Rightarrow> 'e + 's \<Rightarrow> exn + out_state" where
  "map_result to_exn mk (Inl e) = Inl (to_exn e)"
| "map_result to_exn mk (Inr s) = Inr (mk s)"

fun output_update :: "'l cli_env \<Rightarrow> 'l DecodedFrame \<Rightarrow> out_state \<Rightarrow> exn + out_state" where
  "output_update env frame (Screen_output d stream) =
     map_result (\<lambda>_. Exn_clock) (Screen_output d) (screen_update (env_np env) (env_screen env) d frame stream)"
| "output_update env frame (NDJSON_output stream) =
     map_result (\<lambda>_. Exn_TypeError) NDJSON_output (ndjson_update (env_np env) (env_asdict env) frame stream)"
| "output_update env frame (Pcap_output w) = map_result pcap_exn Pcap_output (OutputToPcap_update frame w)"
| "output_update env frame (Stats_output st) = Inr (Stats_output (stats_update (env_np env) frame st))"

fun output_close :: "out_state \<Rightarrow> out_state" where
  "output_close (Pcap_output w) = Pcap_output (OutputToPcap_close w)"
| "output_close out = out"

text \<open>\<open>open_write\<close>: whether the target of \<^verbatim>\<open>-w\<close> can be opened. \<open>Inl\<close>: the error printed.\<close>

definition build_outputs :: "(pystr \<Rightarrow> os_error option) \<Rightarrow> arguments \<Rightarrow> exn + os_error + out_state list" where
  "build_outputs open_write args =
     (let first = (if arg_json args then NDJSON_output [] else Screen_output (arg_data args) [])
      in case arg_write args of
           None \<Rightarrow> Inr (Inr [first, Stats_output new_StatsCollector])
         | Some path \<Rightarrow>
             (case open_write path of
                Some err \<Rightarrow> Inr (Inl err)
              | None \<Rightarrow>
                  (case new_PcapWriter of
                     Inl _ \<Rightarrow> Inl Exn_struct_error
                   | Inr w \<Rightarrow> Inr (Inr [first, Pcap_output w, Stats_output new_StatsCollector]))))"

section \<open>\<^verbatim>\<open>run\<close>\<close>

text \<open>
  The inner loop: each output in turn; an exception leaves those behind it without the
  frame.
\<close>

fun dispatch :: "'l cli_env \<Rightarrow> 'l DecodedFrame \<Rightarrow> out_state list \<Rightarrow> exn option \<times> out_state list" where
  "dispatch env frame [] = (None, [])"
| "dispatch env frame (out # outs) =
     (case output_update env frame out of
        Inl err \<Rightarrow> (Some err, out # outs)
      | Inr out' \<Rightarrow> (case dispatch env frame outs of (err, outs') \<Rightarrow> (err, out' # outs')))"

fun run_from ::
    "'l cli_env \<Rightarrow> nat \<Rightarrow> captured_frame list \<Rightarrow> out_state list \<Rightarrow> exn option \<times> nat \<times> out_state list" where
  "run_from env number [] outputs = (None, number, outputs)"
| "run_from env number ((data, timestamp, interface) # frames) outputs =
     (let number = number + 1;
          frame = decode_frame (env_np env) data number timestamp interface
      in case dispatch env frame outputs of
           (Some err, outputs) \<Rightarrow> (Some err, number, outputs)
         | (None, outputs) \<Rightarrow> run_from env number frames outputs)"

definition run :: "'l cli_env \<Rightarrow> captured_frame list \<Rightarrow> out_state list \<Rightarrow> exn option \<times> nat \<times> out_state list" where
  "run env frames outputs = run_from env 0 frames outputs"

section \<open>Sources\<close>

text \<open>
  How a source ends, or a signal arrives while the loop waits for it: \<^verbatim>\<open>SIGINT\<close> cancels
  the task and is turned into \<^verbatim>\<open>KeyboardInterrupt\<close>, \<^verbatim>\<open>SIGTERM\<close> cancels it through
  \<^verbatim>\<open>_drive\<close>.
\<close>

datatype signal = Sigint | Sigterm

datatype source_end = Exhausted | Source_raised exn | Signalled signal

fun read_exn :: "read_error \<Rightarrow> exn" where
  "read_exn (NotEthernet l) = Exn_ValueError
     (ascii ''linktype '' @ str_int l @ ascii '' is not Ethernet (1); this file cannot be replayed through an Ethernet decoder'')"
| "read_exn (MalformedCapture message) = Exn_ValueError message"
| "read_exn HeaderUnpackError = Exn_struct_error"

text \<open>
  \<^verbatim>\<open>_replay_source\<close>: before each frame the loop is entered once (\<^verbatim>\<open>asyncio.sleep(0)\<close>), so a
  signal can end the replay before any frame. Behind the last frame there is no such point:
  SIGTERM, whose handler only the loop calls, comes too late. The SIGINT handler of
  \<^verbatim>\<open>asyncio.run\<close> cancels the task also while it runs, so when it comes as late as the last
  frame is processed, the run ends as interrupted with every frame given, unless the source
  raises an error of its own.
\<close>

definition replay_source ::
    "(bytes \<Rightarrow> capture \<times> pystr option) \<Rightarrow> os_error + bytes \<Rightarrow> pystr \<Rightarrow> (nat \<times> signal) option \<Rightarrow>
     captured_frame list \<times> source_end" where
  "replay_source read_library content path interrupt =
     (case content of
        Inl err \<Rightarrow> ([], Source_raised (Exn_OSError err))
      | Inr data \<Rightarrow>
          (case read_captures read_library data of
             (frames, err) \<Rightarrow>
               let tagged = map (\<lambda>(d, ts). (d, ts, Some path)) frames;
                   source_end = (case err of None \<Rightarrow> Exhausted | Some r \<Rightarrow> Source_raised (read_exn r))
               in case interrupt of
                    Some (k, sig) \<Rightarrow>
                      if k < length frames \<or> (k = length frames \<and> sig = Sigint \<and> err = None)
                      then (take k tagged, Signalled sig) else (tagged, source_end)
                  | None \<Rightarrow> (tagged, source_end)))"

text \<open>
  A live capture: what the generator has yielded in a state of its machine, and the
  exception it raised or the signal it was cancelled by.
\<close>

definition live_source ::
    "(os_error \<times> pystr option list) + capture_state \<Rightarrow> signal \<Rightarrow> captured_frame list \<times> source_end" where
  "live_source opened sig =
     (case opened of
        Inl (err, _) \<Rightarrow> ([], Source_raised (Exn_OSError err))
      | Inr s \<Rightarrow>
          (yielded s, (case ended s of Some (Raised err) \<Rightarrow> Source_raised (Exn_OSError err) | _ \<Rightarrow> Signalled sig)))"

section \<open>\<^verbatim>\<open>main\<close>\<close>

text \<open>
  The \<^verbatim>\<open>try\<close> statement. \<open>Returned code\<close> is a normal return, \<open>Propagated\<close> an exception no
  handler takes; the messages are those printed on standard error.
\<close>

datatype exit = Returned nat | Propagated exn

record main_result =
  exit_status :: exit
  messages :: "pystr list"
  reported :: bool
  final_outputs :: "out_state list"

fun handle :: "exn \<Rightarrow> exit \<times> pystr list" where
  "handle (Exn_OSError (Permission_denied s)) =
     (Returned 1, [ascii ''Error: opening a raw socket requires elevated privileges. Run with sudo, or grant the interpreter the CAP_NET_RAW capability.''])"
| "handle (Exn_ValueError s) = (Returned 1, [ascii ''Error: '' @ s])"
| "handle err = (Propagated err, [])"

fun drive_end :: "source_end \<Rightarrow> exit \<times> pystr list \<times> bool" where
  "drive_end Exhausted = (Returned 0, [], True)"
| "drive_end (Signalled Sigint) = (Returned 0, [ascii ''[!] Capture aborted.''], True)"
| "drive_end (Signalled Sigterm) = (Returned 0, [ascii ''[!] Terminated.''], True)"
| "drive_end (Source_raised err) = (case handle err of (status, msgs) \<Rightarrow> (status, msgs, False))"

text \<open>
  The body of \<^verbatim>\<open>main\<close> once the outputs exist; \<open>report\<close> is asked of the statistics at the end.
  The handler of SIGTERM that is in force meanwhile, and what its restoring can raise, are
  added in \<open>Process\<close> (\<open>main_try\<close>).
\<close>

definition drive_and_close :: "'l cli_env \<Rightarrow> out_state list \<Rightarrow> captured_frame list \<times> source_end \<Rightarrow> main_result" where
  "drive_and_close env outputs source =
     (case run env (fst source) outputs of
        (err, number, outputs) \<Rightarrow>
          (case drive_end (case err of Some x \<Rightarrow> Source_raised x | None \<Rightarrow> snd source) of
             (status, msgs, report_stats) \<Rightarrow>
               \<lparr>exit_status = status, messages = msgs, reported = report_stats,
                final_outputs = map output_close outputs\<rparr>))"

definition banner :: "arguments \<Rightarrow> pystr" where
  "banner args =
     ascii ''[>>>] RootWire initialized. '' @
     (case arg_read args of
        None \<Rightarrow> ascii ''Waiting for incoming data. Press Ctrl-C to abort...''
      | Some path \<Rightarrow>
          if path \<noteq> [] then ascii ''Replaying '' @ path @ ascii ''...''
          else ascii ''Waiting for incoming data. Press Ctrl-C to abort...'')"

text \<open>
  \<^verbatim>\<open>main\<close> after parsing: a usage error exits with 2, an output that cannot be opened with 1.
  \<open>source\<close> gives the source for the filter program; \<open>os_message\<close> is \<^verbatim>\<open>error.strerror or error\<close>.
\<close>

datatype main_outcome =
    Usage_exit usage_error
  | Startup_exn startup_error
  | Open_exn exn
  | Cannot_open pystr
  | Ran main_result

definition main ::
    "'l cli_env \<Rightarrow> (pystr \<Rightarrow> pystr \<Rightarrow> bool) \<Rightarrow> endian \<Rightarrow> 64 word \<Rightarrow> (pystr \<Rightarrow> os_error option) \<Rightarrow>
     (os_error \<Rightarrow> pystr) \<Rightarrow> (arguments \<Rightarrow> FilterProgram option \<Rightarrow> captured_frame list \<times> source_end) \<Rightarrow>
     arguments \<Rightarrow> main_outcome" where
  "main env same e addr open_write os_message source args =
     (case validate_args same args of
        Inl u \<Rightarrow> Usage_exit u
      | Inr _ \<Rightarrow>
          (case resolve_filter_program e addr args of
             Inl (Usage u) \<Rightarrow> Usage_exit u
           | Inl other \<Rightarrow> Startup_exn other
           | Inr program \<Rightarrow>
               (case build_outputs open_write args of
                  Inl err \<Rightarrow> Open_exn err
                | Inr (Inl err) \<Rightarrow>
                    Cannot_open (ascii ''Error: cannot open '' @ [39] @
                      (case arg_write args of None \<Rightarrow> [] | Some w \<Rightarrow> w) @ [39] @
                      ascii '' for writing: '' @ os_message err)
                | Inr (Inr outputs) \<Rightarrow>
                    let result = drive_and_close env outputs (source args program)
                    in Ran (result\<lparr>messages := banner args # messages result\<rparr>))))"

fun exit_code :: "main_outcome \<Rightarrow> nat option" where
  "exit_code (Usage_exit u) = Some 2"
| "exit_code (Startup_exn err) = None"
| "exit_code (Open_exn err) = None"
| "exit_code (Cannot_open message) = Some 1"
| "exit_code (Ran result) = (case exit_status result of Returned n \<Rightarrow> Some n | Propagated err \<Rightarrow> None)"

end
