(* ===== verification/Cli_Args.thy ===== *)
theory Cli_Args
  imports Cli
begin

text \<open>
  \<^verbatim>\<open>build_parser\<close> of \<^verbatim>\<open>src/rootwire/cli.py\<close>: the options it declares, and what
  \<^verbatim>\<open>ArgumentParser.parse_args\<close> of the standard library (Python 3.12) makes of a command
  line for a parser of options only, without positional arguments: the classification of
  each string, abbreviations, \<^verbatim>\<open>--opt=value\<close>, clusters of short options, \<^verbatim>\<open>--\<close>, and every
  way it ends the program. The texts of help, version and error messages are not modelled.
\<close>

section \<open>The options\<close>

datatype action =
    Act_help
  | Act_interface
  | Act_read
  | Act_write
  | Act_filter
  | Act_json
  | Act_data
  | Act_version

definition OPTION_STRINGS :: "(pystr \<times> action) list" where
  "OPTION_STRINGS =
    [(ascii ''-h'', Act_help), (ascii ''--help'', Act_help),
     (ascii ''-i'', Act_interface), (ascii ''--interface'', Act_interface),
     (ascii ''-r'', Act_read), (ascii ''--read'', Act_read),
     (ascii ''-w'', Act_write), (ascii ''--write'', Act_write),
     (ascii ''--filter'', Act_filter),
     (ascii ''--json'', Act_json),
     (ascii ''-d'', Act_data), (ascii ''--data'', Act_data),
     (ascii ''--version'', Act_version)]"

text \<open>\<^verbatim>\<open>append\<close> and \<^verbatim>\<open>store\<close> take one argument; \<^verbatim>\<open>store_true\<close>, \<^verbatim>\<open>help\<close> and \<^verbatim>\<open>version\<close> none.\<close>

fun takes_value :: "action \<Rightarrow> bool" where
  "takes_value Act_interface \<longleftrightarrow> True"
| "takes_value Act_read \<longleftrightarrow> True"
| "takes_value Act_write \<longleftrightarrow> True"
| "takes_value Act_filter \<longleftrightarrow> True"
| "takes_value _ \<longleftrightarrow> False"

definition default_arguments :: arguments where
  "default_arguments =
     \<lparr>arg_interface = None, arg_read = None, arg_write = None, arg_filter = None,
      arg_json = False, arg_data = False\<rparr>"

text \<open>How \<^verbatim>\<open>parse_args\<close> ends the program: with 0 after help or version, with 2 after an error.\<close>

datatype parse_exit =
    Information action
  | Ambiguous_option pystr
  | Expected_argument action
  | Ignored_argument action pystr
  | Unrecognized "pystr list"

fun parse_status :: "parse_exit \<Rightarrow> nat" where
  "parse_status (Information a) = 0"
| "parse_status _ = 2"

section \<open>Classifying one string\<close>

definition DASH :: pychar where "DASH = 45"
definition EQ :: pychar where "EQ = 61"

text \<open>\<^verbatim>\<open>str.partition("=")\<close>; \<open>None\<close>: there is no \<^verbatim>\<open>=\<close>.\<close>

definition partition_eq :: "pystr \<Rightarrow> pystr \<times> pystr option" where
  "partition_eq s =
     (takeWhile (\<lambda>c. c \<noteq> EQ) s,
      case dropWhile (\<lambda>c. c \<noteq> EQ) s of [] \<Rightarrow> None | c # v \<Rightarrow> Some v)"

text \<open>
  An option found in a string: the action (\<open>None\<close>: no such option), the option string,
  the separator and the argument given in the same string.
\<close>

type_synonym option_tuple = "action option \<times> pystr \<times> pystr option \<times> pystr option"

definition has_prefix :: "pystr \<Rightarrow> pystr \<Rightarrow> bool" where
  "has_prefix s p \<longleftrightarrow> take (length p) s = p"

text \<open>\<^verbatim>\<open>_get_option_tuples\<close>, for a string of at least two characters with a dash in front.\<close>

definition get_option_tuples :: "pystr \<Rightarrow> option_tuple list" where
  "get_option_tuples s =
     (if s ! 1 = DASH then
        (case partition_eq s of
           (prefix, explicit) \<Rightarrow>
             map (\<lambda>(opt, a). (Some a, opt, map_option (\<lambda>_. [EQ]) explicit, explicit))
               (filter (\<lambda>(opt, a). has_prefix opt prefix) OPTION_STRINGS))
      else
        concat (map (\<lambda>(opt, a).
            if opt = take 2 s then [(Some a, opt, Some [], Some (drop 2 s))]
            else if has_prefix opt s then [(Some a, opt, None, None)] else [])
          OPTION_STRINGS))"

text \<open>
  \<^verbatim>\<open>^-\d+$|^-\d*\.\d+$\<close>, matched; the dollar also matches before a final newline.
\<close>

definition at_line_end :: "pystr \<Rightarrow> bool" where
  "at_line_end s \<longleftrightarrow> s = [] \<or> s = [10]"

definition negative_number :: "pystr \<Rightarrow> bool" where
  "negative_number s \<longleftrightarrow>
     (let whole = takeWhile is_digit (tl s); after = dropWhile is_digit (tl s)
      in (whole \<noteq> [] \<and> at_line_end after) \<or>
         (take 1 after = [46] \<and> takeWhile is_digit (tl after) \<noteq> [] \<and>
          at_line_end (dropWhile is_digit (tl after))))"

text \<open>\<^verbatim>\<open>_parse_optional\<close>: \<open>None\<close> is a string that is not an option.\<close>

definition parse_optional :: "pystr \<Rightarrow> parse_exit + option_tuple option" where
  "parse_optional s =
     (if s = [] then Inr None
      else if hd s \<noteq> DASH then Inr None
      else case map_of OPTION_STRINGS s of
        Some a \<Rightarrow> Inr (Some (Some a, s, None, None))
      | None \<Rightarrow>
          if length s = 1 then Inr None
          else case partition_eq s of
            (opt, explicit) \<Rightarrow>
              (case (if explicit \<noteq> None then map_of OPTION_STRINGS opt else None) of
                 Some a \<Rightarrow> Inr (Some (Some a, opt, Some [EQ], explicit))
               | None \<Rightarrow>
                   (case get_option_tuples s of
                      t # u # ts \<Rightarrow> Inl (Ambiguous_option s)
                    | [t] \<Rightarrow> Inr (Some t)
                    | [] \<Rightarrow>
                        if negative_number s then Inr None
                        else if SPACE \<in> set s then Inr None
                        else Inr (Some (None, s, None, None)))))"

section \<open>Consuming the command line\<close>

text \<open>The letter \<^verbatim>\<open>_parse_known_args\<close> gives each string, with the option found in it.\<close>

datatype slot = Slot_A | Slot_dash | Slot_O option_tuple

fun classify :: "pystr list \<Rightarrow> parse_exit + (pystr \<times> slot) list" where
  "classify [] = Inr []"
| "classify (s # ss) =
     (if s = [DASH, DASH] then Inr ((s, Slot_dash) # map (\<lambda>t. (t, Slot_A)) ss)
      else then_do (parse_optional s) (\<lambda>found.
           then_do (classify ss) (\<lambda>slots.
             Inr ((s, case found of None \<Rightarrow> Slot_A | Some t \<Rightarrow> Slot_O t) # slots))))"

text \<open>
  The loop of \<^verbatim>\<open>consume_optional\<close>: the actions to take with their arguments, the string
  left over, and how many of the strings behind the option are used up.
\<close>

function option_chain ::
    "(pystr \<times> slot) list \<Rightarrow> action \<Rightarrow> pystr \<Rightarrow> pystr option \<Rightarrow> pystr option \<Rightarrow>
     parse_exit + (action \<times> pystr option) list \<times> pystr list \<times> nat" where
  "option_chain following a opt sep None =
     (if takes_value a then
        (case following of
           (v, Slot_A) # _ \<Rightarrow> Inr ([(a, Some v)], [], 1)
         | _ \<Rightarrow> Inl (Expected_argument a))
      else Inr ([(a, None)], [], 0))"
| "option_chain following a opt sep (Some explicit) =
     (if takes_value a then Inr ([(a, Some explicit)], [], 0)
      else if opt ! 1 \<noteq> DASH \<and> explicit \<noteq> [] then
        (if (sep \<noteq> None \<and> sep \<noteq> Some []) \<or> hd explicit = DASH then Inl (Ignored_argument a explicit)
         else case map_of OPTION_STRINGS [DASH, hd explicit] of
             None \<Rightarrow> Inr ([(a, None)], [DASH # explicit], 0)
           | Some b \<Rightarrow>
               then_do
                 (if tl explicit = [] then option_chain following b [DASH, hd explicit] None None
                  else if hd (tl explicit) = EQ then
                    option_chain following b [DASH, hd explicit] (Some [EQ]) (Some (tl (tl explicit)))
                  else option_chain following b [DASH, hd explicit] (Some []) (Some (tl explicit)))
                 (\<lambda>(actions, extras, n). Inr ((a, None) # actions, extras, n)))
      else Inl (Ignored_argument a explicit))"
  by pat_completeness auto
termination
  by (relation "measure (\<lambda>(following, a, opt, sep, explicit).
        case explicit of None \<Rightarrow> 0 | Some e \<Rightarrow> Suc (length e))") auto

text \<open>\<^verbatim>\<open>take_action\<close>; an action that takes a value always comes with one.\<close>

fun take_action :: "action \<times> pystr option \<Rightarrow> arguments \<Rightarrow> parse_exit + arguments" where
  "take_action (Act_interface, Some v) ns =
     Inr (ns\<lparr>arg_interface := Some ((case arg_interface ns of None \<Rightarrow> [] | Some vs \<Rightarrow> vs) @ [v])\<rparr>)"
| "take_action (Act_read, Some v) ns = Inr (ns\<lparr>arg_read := Some v\<rparr>)"
| "take_action (Act_write, Some v) ns = Inr (ns\<lparr>arg_write := Some v\<rparr>)"
| "take_action (Act_filter, Some v) ns = Inr (ns\<lparr>arg_filter := Some v\<rparr>)"
| "take_action (Act_json, _) ns = Inr (ns\<lparr>arg_json := True\<rparr>)"
| "take_action (Act_data, _) ns = Inr (ns\<lparr>arg_data := True\<rparr>)"
| "take_action (a, _) ns = Inl (Information a)"

fun take_actions :: "(action \<times> pystr option) list \<Rightarrow> arguments \<Rightarrow> parse_exit + arguments" where
  "take_actions [] ns = Inr ns"
| "take_actions (a # as) ns = then_do (take_action a ns) (take_actions as)"

text \<open>The outer loop; without positional arguments every other string is left over.\<close>

function consume ::
    "(pystr \<times> slot) list \<Rightarrow> arguments \<Rightarrow> pystr list \<Rightarrow> parse_exit + arguments \<times> pystr list" where
  "consume [] ns extras = Inr (ns, extras)"
| "consume ((s, Slot_A) # slots) ns extras = consume slots ns (extras @ [s])"
| "consume ((s, Slot_dash) # slots) ns extras = consume slots ns (extras @ [s])"
| "consume ((s, Slot_O (None, opt, sep, explicit)) # slots) ns extras = consume slots ns (extras @ [s])"
| "consume ((s, Slot_O (Some a, opt, sep, explicit)) # slots) ns extras =
     then_do (option_chain slots a opt sep explicit) (\<lambda>(actions, left_over, n).
     then_do (take_actions actions ns) (\<lambda>ns.
       consume (drop n slots) ns (extras @ left_over)))"
  by pat_completeness auto
termination
  by (relation "measure (\<lambda>(slots, ns, extras). length slots)") auto

definition parse_args :: "pystr list \<Rightarrow> parse_exit + arguments" where
  "parse_args argv =
     then_do (classify argv) (\<lambda>slots.
     then_do (consume slots default_arguments []) (\<lambda>(ns, extras).
       if extras = [] then Inr ns else Inl (Unrecognized extras)))"

text \<open>\<^verbatim>\<open>main(argv)\<close>, and the exit status of the process; \<open>None\<close>: a traceback.\<close>

definition main_argv ::
    "'l cli_env \<Rightarrow> (pystr \<Rightarrow> pystr \<Rightarrow> bool) \<Rightarrow> endian \<Rightarrow> 64 word \<Rightarrow> (pystr \<Rightarrow> os_error option) \<Rightarrow>
     (os_error \<Rightarrow> pystr) \<Rightarrow> (arguments \<Rightarrow> FilterProgram option \<Rightarrow> captured_frame list \<times> source_end) \<Rightarrow>
     pystr list \<Rightarrow> parse_exit + main_outcome" where
  "main_argv env same e addr open_write os_message source argv =
     then_do (parse_args argv) (\<lambda>args.
       Inr (main env same e addr open_write os_message source args))"

fun argv_status :: "parse_exit + main_outcome \<Rightarrow> nat option" where
  "argv_status (Inl err) = Some (parse_status err)"
| "argv_status (Inr outcome) = exit_code outcome"

end
