(* ===== verification/Pcapng.thy ===== *)
theory Pcapng
  imports Pcap
begin

text \<open>
  The link-type check of \<^verbatim>\<open>src/rootwire/pcap.py\<close> on well-formed pcapng files: what
  \<^verbatim>\<open>_pcapng_linktype\<close> computes by walking over the bytes is a fold over the link types the
  file's Interface Description Blocks declare, whatever the byte order of each section.
\<close>

section \<open>The link types a pcapng file declares\<close>

text \<open>
  Well-formed pcapng files, written down independently of the code: a section is a
  byte order, what follows the byte-order mark in its header block, and its blocks.
\<close>

record png_block =
  blk_type :: nat
  blk_body :: bytes

record png_section =
  sec_endian :: endian
  sec_header :: bytes
  sec_blocks :: "png_block list"

definition encode_block :: "endian \<Rightarrow> png_block \<Rightarrow> bytes" where
  "encode_block e b =
     (let n = to_bytes e 4 (12 + length (blk_body b))
      in to_bytes e 4 (blk_type b) @ n @ blk_body b @ n)"

definition header_block :: "png_section \<Rightarrow> png_block" where
  "header_block s =
     \<lparr>blk_type = 0x0A0D0D0A, blk_body = to_bytes (sec_endian s) 4 0x1A2B3C4D @ sec_header s\<rparr>"

definition encode_section :: "png_section \<Rightarrow> bytes" where
  "encode_section s =
     concat (map (encode_block (sec_endian s)) (header_block s # sec_blocks s))"

definition wf_block :: "png_block \<Rightarrow> bool" where
  "wf_block b \<longleftrightarrow> blk_type b < 4294967296 \<and> blk_type b \<noteq> 0x0A0D0D0A \<and>
     12 + length (blk_body b) < 4294967296"

definition wf_section :: "png_section \<Rightarrow> bool" where
  "wf_section s \<longleftrightarrow> 16 + length (sec_header s) < 4294967296 \<and> list_all wf_block (sec_blocks s)"

text \<open>The link types of the Interface Description Blocks, in file order.\<close>

definition block_links :: "endian \<Rightarrow> png_block \<Rightarrow> int list" where
  "block_links e b =
     (if blk_type b = 1 \<and> 4 \<le> length (blk_body b) then [int (from_bytes e (take 2 (blk_body b)))] else [])"

definition section_links :: "png_section \<Rightarrow> int list" where
  "section_links s = concat (map (block_links (sec_endian s)) (sec_blocks s))"

fun first_foreign :: "int option \<Rightarrow> int list \<Rightarrow> int option" where
  "first_foreign found [] = found"
| "first_foreign found (l # ls) = (if l \<noteq> 1 then Some l else first_foreign (Some 1) ls)"

lemma first_foreign_find:
  "first_foreign found ls =
     (case find (\<lambda>l. l \<noteq> 1) ls of
        Some l \<Rightarrow> Some l
      | None \<Rightarrow> if ls = [] then found else Some 1)"
  by (induction found ls rule: first_foreign.induct) (auto split: option.splits)

text \<open>How one block moves the loop on.\<close>

lemma length_encode_block [simp]: "length (encode_block e b) = 12 + length (blk_body b)"
  by (simp add: encode_block_def Let_def)

lemma from_to_bytes_4: "v < 4294967296 \<Longrightarrow> from_bytes e (to_bytes e 4 v) = v"
  using from_bytes_to_bytes [of e 4 v] by (simp del: from_bytes.simps to_bytes.simps)

lemma to_bytes_4_inject:
  "v < 4294967296 \<Longrightarrow> w < 4294967296 \<Longrightarrow> to_bytes e 4 v = to_bytes e 4 w \<longleftrightarrow> v = w"
  by (metis from_to_bytes_4)

lemma SHB_TYPE_bytes: "SHB_TYPE = to_bytes e 4 0x0A0D0D0A"
  by (cases e) (simp_all add: SHB_TYPE_def to_be_def to_le_numeral)

lemma pack_SHB_BOM: "pack Little [F_I] [SHB_BOM] = Inr (to_bytes Little 4 0x1A2B3C4D)"
  by (simp add: SHB_BOM_def pack1_def)

lemma SHB_BOM_bytes: "to_bytes e 4 0x1A2B3C4D = to_bytes Little 4 0x1A2B3C4D \<longleftrightarrow> e = Little"
  by (cases e) (simp_all add: to_be_def to_le_numeral)

lemma py_slice_at: "py_slice (pre @ xs) (length pre) (length pre + n) = take n xs"
  by (simp add: py_slice_def)

lemma py_slice_at_plus: "py_slice (pre @ xs) (length pre + k) (length pre + n) = take (n - k) (drop k xs)"
  by (simp add: py_slice_def)

lemma block_endian_other:
  "wf_block b \<Longrightarrow> block_endian (pre @ encode_block e b @ post) (length pre) e0 = Some e0"
  by (simp add: block_endian_def py_slice_at encode_block_def Let_def wf_block_def
      SHB_TYPE_bytes [of e] to_bytes_4_inject)

lemma block_endian_header:
  "block_endian (pre @ encode_block (sec_endian s) (header_block s) @ post) (length pre) e0 = Some (sec_endian s)"
  by (cases "sec_endian s")
    (simp_all add: block_endian_def py_slice_at py_slice_at_plus encode_block_def Let_def header_block_def
      SHB_TYPE_bytes [of "sec_endian s"] pack_SHB_BOM SHB_BOM_bytes
      del: to_bytes.simps pack.simps)

lemma unpack1_at: "v < 4294967296 \<Longrightarrow> unpack1 e F_I (to_bytes e 4 v @ xs) = int v"
  by (simp add: unpack1_def from_bytes_to_bytes_fits del: to_bytes.simps from_bytes.simps)

lemma unpack_block_header:
  assumes "blk_type b < 4294967296" "12 + length (blk_body b) < 4294967296"
  shows "unpack_from e [F_I, F_I] (pre @ encode_block e b @ post) (length pre) =
     Inr [int (blk_type b), int (12 + length (blk_body b))]"
  using assms
  by (simp add: unpack_from_def encode_block_def Let_def unpack1_at del: to_bytes.simps of_nat_add)

lemma unpack_link:
  assumes "4 \<le> length (blk_body b)"
  shows "unpack_from e [F_H] (pre @ encode_block e b @ post) (length pre + 8) =
     Inr [int (from_bytes e (take 2 (blk_body b)))]"
  using assms
  by (simp add: unpack_from_def encode_block_def Let_def unpack1_def del: to_bytes.simps from_bytes.simps)

lemma pcapng_loop_block:
  assumes "block_endian (pre @ encode_block e b @ post) (length pre) e0 = Some e"
    and fits: "blk_type b < 4294967296" "12 + length (blk_body b) < 4294967296"
  shows "pcapng_loop (pre @ encode_block e b @ post) e0 found (length pre) =
     (case block_links e b of
        [] \<Rightarrow> pcapng_loop (pre @ encode_block e b @ post) e found (length (pre @ encode_block e b))
      | l # _ \<Rightarrow> if l \<noteq> 1 then Inr (Some l)
          else pcapng_loop (pre @ encode_block e b @ post) e (Some 1) (length (pre @ encode_block e b)))"
  using assms unpack_block_header [OF fits, of e pre post] unpack_link [of b e pre post]
  by (subst pcapng_loop.simps)
    (simp add: block_links_def Let_def LINKTYPE_ETHERNET_def IDB_TYPE_def add.assoc
      del: to_bytes.simps from_bytes.simps of_nat_add)

text \<open>
  The loop over several blocks: it stops at the first link type that is not Ethernet, and
  otherwise goes on behind them, knowing whether there was one.
\<close>

definition after_links :: "int list \<Rightarrow> int option \<Rightarrow> int option" where
  "after_links ls found = (if ls = [] then found else Some 1)"

lemma after_links_append [simp]: "after_links (ks @ ls) found = after_links ls (after_links ks found)"
  by (simp add: after_links_def)

lemma first_foreign_append:
  "first_foreign found (ks @ ls) =
     (if \<forall>k \<in> set ks. k = 1 then first_foreign (after_links ks found) ls else first_foreign found ks)"
  by (induction found ks rule: first_foreign.induct) (auto simp: after_links_def)

lemma first_foreign_all_1: "\<forall>l \<in> set ls. l = 1 \<Longrightarrow> first_foreign found ls = after_links ls found"
  using first_foreign_append [of found ls "[]"] by simp

lemma block_links_cases: "block_links e b = [] \<or> (\<exists>l. block_links e b = [l])"
  by (simp add: block_links_def)

lemma pcapng_loop_links:
  assumes "block_endian (pre @ encode_block e b @ post) (length pre) e0 = Some e"
    and "blk_type b < 4294967296" "12 + length (blk_body b) < 4294967296"
  shows "pcapng_loop (pre @ encode_block e b @ post) e0 found (length pre) =
     (if \<forall>l \<in> set (block_links e b). l = 1
      then pcapng_loop (pre @ encode_block e b @ post) e (after_links (block_links e b) found)
             (length (pre @ encode_block e b))
      else Inr (first_foreign found (block_links e b)))"
  using block_links_cases [of e b] by (auto simp: pcapng_loop_block [OF assms] after_links_def)

lemma pcapng_loop_blocks:
  "list_all wf_block bs \<Longrightarrow>
   pcapng_loop (pre @ concat (map (encode_block e) bs) @ post) e found (length pre) =
     (let ls = concat (map (block_links e) bs)
      in if \<forall>l \<in> set ls. l = 1
         then pcapng_loop (pre @ concat (map (encode_block e) bs) @ post) e (after_links ls found)
                (length (pre @ concat (map (encode_block e) bs)))
         else Inr (first_foreign found ls))"
proof (induction bs arbitrary: pre found)
  case Nil
  show ?case by (simp add: after_links_def)
next
  case (Cons b bs)
  let ?tail = "concat (map (encode_block e) bs) @ post"
  have "pcapng_loop (pre @ encode_block e b @ ?tail) e found (length pre) =
     (if \<forall>l \<in> set (block_links e b). l = 1
      then pcapng_loop (pre @ encode_block e b @ ?tail) e (after_links (block_links e b) found)
             (length (pre @ encode_block e b))
      else Inr (first_foreign found (block_links e b)))"
    using Cons.prems by (intro pcapng_loop_links block_endian_other) (simp_all add: wf_block_def)
  then show ?case
    using Cons.IH [of "pre @ encode_block e b" "after_links (block_links e b) found"] Cons.prems
    by (auto simp: Let_def first_foreign_append add.assoc)
qed

lemma pcapng_loop_section:
  assumes "wf_section s"
  shows "pcapng_loop (pre @ encode_section s @ post) e0 found (length pre) =
     (if \<forall>l \<in> set (section_links s). l = 1
      then pcapng_loop (pre @ encode_section s @ post) (sec_endian s) (after_links (section_links s) found)
             (length (pre @ encode_section s))
      else Inr (first_foreign found (section_links s)))"
proof -
  let ?e = "sec_endian s"
  let ?h = "encode_block ?e (header_block s)"
  let ?bs = "concat (map (encode_block ?e) (sec_blocks s))"
  have "block_links ?e (header_block s) = []"
    by (simp add: block_links_def header_block_def)
  moreover have "blk_type (header_block s) < 4294967296" "12 + length (blk_body (header_block s)) < 4294967296"
    using assms by (simp_all add: header_block_def wf_section_def del: to_bytes.simps)
  ultimately have "pcapng_loop (pre @ ?h @ ?bs @ post) e0 found (length pre) =
      pcapng_loop (pre @ ?h @ ?bs @ post) ?e found (length (pre @ ?h))"
    using pcapng_loop_links [OF block_endian_header, of s pre "?bs @ post" e0 found]
    by (simp add: after_links_def)
  then show ?thesis
    using pcapng_loop_blocks [of "sec_blocks s" "pre @ ?h" ?e post found] assms
    by (simp add: encode_section_def section_links_def wf_section_def Let_def)
qed

lemma pcapng_loop_sections:
  "list_all wf_section ss \<Longrightarrow>
   pcapng_loop (pre @ concat (map encode_section ss)) e0 found (length pre) =
     Inr (first_foreign found (concat (map section_links ss)))"
proof (induction ss arbitrary: pre e0 found)
  case Nil
  show ?case by (simp add: pcapng_loop.simps)
next
  case (Cons s ss)
  let ?tail = "concat (map encode_section ss)"
  have "pcapng_loop (pre @ encode_section s @ ?tail) (sec_endian s) found' (length (pre @ encode_section s)) =
      Inr (first_foreign found' (concat (map section_links ss)))" for found'
    using Cons.IH [of "pre @ encode_section s"] Cons.prems by simp
  then show ?case
    using Cons.prems pcapng_loop_section [of s pre ?tail e0 found] by (simp add: first_foreign_append)
qed

lemma encode_section_start:
  "py_slice (encode_section s @ post) 0 4 = SHB_TYPE" "12 \<le> length (encode_section s @ post)"
proof -
  have "encode_section s = SHB_TYPE @ drop 4 (encode_section s)"
    by (simp add: encode_section_def encode_block_def Let_def header_block_def SHB_TYPE_bytes [of "sec_endian s"]
        del: to_bytes.simps)
  then show "py_slice (encode_section s @ post) 0 4 = SHB_TYPE"
    by (metis append.assoc append_Nil list.size(3) length_to_bytes plus_nat.add_0 py_slice_at
        append_take_drop_id append_eq_conv_conj SHB_TYPE_bytes)
  show "12 \<le> length (encode_section s @ post)"
    by (simp add: encode_section_def)
qed

lemma pcapng_linktype_file:
  assumes "ss \<noteq> []" "list_all wf_section ss"
  shows "pcapng_linktype (concat (map encode_section ss)) =
     Inr (first_foreign None (concat (map section_links ss)))"
proof -
  obtain s ss' where "ss = s # ss'" using assms(1) by (cases ss) auto
  then show ?thesis
    using pcapng_loop_sections [OF assms(2), of "[]" Little None]
      encode_section_start [of s "concat (map encode_section ss')"]
    by (simp add: pcapng_linktype_def)
qed

text \<open>A pcapng file is not mistaken for a classic one.\<close>

lemma declared_linktype_pcapng:
  assumes "ss \<noteq> []" "list_all wf_section ss"
  shows "declared_linktype (concat (map encode_section ss)) =
     Inr (first_foreign None (concat (map section_links ss)))"
proof -
  obtain s ss' where "ss = s # ss'" using assms(1) by (cases ss) auto
  then have "py_slice (concat (map encode_section ss)) 0 4 \<notin> set PCAP_MAGICS"
    using encode_section_start(1) [of s "concat (map encode_section ss')"]
    by (simp add: PCAP_MAGICS_def SHB_TYPE_def)
  then show ?thesis
    by (simp add: declared_linktype_def pcapng_linktype_file [OF assms])
qed

end
