(* ===== verification/Screen_Safety.thy ===== *)
theory Screen_Safety
  imports Screen
begin

text \<open>
  What \<^verbatim>\<open>OutputToScreen\<close> promises: it prints every frame whose time has a text, one block
  after the other; and whatever a frame's payload, DNS names and DNS data hold, no
  control character of theirs reaches the terminal.
\<close>

section \<open>The contract of an output\<close>

definition screen_has_seen ::
    "'l netprotocols \<Rightarrow> 'l screen_env \<Rightarrow> bool \<Rightarrow> pystr \<Rightarrow> 'l DecodedFrame list \<Rightarrow> bool" where
  "screen_has_seen np env d stream fs \<longleftrightarrow>
     (\<exists>blocks. list_all2 (\<lambda>f ls. screen_lines np env d f = Inr ls) fs blocks \<and>
        stream = concat (map print_lines blocks))"

definition clock_shows :: "'l screen_env \<Rightarrow> 'l DecodedFrame \<Rightarrow> bool" where
  "clock_shows env frame \<longleftrightarrow> (\<exists>t. clock_text env (frame_timestamp frame) = Inr t)"

lemma screen_lines_Inr_iff: "(\<exists>ls. screen_lines np env d f = Inr ls) \<longleftrightarrow> clock_shows env f"
  by (auto simp: screen_lines_def clock_shows_def then_do_Inr_iff)

lemma screen_lines_refused: "\<not> clock_shows env f \<Longrightarrow> \<exists>e. screen_lines np env d f = Inl e"
  using screen_lines_Inr_iff [of np env d f] by (cases "screen_lines np env d f") auto

interpretation screen_output: frame_output "screen_update np env d" "screen_has_seen np env d"
  "\<lambda>stream f. clock_shows env f" for np env d
proof
  fix stream fs f
  assume seen: "screen_has_seen np env d stream fs" and "clock_shows env f"
  then obtain ls where ls: "screen_lines np env d f = Inr ls" using screen_lines_Inr_iff by blast
  from seen obtain blocks where
    "list_all2 (\<lambda>f ls. screen_lines np env d f = Inr ls) fs blocks" "stream = concat (map print_lines blocks)"
    by (auto simp: screen_has_seen_def)
  with ls have "list_all2 (\<lambda>f ls. screen_lines np env d f = Inr ls) (fs @ [f]) (blocks @ [ls])"
    "stream @ print_lines ls = concat (map print_lines (blocks @ [ls]))"
    by (simp_all add: list_all2_appendI)
  with ls show "\<exists>s'. screen_update np env d f stream = Inr s' \<and> screen_has_seen np env d s' (fs @ [f])"
    unfolding screen_has_seen_def screen_update_def by auto
next
  fix stream f and fs :: "'a DecodedFrame list"
  assume "\<not> clock_shows env f"
  then show "\<exists>e. screen_update np env d f stream = Inl e"
    using screen_lines_refused [of env f np d] by (auto simp: screen_update_def)
qed simp

section \<open>Safe text\<close>

lemma terminal_safe_Nil [simp]: "terminal_safe p []"
  by (simp add: terminal_safe_def)

lemma terminal_safe_Cons: "terminal_safe p (c # s) \<longleftrightarrow> (c = NEWLINE \<or> p c) \<and> terminal_safe p s"
  by (auto simp: terminal_safe_def)

lemma terminal_safe_append [simp]: "terminal_safe p (s @ t) \<longleftrightarrow> terminal_safe p s \<and> terminal_safe p t"
  by (auto simp: terminal_safe_def)

lemma terminal_safe_printable:
  "printable_ascii_table p \<Longrightarrow> \<forall>c \<in> set s. ascii_printable c \<Longrightarrow> terminal_safe p s"
  by (auto simp: terminal_safe_def printable_ascii_table_def)

definition literal :: "string \<Rightarrow> bool" where
  "literal s \<longleftrightarrow> list_all (\<lambda>c. ascii_printable (of_char c)) s"

lemma literal_Nil [simp]: "literal []"
  by (simp add: literal_def)

lemma literal_Cons [simp]: "literal (c # s) \<longleftrightarrow> 32 \<le> (of_char c :: nat) \<and> (of_char c :: nat) < 127 \<and> literal s"
  by (auto simp: literal_def ascii_printable_def)

lemma terminal_safe_ascii: "printable_ascii_table p \<Longrightarrow> literal s \<Longrightarrow> terminal_safe p (ascii s)"
  by (rule terminal_safe_printable) (auto simp: literal_def ascii_def list_all_iff)

lemma terminal_safe_decimal: "printable_ascii_table p \<Longrightarrow> terminal_safe p (decimal n)"
  by (simp add: terminal_safe_printable decimal_printable)

lemma terminal_safe_hex: "printable_ascii_table p \<Longrightarrow> terminal_safe p (hex_prefixed w n)"
  using zero_pad_printable [OF hex_digits_printable]
  by (intro terminal_safe_printable) (auto simp: hex_prefixed_def ascii_printable_def)

lemma terminal_safe_bytes_hex: "printable_ascii_table p \<Longrightarrow> terminal_safe p (bytes_hex bs)"
  by (simp add: terminal_safe_printable bytes_hex_printable)

lemma terminal_safe_join:
  "terminal_safe p sep \<Longrightarrow> \<forall>s \<in> set ss. terminal_safe p s \<Longrightarrow> terminal_safe p (join sep ss)"
  using join_forall [of sep "\<lambda>c. c = NEWLINE \<or> p c" ss] by (simp add: terminal_safe_def)

lemma terminal_safe_indent: "printable_ascii_table p \<Longrightarrow> terminal_safe p indent1 \<and> terminal_safe p indent2"
  by (simp add: indent1_def indent2_def terminal_safe_ascii del: ascii_Cons)

lemma terminal_safe_replace:
  "terminal_safe p s \<Longrightarrow> terminal_safe p new \<Longrightarrow> terminal_safe p (replace_char c new s)"
  by (auto simp: terminal_safe_def replace_char_def)

lemma terminal_safe_note: "printable_ascii_table p \<Longrightarrow> terminal_safe p (checksum_note v c layer ip payload)"
  by (simp add: checksum_note_def terminal_safe_ascii terminal_safe_hex del: ascii_Cons
      split: sum.split bool.split)

lemma terminal_safe_transport_note:
  "printable_ascii_table p \<Longrightarrow> terminal_safe p (transport_note np env frame layer ip payload)"
  by (simp add: transport_note_def terminal_safe_note)

lemmas safe_text =
  terminal_safe_ascii terminal_safe_decimal terminal_safe_hex terminal_safe_bytes_hex terminal_safe_indent
  terminal_safe_note terminal_safe_transport_note sanitize_safe

section \<open>The library's own texts\<close>

text \<open>
  \<open>view_safe\<close>: the texts the library derives from numbers and addresses (names, flags,
  hexadecimal fields, addresses, error messages) hold no control character. It asks
  nothing of DNS names and DNS data.
\<close>

fun option_value_safe :: "(pychar \<Rightarrow> bool) \<Rightarrow> option_value \<Rightarrow> bool" where
  "option_value_safe p No_value \<longleftrightarrow> True"
| "option_value_safe p (Tuple_value v) \<longleftrightarrow> terminal_safe p v"
| "option_value_safe p (Plain_value v) \<longleftrightarrow> terminal_safe p v"

definition option_safe :: "(pychar \<Rightarrow> bool) \<Rightarrow> tlv_option \<Rightarrow> bool" where
  "option_safe p opt \<longleftrightarrow> terminal_safe p (kind_name opt) \<and> option_value_safe p (option_val opt)"

definition checked_safe :: "(pychar \<Rightarrow> bool) \<Rightarrow> ('a \<Rightarrow> bool) \<Rightarrow> invalid_field + 'a \<Rightarrow> bool" where
  "checked_safe p P r \<longleftrightarrow> (case r of Inl e \<Rightarrow> terminal_safe p (error_text e) | Inr a \<Rightarrow> P a)"

definition optional_safe :: "(pychar \<Rightarrow> bool) \<Rightarrow> pystr option \<Rightarrow> bool" where
  "optional_safe p s \<longleftrightarrow> (case s of None \<Rightarrow> True | Some t \<Rightarrow> terminal_safe p t)"

definition options_safe :: "(pychar \<Rightarrow> bool) \<Rightarrow> options_view \<Rightarrow> bool" where
  "options_safe p v \<longleftrightarrow> checked_safe p (list_all (option_safe p)) (parsed_options v)"

definition arp_safe :: "(pychar \<Rightarrow> bool) \<Rightarrow> arp_view \<Rightarrow> bool" where
  "arp_safe p v \<longleftrightarrow> list_all (terminal_safe p)
     [arp_oper_name v, arp_ptype_name v, arp_ptype_hex v, arp_sha v, arp_spa v, arp_tha v, arp_tpa v]"

definition ipv4_safe :: "(pychar \<Rightarrow> bool) \<Rightarrow> ipv4_view \<Rightarrow> bool" where
  "ipv4_safe p v \<longleftrightarrow> list_all (terminal_safe p)
     [v4_src v, v4_dst v, v4_flags_name v, v4_protocol_name v, v4_checksum_hex v] \<and> options_safe p (v4_options v)"

definition ipv6_safe :: "(pychar \<Rightarrow> bool) \<Rightarrow> ipv6_view \<Rightarrow> bool" where
  "ipv6_safe p v \<longleftrightarrow> list_all (terminal_safe p)
     [v6_src v, v6_dst v, v6_traffic_class_hex v, v6_flow_label_hex v, v6_next_header_name v]"

definition gre_safe :: "(pychar \<Rightarrow> bool) \<Rightarrow> gre_view \<Rightarrow> bool" where
  "gre_safe p v \<longleftrightarrow> terminal_safe p (gre_protocol_name v) \<and> optional_safe p (gre_checksum v)"

definition group_record_safe :: "(pychar \<Rightarrow> bool) \<Rightarrow> group_record \<Rightarrow> bool" where
  "group_record_safe p r \<longleftrightarrow> terminal_safe p (record_type_name r) \<and> terminal_safe p (multicast_address r) \<and>
     list_all (terminal_safe p) (source_addresses r)"

definition igmp_safe :: "(pychar \<Rightarrow> bool) \<Rightarrow> igmp_view \<Rightarrow> bool" where
  "igmp_safe p v \<longleftrightarrow> terminal_safe p (igmp_type_name v) \<and> terminal_safe p (igmp_checksum_hex v) \<and>
     checked_safe p (optional_safe p) (igmp_group_address v) \<and>
     checked_safe p (\<lambda>rs. case rs of None \<Rightarrow> True | Some rs \<Rightarrow> list_all (group_record_safe p) rs) (igmp_group_records v)"

definition icmp_safe :: "(pychar \<Rightarrow> bool) \<Rightarrow> icmp_view \<Rightarrow> bool" where
  "icmp_safe p v \<longleftrightarrow> terminal_safe p (icmp_type_name v) \<and> terminal_safe p (icmp_checksum_hex v)"

definition ndp_option_safe :: "(pychar \<Rightarrow> bool) \<Rightarrow> ndp_option \<Rightarrow> bool" where
  "ndp_option_safe p opt \<longleftrightarrow> terminal_safe p (ndp_type_name opt) \<and> optional_safe p (link_layer_address opt)"

definition ndp_safe :: "(pychar \<Rightarrow> bool) \<Rightarrow> ndp_view \<Rightarrow> bool" where
  "ndp_safe p v \<longleftrightarrow> optional_safe p (ndp_target_address v) \<and>
     checked_safe p (\<lambda>os. case os of None \<Rightarrow> True | Some os \<Rightarrow> list_all (ndp_option_safe p) os) (ndp_options v)"

definition tcp_safe :: "(pychar \<Rightarrow> bool) \<Rightarrow> tcp_view \<Rightarrow> bool" where
  "tcp_safe p v \<longleftrightarrow> list_all (terminal_safe p) [tcp_flags_hex v, tcp_flags_str v, tcp_checksum_hex v] \<and>
     options_safe p (tcp_options v)"

definition dns_safe :: "(pychar \<Rightarrow> bool) \<Rightarrow> dns_view \<Rightarrow> bool" where
  "dns_safe p v \<longleftrightarrow> terminal_safe p (dns_flags_hex v) \<and>
     checked_safe p (\<lambda>_. True) (dns_questions v) \<and>
     checked_safe p (list_all (\<lambda>a. terminal_safe p (a_rtype_name a))) (dns_answers v)"

definition dhcp_safe :: "(pychar \<Rightarrow> bool) \<Rightarrow> dhcp_view \<Rightarrow> bool" where
  "dhcp_safe p v \<longleftrightarrow> checked_safe p (optional_safe p) (dhcp_message_type v) \<and>
     list_all (terminal_safe p) [dhcp_op_name v, dhcp_ciaddr v, dhcp_yiaddr v, dhcp_siaddr v, dhcp_giaddr v] \<and>
     optional_safe p (dhcp_client_mac v) \<and> checked_safe p (\<lambda>_. True) (dhcp_option_count v)"

fun view_safe :: "(pychar \<Rightarrow> bool) \<Rightarrow> layer_view \<Rightarrow> bool" where
  "view_safe p (Ethernet_view src dst ethertype) \<longleftrightarrow> list_all (terminal_safe p) [src, dst, ethertype]"
| "view_safe p (ARP_view v) \<longleftrightarrow> arp_safe p v"
| "view_safe p (IPv4_view v) \<longleftrightarrow> ipv4_safe p v"
| "view_safe p (IPv6_view v) \<longleftrightarrow> ipv6_safe p v"
| "view_safe p (HopByHop_view next_header) \<longleftrightarrow> terminal_safe p next_header"
| "view_safe p (Destination_view next_header) \<longleftrightarrow> terminal_safe p next_header"
| "view_safe p (Routing_view t s next_header) \<longleftrightarrow> terminal_safe p next_header"
| "view_safe p (Fragment_view i m next_header) \<longleftrightarrow> terminal_safe p next_header"
| "view_safe p (GRE_view v) \<longleftrightarrow> gre_safe p v"
| "view_safe p (IGMP_view v) \<longleftrightarrow> igmp_safe p v"
| "view_safe p (ICMPv4_view v) \<longleftrightarrow> icmp_safe p v"
| "view_safe p (ICMPv6_view v ndp) \<longleftrightarrow> icmp_safe p v \<and> ndp_safe p ndp"
| "view_safe p (TCP_view v) \<longleftrightarrow> tcp_safe p v"
| "view_safe p (UDP_view v) \<longleftrightarrow> terminal_safe p (udp_checksum_hex v)"
| "view_safe p (DNS_view v) \<longleftrightarrow> dns_safe p v"
| "view_safe p (DNSOverTCP_view n) \<longleftrightarrow> True"
| "view_safe p (DHCP_view v) \<longleftrightarrow> dhcp_safe p v"
| "view_safe p (VLAN_view vid pcp dei ethertype) \<longleftrightarrow> terminal_safe p ethertype"
| "view_safe p No_renderer \<longleftrightarrow> True"

text \<open>The library's texts of a whole frame, and of the environment.\<close>

definition library_safe :: "'l netprotocols \<Rightarrow> 'l screen_env \<Rightarrow> bool" where
  "library_safe np env \<longleftrightarrow> printable_ascii_table (isprintable env) \<and>
     (\<forall>l. view_safe (isprintable env) (view env l) \<and> terminal_safe (isprintable env) (ip_src env l) \<and>
        terminal_safe (isprintable env) (ip_dst env l) \<and> terminal_safe (isprintable env) (class_name np l)) \<and>
     (\<forall>ts t. clock_text env ts = Inr t \<longrightarrow> terminal_safe (isprintable env) t)"

section \<open>The renderers print safe lines\<close>

abbreviation lines_safe :: "(pychar \<Rightarrow> bool) \<Rightarrow> pystr list \<Rightarrow> bool" where
  "lines_safe p ls \<equiv> list_all (terminal_safe p) ls"

lemma format_option_safe: "printable_ascii_table p \<Longrightarrow> option_safe p opt \<Longrightarrow> terminal_safe p (format_option opt)"
  by (auto simp: format_option_def option_safe_def safe_text simp del: ascii_Cons split: option_value.split)

lemma options_line_safe: "printable_ascii_table p \<Longrightarrow> options_safe p v \<Longrightarrow> lines_safe p (render_options_line v)"
  by (auto simp: render_options_line_def options_safe_def checked_safe_def list_all_iff safe_text
      format_option_safe intro!: terminal_safe_join simp del: ascii_Cons split: sum.splits)

lemma arp_lines: "printable_ascii_table p \<Longrightarrow> arp_safe p v \<Longrightarrow> lines_safe p (render_arp v)"
  by (simp add: render_arp_def arp_safe_def Let_def safe_text del: ascii_Cons)

lemma ipv4_lines: "printable_ascii_table p \<Longrightarrow> ipv4_safe p v \<Longrightarrow> lines_safe p (render_ipv4 np env layer v)"
  by (simp add: render_ipv4_def ipv4_safe_def options_line_safe safe_text del: ascii_Cons)

lemma ipv6_lines: "printable_ascii_table p \<Longrightarrow> ipv6_safe p v \<Longrightarrow> lines_safe p (render_ipv6 np layer v)"
  by (simp add: render_ipv6_def ipv6_safe_def safe_text del: ascii_Cons)

lemma gre_lines: "printable_ascii_table p \<Longrightarrow> gre_safe p v \<Longrightarrow> lines_safe p (render_gre v)"
  by (auto simp: render_gre_def gre_safe_def optional_safe_def Let_def safe_text simp del: ascii_Cons
      split: option.splits intro!: terminal_safe_join)

lemma group_record_line:
  "printable_ascii_table p \<Longrightarrow> group_record_safe p r \<Longrightarrow> terminal_safe p (render_group_record r)"
  by (auto simp: render_group_record_def group_record_safe_def Let_def list_all_iff safe_text simp del: ascii_Cons
      intro!: terminal_safe_join)

lemma igmp_lines: "printable_ascii_table p \<Longrightarrow> igmp_safe p v \<Longrightarrow> lines_safe p (render_igmp v)"
  by (cases "igmp_group_address v"; cases "igmp_group_records v")
    (auto simp: render_igmp_def igmp_safe_def checked_safe_def optional_safe_def list_all_iff safe_text
      group_record_line simp del: ascii_Cons split: option.splits)

lemma ndp_option_line:
  "printable_ascii_table p \<Longrightarrow> ndp_option_safe p opt \<Longrightarrow> terminal_safe p (render_ndp_option opt)"
  by (auto simp: render_ndp_option_def ndp_option_safe_def optional_safe_def Let_def safe_text simp del: ascii_Cons
      split: option.splits)

lemma ndp_lines: "printable_ascii_table p \<Longrightarrow> ndp_safe p v \<Longrightarrow> lines_safe p (render_ndp v)"
  by (cases "ndp_options v")
    (auto simp: render_ndp_def ndp_safe_def checked_safe_def optional_safe_def list_all_iff safe_text
      ndp_option_line simp del: ascii_Cons split: option.splits)

lemma icmp_lines:
  assumes "printable_ascii_table p" "icmp_safe p v" "case ndp of None \<Rightarrow> True | Some n \<Rightarrow> ndp_safe p n"
    and "\<forall>l. terminal_safe p (ip_src env l) \<and> terminal_safe p (ip_dst env l)"
  shows "lines_safe p (render_icmp np env frame layer v ndp)"
  using assms
  by (auto simp: render_icmp_def icmp_safe_def Let_def ndp_lines safe_text simp del: ascii_Cons split: option.splits)

lemma tcp_lines: "printable_ascii_table p \<Longrightarrow> tcp_safe p v \<Longrightarrow> lines_safe p (render_tcp np env frame layer v)"
  by (simp add: render_tcp_def tcp_safe_def Let_def options_line_safe safe_text del: ascii_Cons)

lemma dns_lines: "printable_ascii_table p \<Longrightarrow> dns_safe p v \<Longrightarrow> lines_safe p (render_dns p v)"
  by (cases "dns_questions v"; cases "dns_answers v")
    (auto simp: render_dns_def dns_safe_def checked_safe_def list_all_iff render_question_def render_answer_def
      safe_text simp del: ascii_Cons)

lemma dhcp_lines: "printable_ascii_table p \<Longrightarrow> dhcp_safe p v \<Longrightarrow> lines_safe p (render_dhcp v)"
  by (auto simp: render_dhcp_def dhcp_safe_def checked_safe_def optional_safe_def Let_def safe_text
      simp del: ascii_Cons split: sum.splits option.splits)

lemma render_layer_safe:
  assumes "library_safe np env"
  shows "lines_safe (isprintable env) (render_layer np env frame layer (view env layer))"
proof -
  have p: "printable_ascii_table (isprintable env)" and v: "view_safe (isprintable env) (view env layer)"
    and ip: "\<forall>l. terminal_safe (isprintable env) (ip_src env l) \<and> terminal_safe (isprintable env) (ip_dst env l)"
    and c: "terminal_safe (isprintable env) (class_name np layer)"
    using assms by (auto simp: library_safe_def)
  show ?thesis
    using v c
    by (cases "view env layer")
      (simp_all add: p ip arp_lines ipv4_lines ipv6_lines gre_lines igmp_lines icmp_lines tcp_lines dns_lines
        dhcp_lines render_ethernet_def render_options_header_def render_routing_def render_fragment_def Let_def
        render_udp_def render_dns_over_tcp_def render_vlan_def safe_text del: ascii_Cons)
qed

lemma payload_lines_safe:
  "printable_ascii_table p \<Longrightarrow> lines_safe p (payload_lines p d payload)"
  by (auto simp: payload_lines_def Let_def safe_text terminal_safe_Cons simp del: ascii_Cons
      intro!: terminal_safe_replace)

lemma diagnosis_lines_safe:
  "printable_ascii_table p \<Longrightarrow> optional_safe p (frame_error frame) \<Longrightarrow> lines_safe p (diagnosis_lines np frame)"
  by (auto simp: diagnosis_lines_def optional_safe_def safe_text simp del: ascii_Cons split: option.splits)

lemma header_line_safe:
  "printable_ascii_table p \<Longrightarrow> terminal_safe p t \<Longrightarrow> optional_safe p (frame_interface frame) \<Longrightarrow>
     terminal_safe p (header_line t frame)"
  by (auto simp: header_line_def optional_safe_def Let_def safe_text simp del: ascii_Cons split: option.splits)

lemma screen_lines_safe:
  assumes "library_safe np env" "screen_lines np env d frame = Inr ls"
    and "optional_safe (isprintable env) (frame_interface frame)"
    and "optional_safe (isprintable env) (frame_error frame)"
  shows "lines_safe (isprintable env) ls"
proof -
  have p: "printable_ascii_table (isprintable env)" using assms(1) by (simp add: library_safe_def)
  from assms(2) obtain t where t: "clock_text env (frame_timestamp frame) = Inr t" and
    ls: "ls = [header_line t frame] @
        concat (map (\<lambda>layer. render_layer np env frame layer (view env layer)) (frame_layers frame)) @
        diagnosis_lines np frame @ payload_lines (isprintable env) d (frame_payload frame) @ [[]]"
    by (auto simp: screen_lines_def then_do_Inr_iff)
  have "terminal_safe (isprintable env) t" using assms(1) t by (auto simp: library_safe_def)
  then have "terminal_safe (isprintable env) (header_line t frame)" by (rule header_line_safe [OF p _ assms(3)])
  moreover have "lines_safe (isprintable env)
      (concat (map (\<lambda>layer. render_layer np env frame layer (view env layer)) (frame_layers frame)))"
    using render_layer_safe [OF assms(1)] by (auto simp: list_all_iff)
  ultimately show ?thesis
    by (simp add: ls diagnosis_lines_safe [OF p assms(4)] payload_lines_safe [OF p])
qed

text \<open>What a newline in a DNS name does: it is printed as it is, and starts a line of its own.\<close>

lemma sanitize_newline_kept: "sanitize_for_terminal p (s @ NEWLINE # t) =
    sanitize_for_terminal p s @ NEWLINE # sanitize_for_terminal p t"
  by (simp add: sanitize_for_terminal_def)

end
