(* ===== verification/Cli_Correct.thy ===== *)
theory Cli_Correct
  imports Cli Pcapng Screen_Safety Bpf_Correct Bpf_Filters
begin

text \<open>
  What \<^verbatim>\<open>run\<close> and \<^verbatim>\<open>main\<close> of \<^verbatim>\<open>src/rootwire/cli.py\<close> promise: every output sees every
  decoded frame, in order and numbered from 1, up to the first frame one of them refuses;
  and the outputs are closed however the capture ends.
\<close>

section \<open>Every output keeps the contract\<close>

fun output_has_seen :: "'l cli_env \<Rightarrow> out_state \<Rightarrow> 'l DecodedFrame list \<Rightarrow> bool" where
  "output_has_seen env (Screen_output d stream) fs \<longleftrightarrow> screen_has_seen (env_np env) (env_screen env) d stream fs"
| "output_has_seen env (NDJSON_output stream) fs \<longleftrightarrow> ndjson_has_seen (env_np env) (env_asdict env) stream fs"
| "output_has_seen env (Pcap_output w) fs \<longleftrightarrow> pcap_has_seen w fs"
| "output_has_seen env (Stats_output st) fs \<longleftrightarrow> st = stats_of (env_np env) fs"

fun output_accepts :: "'l cli_env \<Rightarrow> out_state \<Rightarrow> 'l DecodedFrame \<Rightarrow> bool" where
  "output_accepts env (Screen_output d stream) f \<longleftrightarrow> clock_shows (env_screen env) f"
| "output_accepts env (NDJSON_output stream) f \<longleftrightarrow> serializable (frame_record (env_np env) (env_asdict env) f)"
| "output_accepts env (Pcap_output w) f \<longleftrightarrow> \<not> pcap_closed w \<and> record_fits (captured f)"
| "output_accepts env (Stats_output st) f \<longleftrightarrow> True"

lemma map_result_Inr: "map_result to_exn mk r = Inr out \<longleftrightarrow> (\<exists>s. r = Inr s \<and> out = mk s)"
  by (cases r) auto

lemma map_result_Inl: "(\<exists>err. map_result to_exn mk r = Inl err) \<longleftrightarrow> (\<exists>e. r = Inl e)"
  by (cases r) auto

interpretation any_output: frame_output "output_update env" "output_has_seen env" "output_accepts env" for env
proof
  fix out fs f
  assume "output_has_seen env out fs" "output_accepts env out f"
  then show "\<exists>out'. output_update env f out = Inr out' \<and> output_has_seen env out' (fs @ [f])"
    using screen_output.update_accepted [of "env_np env" "env_screen env" _ _ fs f]
      ndjson_output.update_accepted [of "env_np env" "env_asdict env" _ fs f]
      pcap_output.update_accepted [of _ fs f]
    by (cases out) (fastforce simp: map_result_Inr stats_update_of)+
next
  fix out fs f
  assume "output_has_seen env out fs" "\<not> output_accepts env out f"
  then show "\<exists>err. output_update env f out = Inl err"
    using screen_output.update_refused [of "env_np env" "env_screen env" _ _ fs f]
      ndjson_output.update_refused [of "env_np env" "env_asdict env" _ fs f]
      pcap_output.update_refused [of _ fs f]
    by (cases out) (fastforce simp: map_result_Inl)+
next
  fix out out' f g
  assume "output_update env f out = Inr out'"
  then show "output_accepts env out' g = output_accepts env out g"
    using OutputToPcap_update_open by (cases out) (fastforce simp: map_result_Inr)+
qed

section \<open>The chain\<close>

definition chain_seen :: "'l cli_env \<Rightarrow> out_state list \<Rightarrow> 'l DecodedFrame list \<Rightarrow> bool" where
  "chain_seen env outs fs \<longleftrightarrow> list_all (\<lambda>out. output_has_seen env out fs) outs"

definition chain_accepts :: "'l cli_env \<Rightarrow> out_state list \<Rightarrow> 'l DecodedFrame \<Rightarrow> bool" where
  "chain_accepts env outs f \<longleftrightarrow> list_all (\<lambda>out. output_accepts env out f) outs"

lemma chain_simps [simp]:
  "chain_seen env [] fs" "chain_accepts env [] f"
  "chain_seen env (out # outs) fs \<longleftrightarrow> output_has_seen env out fs \<and> chain_seen env outs fs"
  "chain_accepts env (out # outs) f \<longleftrightarrow> output_accepts env out f \<and> chain_accepts env outs f"
  by (simp_all add: chain_seen_def chain_accepts_def)

lemma dispatch_accepted:
  "chain_seen env outs fs \<Longrightarrow> chain_accepts env outs f \<Longrightarrow>
     \<exists>outs'. dispatch env f outs = (None, outs') \<and> chain_seen env outs' (fs @ [f])"
proof (induction outs)
  case Nil
  then show ?case by simp
next
  case (Cons out outs)
  then obtain out' where "output_update env f out = Inr out'" "output_has_seen env out' (fs @ [f])"
    using any_output.update_accepted [of env out fs f] by auto
  with Cons show ?case by auto
qed

lemma dispatch_accepts_kept: "chain_accepts env (snd (dispatch env f outs)) g = chain_accepts env outs g"
proof (induction outs)
  case Nil
  then show ?case by simp
next
  case (Cons out outs)
  then show ?case
    using any_output.accepts_kept [of env f out _ g]
    by (auto split: sum.split prod.splits)
qed

lemma length_dispatch: "length (snd (dispatch env f outs)) = length outs"
  by (induction outs) (auto split: sum.split prod.splits)

text \<open>The outputs before the one that refuses have the frame, that one and those behind it do not.\<close>

lemma dispatch_refused:
  "chain_seen env outs fs \<Longrightarrow> \<not> chain_accepts env outs f \<Longrightarrow>
     \<exists>err outs' k. dispatch env f outs = (Some err, outs') \<and> k < length outs' \<and>
       chain_seen env (take k outs') (fs @ [f]) \<and> chain_seen env (drop k outs') fs"
proof (induction outs)
  case Nil
  then show ?case by simp
next
  case (Cons out outs)
  show ?case
  proof (cases "output_accepts env out f")
    case True
    then obtain out' where "output_update env f out = Inr out'" "output_has_seen env out' (fs @ [f])"
      using Cons.prems any_output.update_accepted [of env out fs f] by auto
    moreover obtain err outs' k where "dispatch env f outs = (Some err, outs')" "k < length outs'"
        "chain_seen env (take k outs') (fs @ [f])" "chain_seen env (drop k outs') fs"
      using Cons True by auto
    ultimately show ?thesis
      by (intro exI [of _ err] exI [of _ "out' # outs'"] exI [of _ "Suc k"]) simp
  next
    case False
    then obtain err where "output_update env f out = Inl err"
      using Cons.prems any_output.update_refused [of env out fs f] by auto
    then show ?thesis
      using Cons.prems by (intro exI [of _ err] exI [of _ "out # outs"] exI [of _ 0]) simp
  qed
qed

section \<open>The kinds of the outputs stay\<close>

datatype output_kind = Screen_kind | NDJSON_kind | Pcap_kind | Stats_kind

fun kind_of :: "out_state \<Rightarrow> output_kind" where
  "kind_of (Screen_output d stream) = Screen_kind"
| "kind_of (NDJSON_output stream) = NDJSON_kind"
| "kind_of (Pcap_output w) = Pcap_kind"
| "kind_of (Stats_output st) = Stats_kind"

fun_cases kind_ofE [elim!]: "kind_of out = NDJSON_kind" "kind_of out = Pcap_kind"

lemma update_kind: "output_update env f out = Inr out' \<Longrightarrow> kind_of out' = kind_of out"
  by (cases out) (auto simp: map_result_Inr)

lemma dispatch_kinds: "map kind_of (snd (dispatch env f outs)) = map kind_of outs"
proof (induction outs)
  case (Cons out outs)
  then show ?case by (auto dest: update_kind split: sum.split prod.splits)
qed simp

lemma run_from_kinds: "map kind_of (snd (snd (run_from env n frames outs))) = map kind_of outs"
proof (induction env n frames outs rule: run_from.induct)
  case (2 env n data ts interface frames outs)
  show ?case
    using dispatch_kinds [of env "decode_frame (env_np env) data (n + 1) ts interface" outs] 2
    by (auto simp: Let_def split: prod.splits option.splits)
qed simp

lemma run_kinds: "run env frames outs = (err, k, outs') \<Longrightarrow> map kind_of outs' = map kind_of outs"
  using run_from_kinds [of env 0 frames outs] by (simp add: run_def)

section \<open>The loop\<close>

text \<open>The decoded frames of a source, numbered from \<open>n + 1\<close>.\<close>

fun decoded :: "'l cli_env \<Rightarrow> nat \<Rightarrow> captured_frame list \<Rightarrow> 'l DecodedFrame list" where
  "decoded env n [] = []"
| "decoded env n ((data, timestamp, interface) # frames) =
     decode_frame (env_np env) data (n + 1) timestamp interface # decoded env (n + 1) frames"

lemma length_decoded [simp]: "length (decoded env n frames) = length frames"
  by (induction env n frames rule: decoded.induct) auto

lemma decoded_nth:
  "k < length frames \<Longrightarrow> frames ! k = (data, timestamp, interface) \<Longrightarrow>
     decoded env n frames ! k = decode_frame (env_np env) data (n + k + 1) timestamp interface"
proof (induction env n frames arbitrary: k rule: decoded.induct)
  case (2 env n d t i frames)
  then show ?case by (cases k) auto
qed simp

lemma decoded_append: "decoded env n (frames @ gs) = decoded env n frames @ decoded env (n + length frames) gs"
  by (induction env n frames rule: decoded.induct) auto

lemma run_from_accepted:
  "chain_seen env outs fs \<Longrightarrow> \<forall>f \<in> set (decoded env n frames). chain_accepts env outs f \<Longrightarrow>
     \<exists>outs'. run_from env n (frames @ more_frames) outs = run_from env (n + length frames) more_frames outs' \<and>
       chain_seen env outs' (fs @ decoded env n frames) \<and>
       (\<forall>g. chain_accepts env outs' g = chain_accepts env outs g)"
proof (induction env n frames arbitrary: outs fs rule: decoded.induct)
  case (1 env n)
  then show ?case by auto
next
  case (2 env n data timestamp interface frames)
  let ?f = "decode_frame (env_np env) data (n + 1) timestamp interface"
  obtain outs1 where d: "dispatch env ?f outs = (None, outs1)" and s: "chain_seen env outs1 (fs @ [?f])"
    using 2 dispatch_accepted [of env outs fs ?f] by auto
  have a: "chain_accepts env outs1 g = chain_accepts env outs g" for g
    using dispatch_accepts_kept [of env ?f outs g] d by simp
  have "\<forall>f \<in> set (decoded env (n + 1) frames). chain_accepts env outs1 f"
    using "2.prems"(2) a by simp
  from "2.IH" [OF s this] obtain outs' where
    "run_from env (n + 1) (frames @ more_frames) outs1 = run_from env (n + 1 + length frames) more_frames outs'"
    "chain_seen env outs' ((fs @ [?f]) @ decoded env (n + 1) frames)"
    "\<forall>g. chain_accepts env outs' g = chain_accepts env outs1 g"
    by blast
  then show ?case using d a by (intro exI [of _ outs']) simp
qed

lemma run_accepted:
  assumes "chain_seen env outs []" "\<forall>f \<in> set (decoded env 0 frames). chain_accepts env outs f"
  shows "\<exists>outs'. run env frames outs = (None, length frames, outs') \<and> chain_seen env outs' (decoded env 0 frames)"
  using run_from_accepted [OF assms, of "[]"] by (auto simp: run_def)

lemma run_refused:
  assumes "chain_seen env outs []" "\<forall>f \<in> set (decoded env 0 pre). chain_accepts env outs f"
    and bad: "\<not> chain_accepts env outs (decode_frame (env_np env) data (length pre + 1) timestamp interface)"
  shows "\<exists>err outs' k. run env (pre @ (data, timestamp, interface) # post) outs = (Some err, length pre + 1, outs') \<and>
    k < length outs' \<and>
    chain_seen env (take k outs') (decoded env 0 (pre @ [(data, timestamp, interface)])) \<and>
    chain_seen env (drop k outs') (decoded env 0 pre)"
proof -
  let ?f = "decode_frame (env_np env) data (length pre + 1) timestamp interface"
  obtain outs1 where r: "run_from env 0 (pre @ (data, timestamp, interface) # post) outs =
      run_from env (length pre) ((data, timestamp, interface) # post) outs1"
    and s: "chain_seen env outs1 (decoded env 0 pre)"
    and a: "\<And>g. chain_accepts env outs1 g = chain_accepts env outs g"
    using run_from_accepted [OF assms(1,2), of "(data, timestamp, interface) # post"] by auto
  have "\<not> chain_accepts env outs1 ?f" using bad a by simp
  from dispatch_refused [OF s this] obtain err outs' k where
    "dispatch env ?f outs1 = (Some err, outs')" "k < length outs'"
    "chain_seen env (take k outs') (decoded env 0 pre @ [?f])" "chain_seen env (drop k outs') (decoded env 0 pre)"
    by blast
  then show ?thesis using r by (intro exI [of _ err] exI [of _ outs'] exI [of _ k]) (simp add: run_def decoded_append)
qed

section \<open>Starting up\<close>

lemma build_outputs_cases:
  "build_outputs open_write args = Inr (Inr outs) \<longleftrightarrow>
     (let first = (if arg_json args then NDJSON_output [] else Screen_output (arg_data args) [])
      in outs = [first, Stats_output new_StatsCollector] \<and> arg_write args = None \<or>
         outs = [first, Pcap_output \<lparr>pcap_file = pcap_header, pcap_closed = False\<rparr>, Stats_output new_StatsCollector] \<and>
           (\<exists>path. arg_write args = Some path \<and> open_write path = None))"
  by (auto simp: build_outputs_def new_PcapWriter_header Let_def split: option.splits)

lemma new_outputs_seen:
  "output_has_seen env (Screen_output d []) []" "output_has_seen env (NDJSON_output []) []"
  "output_has_seen env (Pcap_output \<lparr>pcap_file = pcap_header, pcap_closed = False\<rparr>) []"
  "output_has_seen env (Stats_output new_StatsCollector) []"
  by (simp_all add: screen_has_seen_def ndjson_has_seen_def pcap_has_seen_def written_Inr stats_of_Nil)

lemma built_kinds:
  assumes "build_outputs open_write args = Inr (Inr outs)"
  shows "map kind_of outs =
    (if arg_json args then NDJSON_kind else Screen_kind) #
      (if arg_write args = None then [] else [Pcap_kind]) @ [Stats_kind]"
  using assms by (auto simp: build_outputs_cases Let_def)

lemma build_outputs_seen: "build_outputs open_write args = Inr (Inr outs) \<Longrightarrow> chain_seen env outs []"
  by (auto simp: build_outputs_cases Let_def new_outputs_seen simp del: output_has_seen.simps split: if_splits)

lemma build_outputs_no_exn: "build_outputs open_write args \<noteq> Inl err"
  by (auto simp: build_outputs_def new_PcapWriter_header Let_def split: option.splits)

lemma canned_fits: "map_of CANNED_FILTERS name = Some prog \<Longrightarrow> \<forall>i \<in> set prog. insn_fits i"
  by (auto simp: CANNED_FILTERS_def TCP_filter_def UDP_filter_def ARP_filter_def IP6_filter_def split: if_splits)

lemma compile_expression_fits:
  assumes "compile_expression expr = Inr prog"
  shows "\<forall>i \<in> set prog. insn_fits i"
proof -
  from assms obtain ts n where
    "tokenize expr = Inr ts" "parse ts = Inr n" "resolve (items (compile_program n)) = Inr prog"
    by (auto simp: compile_expression_Inr)
  then show ?thesis using compiled_fits parse_wf_node tokenize_wf by blast
qed

definition filter_instructions :: "pystr \<Rightarrow> compile_error + SockFilter list" where
  "filter_instructions expr =
     (case map_of CANNED_FILTERS expr of Some prog \<Rightarrow> Inr prog | None \<Rightarrow> compile_expression expr)"

lemma filter_instructions_fits: "filter_instructions expr = Inr prog \<Longrightarrow> \<forall>i \<in> set prog. insn_fits i"
  using canned_fits compile_expression_fits by (fastforce simp: filter_instructions_def split: option.splits)

lemma new_FilterProgram_fits: "\<forall>i \<in> set prog. insn_fits i \<Longrightarrow> \<exists>p. new_FilterProgram e addr prog = Inr p"
  using pack_instructions_iff [of e prog] by (auto simp: new_FilterProgram_Inr)

text \<open>A filter is refused exactly when the compiler refuses it; packing never fails.\<close>

lemma resolve_filter_cases:
  assumes "arg_filter args = Some expr"
  shows "resolve_filter_program e addr args =
     (case filter_instructions expr of
        Inr prog \<Rightarrow> (case new_FilterProgram e addr prog of Inl _ \<Rightarrow> Inl Uncaught_pack | Inr p \<Rightarrow> Inr (Some p))
      | Inl err \<Rightarrow> (case err of BPFCompileError r \<Rightarrow> Inl (Usage (Bad_filter r)) | _ \<Rightarrow> Inl (Uncaught_compile err)))"
  using assms
  by (auto simp: resolve_filter_program_def filter_instructions_def split: option.splits sum.splits compile_error.splits)

lemma resolve_filter_never_packs: "resolve_filter_program e addr args \<noteq> Inl Uncaught_pack"
proof (cases "arg_filter args")
  case None
  then show ?thesis by (simp add: resolve_filter_program_def)
next
  case (Some expr)
  show ?thesis
  proof (cases "filter_instructions expr")
    case (Inl err)
    then show ?thesis by (simp add: resolve_filter_cases [OF Some] split: compile_error.split)
  next
    case (Inr prog)
    then obtain p where "new_FilterProgram e addr prog = Inr p"
      using new_FilterProgram_fits filter_instructions_fits by blast
    with Inr show ?thesis by (simp add: resolve_filter_cases [OF Some])
  qed
qed

section \<open>Ending\<close>

fun output_closed :: "out_state \<Rightarrow> bool" where
  "output_closed (Pcap_output w) = pcap_closed w"
| "output_closed out = True"

lemma output_close_closed: "output_closed (output_close out)"
  by (cases out) (simp_all add: OutputToPcap_close_def pcap_close_def)

lemma drive_closes: "list_all output_closed (final_outputs (drive_and_close env outs source))"
  by (auto simp: drive_and_close_def list_all_iff output_close_closed split: prod.splits)

text \<open>A report comes with exit status 0, and with nothing else.\<close>

lemma drive_end_report: "drive_end ending = (status, msgs, report) \<Longrightarrow> report \<longleftrightarrow> status = Returned 0"
proof (induction ending rule: drive_end.induct)
  case (4 err)
  then show ?case by (cases err rule: handle.cases) auto
qed auto

lemma drive_report:
  "reported (drive_and_close env outs source) \<longleftrightarrow> exit_status (drive_and_close env outs source) = Returned 0"
  by (auto simp: drive_and_close_def split: prod.splits dest: drive_end_report)

section \<open>From an archive back to its frames\<close>

definition retag :: "pystr \<Rightarrow> captured_frame \<Rightarrow> captured_frame" where
  "retag path f = (case f of (data, timestamp, _) \<Rightarrow> (data, timestamp, Some path))"

lemma captured_decoded:
  "map captured (decoded env n frames) = map (\<lambda>(data, timestamp, _). (data, timestamp)) frames"
  by (induction env n frames rule: decoded.induct) (simp_all add: captured_def decode_frame_def Let_def)

lemma decoded_retag:
  "decoded env n (map (retag path) frames) = map (\<lambda>f. f\<lparr>frame_interface := Some path\<rparr>) (decoded env n frames)"
  by (induction env n frames rule: decoded.induct) (simp_all add: retag_def decode_frame_def Let_def)

lemma frame_bucket_interface: "frame_bucket np (f\<lparr>frame_interface := i\<rparr>) = frame_bucket np f"
  by (simp add: frame_bucket_def)

lemma stats_of_retag: "stats_of np (map (\<lambda>f. f\<lparr>frame_interface := i\<rparr>) fs) = stats_of np fs"
proof -
  have "counts_as_malformed (f\<lparr>frame_interface := i\<rparr>) = counts_as_malformed f" for f :: "'a DecodedFrame"
    by (simp add: counts_as_malformed_def)
  then show ?thesis by (simp add: stats_of_def o_def frame_bucket_interface filter_map)
qed

text \<open>
  Replaying a file the writer made, with a library that reads nanosecond pcap records back:
  the same frames, tagged with the path.
\<close>

lemma replay_written:
  assumes "written rs = Inr content" and "read_library content = (rs, None)"
  shows "replay_source read_library (Inr content) path None =
    (map (\<lambda>(data, timestamp). (data, timestamp, Some path)) rs, Exhausted)"
proof -
  have "declared_linktype content = Inr (Some 1)" using written_read_back [OF assms(1)] by simp
  then show ?thesis
    by (simp add: replay_source_def read_captures_def LINKTYPE_ETHERNET_def assms(2))
qed

section \<open>The filter on the socket\<close>

lemma filter_program_reads:
  assumes "resolve_filter_program e addr args = Inr (Some p)" "arg_filter args = Some expr"
  obtains prog where "filter_instructions expr = Inr prog" "new_FilterProgram e addr prog = Inr p"
proof (cases "filter_instructions expr")
  case (Inl err)
  then show ?thesis using assms by (simp add: resolve_filter_cases [OF assms(2)] split: compile_error.splits)
next
  case (Inr prog)
  then show ?thesis using assms that by (auto simp: resolve_filter_cases [OF assms(2)] split: sum.splits)
qed

lemma attach_in_calls:
  "Set_option SOL_SOCKET SO_ATTACH_FILTER (as_bytes e p) \<in> set (open_socket_calls e interface (Some p))"
  "Bind_interface name \<in> set (open_socket_calls e (Some name) program)"
  by (simp_all add: open_socket_calls_def)

text \<open>The start of the calls: the socket exists, nothing is attached and nothing is bound.\<close>

lemma open_socket_first_calls:
  "open_socket_calls e interface program =
     [Create_socket ETH_P_ALL, Set_flag SOL_SOCKET SO_TIMESTAMPNS 1] @
       drop 2 (open_socket_calls e interface program)"
  by (simp add: open_socket_calls_def)

text \<open>A filter keeps what its expression means, whether it is a canned name or compiled.\<close>

lemma filter_instructions_sem:
  assumes "filter_instructions expr = Inr prog" "length prog \<le> 10000"
  shows "\<exists>ts n. tokenize expr = Inr ts \<and> derives_or ts n \<and>
    (\<forall>packet. vm_accepts prog packet \<longleftrightarrow> sem n packet = Some True)"
proof (cases "map_of CANNED_FILTERS expr")
  case None
  with assms(1) have "compile_expression expr = Inr prog" by (simp add: filter_instructions_def)
  then obtain ts n where c: "tokenize expr = Inr ts" "parse ts = Inr n" "resolve (items (compile_program n)) = Inr prog"
    by (auto simp: compile_expression_Inr)
  have "derives_or ts n" by (rule parse_sound [OF c(2) tokenize_wf [OF c(1)]])
  with c compiled_accepts [OF c(3) assms(2)] show ?thesis by blast
next
  case (Some q)
  with assms(1) have q: "(expr, prog) \<in> set CANNED_FILTERS"
    by (auto simp: filter_instructions_def dest: map_of_SomeD)
  have "tokenize expr = Inr [word expr]" by (rule protocol_tokens [OF canned_name [OF q]])
  moreover have "derives_or [word expr] (Proto expr)"
    by (intro or_one and_one not_primary primary_primitive prim_proto canned_name [OF q])
  moreover have "vm_accepts prog packet \<longleftrightarrow> sem (Proto expr) packet = Some True" for packet
    using canned_filters_run [OF q, of packet] by (simp add: vm_accepts_def ACCEPT_LENGTH_def)
  ultimately show ?thesis by blast
qed

section \<open>Exit codes\<close>

text \<open>The exit status the way a capture ends asks for.\<close>

fun ending_status :: "source_end \<Rightarrow> exit" where
  "ending_status (Source_raised (Exn_OSError (Permission_denied m))) = Returned 1"
| "ending_status (Source_raised (Exn_ValueError m)) = Returned 1"
| "ending_status (Source_raised err) = Propagated err"
| "ending_status Exhausted = Returned 0"
| "ending_status (Signalled sig) = Returned 0"

lemma handle_status: "fst (handle err) = ending_status (Source_raised err)"
  by (cases err rule: handle.cases) auto

lemma drive_end_status: "fst (drive_end e) = ending_status e"
  by (cases e rule: drive_end.cases) (simp_all add: case_prod_unfold handle_status)

lemma drive_status:
  "exit_status (drive_and_close env outs (frames, ending)) =
     ending_status (case fst (run env frames outs) of Some x \<Rightarrow> Source_raised x | None \<Rightarrow> ending)"
  by (simp add: drive_and_close_def case_prod_unfold drive_end_status split: option.split)

fun_cases returned_statusE: "ending_status e = Returned n"

lemma ending_status_codes: "ending_status e = Returned n \<Longrightarrow> n = 0 \<or> n = 1"
  by (elim returned_statusE) simp_all

lemma drive_status_codes: "exit_status (drive_and_close env outs source) = Returned n \<Longrightarrow> n = 0 \<or> n = 1"
  by (cases source) (auto simp: drive_status dest: ending_status_codes)

lemma drive_not_2 [simp]: "exit_status (drive_and_close env outs source) \<noteq> Returned 2"
  by (auto dest: drive_status_codes)

text \<open>The faults of the command line: combinations the options exclude, or a filter with an error.\<close>

definition usage_fault :: "(pystr \<Rightarrow> pystr \<Rightarrow> bool) \<Rightarrow> arguments \<Rightarrow> bool" where
  "usage_fault same args \<longleftrightarrow>
     arg_read args \<noteq> None \<and> (arg_interface args \<noteq> None \<or> arg_filter args \<noteq> None) \<or>
     (\<exists>r w. arg_read args = Some r \<and> arg_write args = Some w \<and> same r w) \<or>
     (\<exists>expr reason. arg_filter args = Some expr \<and> filter_instructions expr = Inl (BPFCompileError reason))"

lemma usage_exit_iff:
  "(\<exists>u. main env same e addr open_write os_message source args = Usage_exit u) \<longleftrightarrow> usage_fault same args"
proof (cases "arg_filter args")
  case None
  then show ?thesis
    using build_outputs_no_exn [of open_write args]
    by (auto simp: main_def validate_args_def usage_fault_def resolve_filter_program_def Let_def
        split: option.split sum.split)
next
  case (Some expr)
  have "resolve_filter_program e addr args = Inl (Usage u) \<Longrightarrow> \<exists>reason. u = Bad_filter reason" for u
    using resolve_filter_cases [OF Some, of e addr] by (auto split: sum.splits compile_error.splits)
  then show ?thesis
    using resolve_filter_cases [OF Some, of e addr] Some
    by (auto simp: main_def validate_args_def usage_fault_def Let_def
        split: option.splits sum.splits compile_error.splits)
qed

lemma exit_2_iff:
  "exit_code (main env same e addr open_write os_message source args) = Some 2 \<longleftrightarrow> usage_fault same args"
proof -
  have ran: "exit_status r \<noteq> Returned 2"
    if "main env same e addr open_write os_message source args = Ran r" for r
    using that by (auto simp: main_def Let_def split: sum.splits startup_error.splits)
  have "exit_code m = Some 2 \<longleftrightarrow> (\<exists>u. m = Usage_exit u)" if "\<And>r. m = Ran r \<Longrightarrow> exit_status r \<noteq> Returned 2" for m
    using that by (cases m) (auto split: exit.splits)
  with ran usage_exit_iff show ?thesis by metis
qed

lemma cannot_open_iff:
  "(\<exists>message. main env same e addr open_write os_message source args = Cannot_open message) \<longleftrightarrow>
     \<not> usage_fault same args \<and> (\<exists>program. resolve_filter_program e addr args = Inr program) \<and>
     (\<exists>path. arg_write args = Some path \<and> open_write path \<noteq> None)"
proof -
  have "(\<exists>message. main env same e addr open_write os_message source args = Cannot_open message) \<longleftrightarrow>
      validate_args same args = Inr () \<and> (\<exists>program. resolve_filter_program e addr args = Inr program) \<and>
      (\<exists>err. build_outputs open_write args = Inr (Inl err))"
    by (auto simp: main_def Let_def split: sum.splits startup_error.splits)
  moreover have "(\<exists>err. build_outputs open_write args = Inr (Inl err)) \<longleftrightarrow>
      (\<exists>path. arg_write args = Some path \<and> open_write path \<noteq> None)"
    by (auto simp: build_outputs_def new_PcapWriter_header Let_def split: option.splits)
  moreover have "validate_args same args = Inr () \<longleftrightarrow> \<not> usage_fault same args"
    if "\<exists>program. resolve_filter_program e addr args = Inr program"
  proof -
    have "filter_instructions expr \<noteq> Inl (BPFCompileError reason)" if "arg_filter args = Some expr" for expr reason
      using \<open>\<exists>program. resolve_filter_program e addr args = Inr program\<close> resolve_filter_cases [OF that, of e addr] by auto
    then show ?thesis by (auto simp: validate_args_def usage_fault_def split: option.splits)
  qed
  ultimately show ?thesis by blast
qed

end
