(* ===== verification/Cli_Args_Correct.thy ===== *)
theory Cli_Args_Correct
  imports Cli_Args Cli_Correct
begin

text \<open>
  Command lines against what they mean: every way to spell an option that the argument
  parser of \<^verbatim>\<open>src/rootwire/cli.py\<close> understands, and which namespaces it can produce.
\<close>

section \<open>Option strings\<close>

lemma option_strings_check:
  "list_all (\<lambda>(opt, a). hd opt = DASH \<and> 2 \<le> length opt \<and> EQ \<notin> set opt \<and> opt \<noteq> [DASH, DASH] \<and>
     (length opt = 2 \<longleftrightarrow> opt ! 1 \<noteq> DASH)) OPTION_STRINGS"
  by (simp add: OPTION_STRINGS_def DASH_def EQ_def)

lemma option_strings_distinct: "distinct (map fst OPTION_STRINGS)"
  by (simp add: OPTION_STRINGS_def)

lemma option_strings_shape:
  assumes "(opt, a) \<in> set OPTION_STRINGS"
  shows "\<exists>c r. opt = DASH # c # r" "EQ \<notin> set opt" "opt \<noteq> [DASH, DASH]"
    "map_of OPTION_STRINGS opt = Some a" "length opt = 2 \<longleftrightarrow> opt ! 1 \<noteq> DASH"
proof -
  have c: "hd opt = DASH" "2 \<le> length opt" "EQ \<notin> set opt" "opt \<noteq> [DASH, DASH]"
      "length opt = 2 \<longleftrightarrow> opt ! 1 \<noteq> DASH"
    using option_strings_check assms by (auto simp: list_all_iff)
  then show "\<exists>c r. opt = DASH # c # r" by (cases opt; cases "tl opt") auto
  show "EQ \<notin> set opt" "opt \<noteq> [DASH, DASH]" "length opt = 2 \<longleftrightarrow> opt ! 1 \<noteq> DASH" using c by blast+
  show "map_of OPTION_STRINGS opt = Some a"
    by (rule map_of_is_SomeI [OF option_strings_distinct assms])
qed

lemma not_an_option: "EQ \<in> set s \<Longrightarrow> map_of OPTION_STRINGS s = None"
  using option_strings_shape(2) by (force simp: map_of_eq_None_iff)

lemma partition_joined: "EQ \<notin> set p \<Longrightarrow> partition_eq (p @ EQ # v) = (p, Some v)"
  by (auto simp: partition_eq_def takeWhile_append dropWhile_append)

lemma partition_none:
  assumes "EQ \<notin> set p"
  shows "partition_eq p = (p, None)"
proof -
  from assms have "dropWhile (\<lambda>c. c \<noteq> EQ) p = []" "takeWhile (\<lambda>c. c \<noteq> EQ) p = p"
    by (auto simp: takeWhile_eq_all_conv)
  then show ?thesis by (simp add: partition_eq_def del: dropWhile_eq_Nil_conv takeWhile_eq_all_conv)
qed

section \<open>Spellings\<close>

text \<open>
  A beginning of a long option that no other option has: what \<^verbatim>\<open>argparse\<close> takes as an
  abbreviation.
\<close>

definition abbreviates :: "pystr \<Rightarrow> action \<Rightarrow> bool" where
  "abbreviates p a \<longleftrightarrow>
     take 2 p = [DASH, DASH] \<and> EQ \<notin> set p \<and> map_of OPTION_STRINGS p = None \<and>
     (\<exists>opt. filter (\<lambda>(opt, a). has_prefix opt p) OPTION_STRINGS = [(opt, a)])"

text \<open>The name of an option on the command line: one of its strings, or an abbreviation.\<close>

definition option_name :: "pystr \<Rightarrow> action \<Rightarrow> bool" where
  "option_name p a \<longleftrightarrow> (p, a) \<in> set OPTION_STRINGS \<or> abbreviates p a"

text \<open>A string that can follow an option as its value.\<close>

definition argument_like :: "pystr \<Rightarrow> bool" where
  "argument_like v \<longleftrightarrow> v \<noteq> [DASH, DASH] \<and> parse_optional v = Inr None"

lemma argument_like_plain: "v = [] \<or> hd v \<noteq> DASH \<Longrightarrow> argument_like v"
  by (auto simp: argument_like_def parse_optional_def)

text \<open>\<open>spelling (a, v) ws\<close>: the strings \<open>ws\<close> ask for the action with the value.\<close>

inductive spelling :: "action \<times> pystr option \<Rightarrow> pystr list \<Rightarrow> bool" where
  flag: "option_name p a \<Longrightarrow> \<not> takes_value a \<Longrightarrow> spelling (a, None) [p]"
| separate: "option_name p a \<Longrightarrow> takes_value a \<Longrightarrow> argument_like v \<Longrightarrow> spelling (a, Some v) [p, v]"
| joined: "option_name p a \<Longrightarrow> takes_value a \<Longrightarrow> spelling (a, Some v) [p @ EQ # v]"
| attached: "(p, a) \<in> set OPTION_STRINGS \<Longrightarrow> takes_value a \<Longrightarrow> length p = 2 \<Longrightarrow> v \<noteq> [] \<Longrightarrow>
    hd v \<noteq> EQ \<Longrightarrow> spelling (a, Some v) [p @ v]"

lemma names_dash: "option_name p a \<Longrightarrow> \<exists>c r. p = DASH # c # r"
  using option_strings_shape(1)
  by (cases p; cases "tl p") (auto simp: option_name_def abbreviates_def)

lemma names_plain: "option_name p a \<Longrightarrow> EQ \<notin> set p"
  using option_strings_shape(2) by (auto simp: option_name_def abbreviates_def)

lemma dashes_ambiguous:
  "length (filter (\<lambda>(opt, a). has_prefix opt [DASH, DASH]) OPTION_STRINGS) = 8"
  by (simp add: OPTION_STRINGS_def has_prefix_def DASH_def)

lemma names_not_end: "option_name p a \<Longrightarrow> p \<noteq> [DASH, DASH]"
  using option_strings_shape(3) dashes_ambiguous by (auto simp: option_name_def abbreviates_def)

lemma parse_optional_name:
  assumes "option_name p a"
  shows "\<exists>opt. parse_optional p = Inr (Some (Some a, opt, None, None))"
proof (cases "(p, a) \<in> set OPTION_STRINGS")
  case True
  with names_dash [OF assms] option_strings_shape(4) [OF True] show ?thesis
    by (auto simp: parse_optional_def)
next
  case False
  with assms have ab: "abbreviates p a" by (simp add: option_name_def)
  obtain c r where p: "p = DASH # c # r" using names_dash [OF assms] by blast
  from ab p obtain opt where "c = DASH" "map_of OPTION_STRINGS p = None"
    "filter (\<lambda>(opt, a). has_prefix opt p) OPTION_STRINGS = [(opt, a)]" "partition_eq p = (p, None)"
    by (auto simp: abbreviates_def partition_none)
  with p show ?thesis by (simp add: parse_optional_def get_option_tuples_def)
qed

lemma parse_optional_joined:
  assumes "option_name p a"
  shows "\<exists>opt. parse_optional (p @ EQ # v) = Inr (Some (Some a, opt, Some [EQ], Some v))"
proof -
  obtain c r where p: "p = DASH # c # r" using names_dash [OF assms] by blast
  have part: "partition_eq (p @ EQ # v) = (p, Some v)"
    by (rule partition_joined [OF names_plain [OF assms]])
  have none: "map_of OPTION_STRINGS (p @ EQ # v) = None" by (rule not_an_option) simp
  show ?thesis
  proof (cases "map_of OPTION_STRINGS p")
    case None
    with assms option_strings_shape(4) have ab: "abbreviates p a" by (auto simp: option_name_def)
    with p obtain opt where "c = DASH"
      "filter (\<lambda>(opt, a). has_prefix opt p) OPTION_STRINGS = [(opt, a)]"
      by (auto simp: abbreviates_def)
    with p part none None show ?thesis by (simp add: parse_optional_def get_option_tuples_def)
  next
    case (Some b)
    with assms option_strings_shape(4) have "b = a" by (auto simp: option_name_def abbreviates_def)
    with p part none Some show ?thesis by (simp add: parse_optional_def)
  qed
qed

lemma not_short_option: "2 < length s \<Longrightarrow> s ! 1 \<noteq> DASH \<Longrightarrow> map_of OPTION_STRINGS s = None"
  using option_strings_shape(5) map_of_SomeD
  by (metis (no_types, opaque_lifting) less_irrefl option.exhaust)

lemma concat_keyed:
  "distinct (map fst xs) \<Longrightarrow> (p, a) \<in> set xs \<Longrightarrow>
     concat (map (\<lambda>(opt, b). if opt = p then [g opt b] else []) xs) = [g p a]"
proof (induction xs)
  case (Cons x xs)
  have none: "concat (map (\<lambda>(opt, b). if opt = p then [g opt b] else []) ys) = []"
    if "p \<notin> fst ` set ys" for ys
    using that by (induction ys) auto
  from Cons show ?case by (cases x; cases "fst x = p") (auto simp: none)
qed simp

lemma parse_optional_attached:
  assumes "(p, a) \<in> set OPTION_STRINGS" "length p = 2" "v \<noteq> []" "hd v \<noteq> EQ"
  shows "parse_optional (p @ v) = Inr (Some (Some a, p, Some [], Some v))"
proof -
  note shape = option_strings_shape [OF assms(1)]
  obtain c where p: "p = [DASH, c]"
    using shape(1) assms(2) by auto
  with shape(5) have c: "c \<noteq> DASH" by simp
  obtain d u where v: "v = d # u" "d \<noteq> EQ" using assms(3,4) by (cases v) auto
  have none: "map_of OPTION_STRINGS (DASH # c # d # w) = None" for w
    using c by (intro not_short_option) simp_all
  have part: "\<exists>w e. partition_eq (p @ v) = (DASH # c # d # w, e)"
    using p v shape(2) by (auto simp: partition_eq_def)
  have long: "\<not> has_prefix opt (p @ v)" if "(opt, b) \<in> set OPTION_STRINGS" for opt b
  proof
    assume "has_prefix opt (p @ v)"
    then obtain w where "opt = DASH # c # d # w"
      unfolding has_prefix_def p v by (metis append.simps append_take_drop_id)
    with none that option_strings_shape(4) show False by fastforce
  qed
  have "get_option_tuples (p @ v) =
      concat (map (\<lambda>(opt, b). if opt = p then [(Some b, opt, Some [], Some v)] else []) OPTION_STRINGS)"
    using c long by (auto simp: get_option_tuples_def p intro!: arg_cong [of _ _ concat])
  also have "\<dots> = [(Some a, p, Some [], Some v)]"
    by (rule concat_keyed [OF option_strings_distinct assms(1)])
  finally have "get_option_tuples (p @ v) = [(Some a, p, Some [], Some v)]" .
  with part none p v show ?thesis by (auto simp: parse_optional_def)
qed

section \<open>Spelled command lines\<close>

text \<open>One option, read off the front of a command line.\<close>

definition reads_as :: "action \<times> pystr option \<Rightarrow> pystr list \<Rightarrow> bool" where
  "reads_as act ws \<longleftrightarrow>
     (\<exists>slots. (\<forall>rest. classify (ws @ rest) = then_do (classify rest) (\<lambda>r. Inr (slots @ r))) \<and>
       (\<forall>r ns ex. consume (slots @ r) ns ex = then_do (take_action act ns) (\<lambda>ns. consume r ns ex)))"

lemma then_do_Inr_id: "then_do m Inr = m"
  by (cases m) simp_all

lemma then_do_assoc: "then_do (then_do m f) g = then_do m (\<lambda>a. then_do (f a) g)"
  by (cases m) simp_all

lemma take_actions_single: "take_actions [act] ns = take_action act ns"
  by (cases "take_action act ns") simp_all

lemma reads_single:
  assumes "w \<noteq> [DASH, DASH]" and "parse_optional w = Inr (Some (Some a, opt, sep, ex))"
    and "\<And>following. option_chain following a opt sep ex = Inr ([act], [], 0)"
  shows "reads_as act [w]"
  unfolding reads_as_def
  by (rule exI [of _ "[(w, Slot_O (Some a, opt, sep, ex))]"])
    (simp add: assms take_actions_single del: take_actions.simps)

lemma reads_separate:
  assumes "w \<noteq> [DASH, DASH]" and "parse_optional w = Inr (Some (Some a, opt, None, None))"
    and "takes_value a" and "argument_like v"
  shows "reads_as (a, Some v) [w, v]"
  unfolding reads_as_def
  using assms
  by (intro exI [of _ "[(w, Slot_O (Some a, opt, None, None)), (v, Slot_A)]"])
    (auto simp: argument_like_def then_do_assoc take_actions_single simp del: take_actions.simps)

lemma spelling_reads: "spelling act ws \<Longrightarrow> reads_as act ws"
proof (induction rule: spelling.induct)
  case (flag p a)
  from parse_optional_name [OF flag(1)] obtain opt where
    "parse_optional p = Inr (Some (Some a, opt, None, None))" by blast
  from reads_single [OF names_not_end [OF flag(1)] this] flag(2) show ?case by simp
next
  case (separate p a v)
  from parse_optional_name [OF separate(1)] obtain opt where
    "parse_optional p = Inr (Some (Some a, opt, None, None))" by blast
  from reads_separate [OF names_not_end [OF separate(1)] this separate(2,3)] show ?case .
next
  case (joined p a v)
  from parse_optional_joined [OF joined(1), of v] obtain opt where
    "parse_optional (p @ EQ # v) = Inr (Some (Some a, opt, Some [EQ], Some v))" by blast
  moreover have "p @ EQ # v \<noteq> [DASH, DASH]"
    by (metis EQ_def DASH_def in_set_conv_decomp insertE list.set(1,2) emptyE numeral_eq_iff
        semiring_norm(87,88,89,90))
  ultimately show ?case using reads_single joined(2) by simp
next
  case (attached p a v)
  have "length (p @ v) \<noteq> 2" using attached(3,4) by simp
  then have "p @ v \<noteq> [DASH, DASH]" by force
  from reads_single [OF this parse_optional_attached [OF attached(1,3-5)]] attached(2) show ?case by simp
qed

lemma classify_consume:
  "list_all2 reads_as acts wss \<Longrightarrow>
     \<exists>slots. classify (concat wss) = Inr slots \<and>
       (\<forall>ns ex. consume slots ns ex = then_do (take_actions acts ns) (\<lambda>ns. Inr (ns, ex)))"
proof (induction acts wss rule: list_all2_induct)
  case Nil
  show ?case by simp
next
  case (Cons act acts ws wss)
  from Cons.hyps(1) obtain slots where s:
    "\<And>rest. classify (ws @ rest) = then_do (classify rest) (\<lambda>r. Inr (slots @ r))"
    "\<And>r ns ex. consume (slots @ r) ns ex = then_do (take_action act ns) (\<lambda>ns. consume r ns ex)"
    by (auto simp: reads_as_def)
  from Cons.IH obtain more where m: "classify (concat wss) = Inr more"
    "\<And>ns ex. consume more ns ex = then_do (take_actions acts ns) (\<lambda>ns. Inr (ns, ex))" by blast
  then show ?case
    by (intro exI [of _ "slots @ more"]) (simp add: s then_do_assoc)
qed

theorem parse_spelled:
  assumes "list_all2 spelling acts wss"
  shows "parse_args (concat wss) = take_actions acts default_arguments"
proof -
  have "list_all2 reads_as acts wss" using assms spelling_reads by (rule list_all2_mono)
  from classify_consume [OF this] show ?thesis
    by (auto simp: parse_args_def then_do_assoc then_do_Inr_id)
qed

section \<open>The namespace\<close>

text \<open>The values given to an option, in order; the namespace keeps all, or the last.\<close>

fun the_list :: "'a option \<Rightarrow> 'a list" where
  "the_list None = []"
| "the_list (Some v) = [v]"

definition values_of :: "action \<Rightarrow> (action \<times> pystr option) list \<Rightarrow> pystr list" where
  "values_of a acts = concat (map (\<lambda>(b, v). if b = a then the_list v else []) acts)"

definition last_value :: "pystr option \<Rightarrow> pystr list \<Rightarrow> pystr option" where
  "last_value old vs = (if vs = [] then old else Some (last vs))"

definition more_values :: "pystr list option \<Rightarrow> pystr list \<Rightarrow> pystr list option" where
  "more_values old vs = (if vs = [] then old else Some ((case old of None \<Rightarrow> [] | Some us \<Rightarrow> us) @ vs))"

definition informs :: "action \<times> pystr option \<Rightarrow> bool" where
  "informs act \<longleftrightarrow> fst act = Act_help \<or> fst act = Act_version"

definition namespace_after :: "arguments \<Rightarrow> (action \<times> pystr option) list \<Rightarrow> arguments" where
  "namespace_after ns acts =
     \<lparr>arg_interface = more_values (arg_interface ns) (values_of Act_interface acts),
      arg_read = last_value (arg_read ns) (values_of Act_read acts),
      arg_write = last_value (arg_write ns) (values_of Act_write acts),
      arg_filter = last_value (arg_filter ns) (values_of Act_filter acts),
      arg_json = (arg_json ns \<or> Act_json \<in> fst ` set acts),
      arg_data = (arg_data ns \<or> Act_data \<in> fst ` set acts)\<rparr>"

text \<open>An action with a value where it takes one.\<close>

definition well_given :: "action \<times> pystr option \<Rightarrow> bool" where
  "well_given act \<longleftrightarrow> (takes_value (fst act) \<longleftrightarrow> snd act \<noteq> None)"

lemma spelling_well_given: "spelling act ws \<Longrightarrow> well_given act"
  by (induction rule: spelling.induct) (simp_all add: well_given_def)

lemma take_action_step:
  assumes "well_given act"
  shows "take_action act ns = (if informs act then Inl (Information (fst act)) else Inr (namespace_after ns [act]))"
proof -
  obtain a v where act: "act = (a, v)" by (cases act)
  note effect = informs_def namespace_after_def values_of_def last_value_def more_values_def
  show ?thesis
    using assms unfolding act well_given_def
    by (cases a; cases v; cases ns) (simp_all add: effect)
qed

lemma values_of_append: "values_of a (xs @ ys) = values_of a xs @ values_of a ys"
  by (simp add: values_of_def)

lemma last_value_append: "last_value (last_value old xs) ys = last_value old (xs @ ys)"
  by (simp add: last_value_def)

lemma more_values_append: "more_values (more_values old xs) ys = more_values old (xs @ ys)"
  by (simp add: more_values_def)

lemma namespace_after_append:
  "namespace_after (namespace_after ns xs) ys = namespace_after ns (xs @ ys)"
  by (simp add: namespace_after_def values_of_append last_value_append more_values_append
      image_Un disj_assoc)

lemma take_actions_result:
  "list_all well_given acts \<Longrightarrow>
     take_actions acts ns =
       (case find informs acts of
          Some act \<Rightarrow> Inl (Information (fst act))
        | None \<Rightarrow> Inr (namespace_after ns acts))"
proof (induction acts arbitrary: ns)
  case Nil
  show ?case by (simp add: namespace_after_def values_of_def last_value_def more_values_def)
next
  case (Cons act acts)
  then show ?case
    using namespace_after_append [of ns "[act]" acts]
    by (auto simp: take_action_step split: option.split)
qed

section \<open>Which namespaces there are\<close>

lemma take_actions_interface:
  "take_actions acts ns = Inr ns' \<Longrightarrow> arg_interface ns \<noteq> Some [] \<Longrightarrow> arg_interface ns' \<noteq> Some []"
proof (induction acts arbitrary: ns)
  case (Cons act acts)
  then obtain ns1 where "take_action act ns = Inr ns1" "take_actions acts ns1 = Inr ns'"
    by (auto simp: then_do_Inr_iff)
  moreover from this(1) have "arg_interface ns1 \<noteq> Some []"
    using Cons.prems(2) by (cases "(act, ns)" rule: take_action.cases) auto
  ultimately show ?case using Cons.IH by blast
qed simp

lemma consume_interface:
  "consume slots ns ex = Inr (ns', ex') \<Longrightarrow> arg_interface ns \<noteq> Some [] \<Longrightarrow> arg_interface ns' \<noteq> Some []"
proof (induction slots ns ex rule: consume.induct)
  case (5 s a opt sep explicit slots ns ex)
  from "5.prems"(1) obtain acts left_over n ns1 where c:
    "option_chain slots a opt sep explicit = Inr (acts, left_over, n)" "take_actions acts ns = Inr ns1"
    "consume (drop n slots) ns1 (ex @ left_over) = Inr (ns', ex')"
    by (auto simp: then_do_Inr_iff)
  from "5.IH" [OF c(1) refl refl c(2,3)] take_actions_interface [OF c(2) "5.prems"(2)] show ?case
    by simp
qed auto

text \<open>A command line for a namespace: every option by its long name, with its value joined.\<close>

fun option_word :: "action \<times> pystr option \<Rightarrow> pystr" where
  "option_word (a, v) =
     (let name = (case a of
          Act_help \<Rightarrow> ascii ''--help'' | Act_interface \<Rightarrow> ascii ''--interface''
        | Act_read \<Rightarrow> ascii ''--read'' | Act_write \<Rightarrow> ascii ''--write''
        | Act_filter \<Rightarrow> ascii ''--filter'' | Act_json \<Rightarrow> ascii ''--json''
        | Act_data \<Rightarrow> ascii ''--data'' | Act_version \<Rightarrow> ascii ''--version'')
      in case v of None \<Rightarrow> name | Some s \<Rightarrow> name @ EQ # s)"

definition actions_for :: "arguments \<Rightarrow> (action \<times> pystr option) list" where
  "actions_for ns =
     map (\<lambda>v. (Act_interface, Some v)) (case arg_interface ns of None \<Rightarrow> [] | Some vs \<Rightarrow> vs) @
     map (\<lambda>v. (Act_read, Some v)) (the_list (arg_read ns)) @
     map (\<lambda>v. (Act_write, Some v)) (the_list (arg_write ns)) @
     map (\<lambda>v. (Act_filter, Some v)) (the_list (arg_filter ns)) @
     (if arg_json ns then [(Act_json, None)] else []) @
     (if arg_data ns then [(Act_data, None)] else [])"

definition command_line :: "arguments \<Rightarrow> pystr list" where
  "command_line ns = map option_word (actions_for ns)"

lemma option_word_spelling: "well_given act \<Longrightarrow> spelling act [option_word act]"
proof -
  assume w: "well_given act"
  obtain a v where act: "act = (a, v)" by (cases act)
  have named: "option_name (option_word (a, None)) a" for a
    by (cases a) (simp_all add: option_name_def OPTION_STRINGS_def)
  show ?thesis
  proof (cases v)
    case None
    with w act named [of a] show ?thesis
      by (auto simp: well_given_def simp del: option_word.simps intro: spelling.flag)
  next
    case (Some s)
    with w act have "takes_value a" by (simp add: well_given_def)
    from spelling.joined [OF named this, of s] Some act show ?thesis by (simp add: Let_def)
  qed
qed

lemma actions_for_well_given: "list_all well_given (actions_for ns)"
  by (auto simp: actions_for_def list_all_iff well_given_def)

lemma actions_for_silent: "find informs (actions_for ns) = None"
  by (auto simp: actions_for_def find_None_iff informs_def split: if_splits)

lemma namespace_actions_for:
  assumes "arg_interface ns \<noteq> Some []"
  shows "namespace_after default_arguments (actions_for ns) = ns"
proof -
  have all: "values_of a (map (\<lambda>v. (b, Some v)) vs) = (if a = b then vs else [])" for a b vs
    by (induction vs) (auto simp: values_of_def)
  have flags: "values_of a (if c then [(b, None)] else []) = []" for a b c
    by (simp add: values_of_def)
  have v: "values_of Act_interface (actions_for ns) = (case arg_interface ns of None \<Rightarrow> [] | Some vs \<Rightarrow> vs)"
    "values_of Act_read (actions_for ns) = the_list (arg_read ns)"
    "values_of Act_write (actions_for ns) = the_list (arg_write ns)"
    "values_of Act_filter (actions_for ns) = the_list (arg_filter ns)"
    by (simp_all add: actions_for_def values_of_append all flags)
  have f: "Act_json \<in> fst ` set (actions_for ns) \<longleftrightarrow> arg_json ns"
    "Act_data \<in> fst ` set (actions_for ns) \<longleftrightarrow> arg_data ns"
    by (auto simp: actions_for_def image_iff)
  have l: "last_value None (the_list x) = x" for x
    by (cases x) (simp_all add: last_value_def)
  show ?thesis
    using assms
    by (simp add: namespace_after_def v f default_arguments_def l more_values_def split: option.split)
qed

theorem parse_command_line:
  assumes "arg_interface ns \<noteq> Some []"
  shows "parse_args (command_line ns) = Inr ns"
proof -
  have "list_all2 spelling (actions_for ns) (map (\<lambda>act. [option_word act]) (actions_for ns))"
    using actions_for_well_given option_word_spelling
    by (simp add: list_all2_conv_all_nth list_all_length)
  from parse_spelled [OF this] have "parse_args (command_line ns) = take_actions (actions_for ns) default_arguments"
    by (simp add: command_line_def del: option_word.simps)
  then show ?thesis
    by (simp add: take_actions_result actions_for_well_given actions_for_silent namespace_actions_for [OF assms])
qed

theorem parse_args_range:
  "(\<exists>argv. parse_args argv = Inr ns) \<longleftrightarrow> arg_interface ns \<noteq> Some []"
proof
  assume "\<exists>argv. parse_args argv = Inr ns"
  then obtain slots where "consume slots default_arguments [] = Inr (ns, [])"
    by (auto simp: parse_args_def then_do_Inr_iff split: if_splits)
  from consume_interface [OF this] show "arg_interface ns \<noteq> Some []"
    by (simp add: default_arguments_def)
next
  assume "arg_interface ns \<noteq> Some []"
  from parse_command_line [OF this] show "\<exists>argv. parse_args argv = Inr ns" by blast
qed

section \<open>The exit status of a command line\<close>

lemma parse_status_2: "parse_status err = 2 \<longleftrightarrow> (\<nexists>a. err = Information a)"
  by (cases err) simp_all

lemma exit_2_argv:
  "argv_status (main_argv env same e addr open_write os_message source argv) = Some 2 \<longleftrightarrow>
     (\<exists>err. parse_args argv = Inl err \<and> (\<nexists>a. err = Information a)) \<or>
     (\<exists>args. parse_args argv = Inr args \<and> usage_fault same args)"
  by (cases "parse_args argv") (simp_all add: main_argv_def exit_2_iff parse_status_2)

end
