(* ===== verification/Source_Interface.thy ===== *)
theory Source_Interface
  imports Cli_Correct "HOL-Library.Sublist"
begin

text \<open>
  What \<^verbatim>\<open>run\<close> and \<^verbatim>\<open>main\<close> of \<^verbatim>\<open>src/rootwire/cli.py\<close> rely on in a source of frames, as a
  contract: it gives a prefix of the frames there are, and an exhausted one has given all
  of them. The two sources, a file replayed and the raw sockets, keep it.
\<close>

section \<open>How far the outputs are\<close>

text \<open>
  \<open>seen_up_to env k j outs fs\<close>: the first \<open>j\<close> outputs have seen the first \<open>k\<close> frames of
  \<open>fs\<close>, those behind them one frame less.
\<close>

definition seen_up_to :: "'l cli_env \<Rightarrow> nat \<Rightarrow> nat \<Rightarrow> out_state list \<Rightarrow> 'l DecodedFrame list \<Rightarrow> bool" where
  "seen_up_to env k j outs fs \<longleftrightarrow> k \<le> length fs \<and> j \<le> length outs \<and>
     chain_seen env (take j outs) (take k fs) \<and> chain_seen env (drop j outs) (take (k - 1) fs)"

lemma seen_up_to_all: "seen_up_to env k (length outs) outs fs \<longleftrightarrow> k \<le> length fs \<and> chain_seen env outs (take k fs)"
  by (simp add: seen_up_to_def)

lemma seen_up_to_nth:
  assumes "seen_up_to env k j outs fs" "i < length outs"
  shows "output_has_seen env (outs ! i) (take (if i < j then k else k - 1) fs)"
proof (cases "i < j")
  case True
  with assms show ?thesis by (simp add: seen_up_to_def chain_seen_def list_all_length)
next
  case False
  with assms(2) have "outs ! i \<in> set (drop j outs)"
    by (auto simp: in_set_conv_nth intro!: exI [of _ "i - j"])
  with assms(1) False show ?thesis by (simp add: seen_up_to_def chain_seen_def list_all_iff)
qed

lemma decoded_take: "decoded env n (take k frames) = take k (decoded env n frames)"
proof (induction env n frames arbitrary: k rule: decoded.induct)
  case (2 env n d t i frames)
  then show ?case by (cases k) simp_all
qed simp

text \<open>The loop over any frames, whether or not an output refuses one.\<close>

lemma run_seen_up_to:
  assumes "chain_seen env outs []"
  shows "\<exists>err k j outs'. run env frames outs = (err, k, outs') \<and> seen_up_to env k j outs' (decoded env 0 frames) \<and>
    (err = None \<longrightarrow> k = length frames \<and> j = length outs')"
proof (cases "\<forall>f \<in> set (decoded env 0 frames). chain_accepts env outs f")
  case True
  from run_accepted [OF assms this] obtain outs' where
    "run env frames outs = (None, length frames, outs')" "chain_seen env outs' (decoded env 0 frames)"
    by blast
  then show ?thesis by (auto simp: seen_up_to_def intro!: exI [of _ "length outs'"])
next
  case False
  let ?refused = "\<lambda>k. k < length frames \<and> \<not> chain_accepts env outs (decoded env 0 frames ! k)"
  from False have "\<exists>k. ?refused k" by (metis in_set_conv_nth length_decoded)
  then have "?refused (LEAST k. ?refused k)" by (rule LeastI_ex)
  then obtain k where k: "?refused k" and first: "\<And>i. i < k \<Longrightarrow> \<not> ?refused i"
    using not_less_Least [of _ ?refused] by blast
  obtain data ts interface where f: "frames ! k = (data, ts, interface)" using prod_cases3 by blast
  have split: "frames = take k frames @ (data, ts, interface) # drop (Suc k) frames"
    using k f id_take_nth_drop by metis
  have "\<forall>f \<in> set (decoded env 0 (take k frames)). chain_accepts env outs f"
    using first k by (auto simp: decoded_take in_set_conv_nth)
  moreover have "\<not> chain_accepts env outs (decode_frame (env_np env) data (length (take k frames) + 1) ts interface)"
    using k decoded_nth [of k frames data ts interface env 0] f by simp
  ultimately obtain err outs' j where run: "run env frames outs = (Some err, Suc k, outs')" "j < length outs'"
      "chain_seen env (take j outs') (decoded env 0 (take k frames @ [(data, ts, interface)]))"
      "chain_seen env (drop j outs') (take k (decoded env 0 frames))"
    using run_refused [OF assms, of "take k frames" data ts interface "drop (Suc k) frames"] k split
    by (auto simp: decoded_take)
  have "take k frames @ [(data, ts, interface)] = take (Suc k) frames"
    using k f by (simp add: take_Suc_conv_app_nth)
  with run k show ?thesis by (auto simp: seen_up_to_def decoded_take intro!: exI [of _ j])
qed

section \<open>The contract\<close>

text \<open>
  \<open>valid i\<close>: the run \<open>i\<close> of the source can happen; \<open>source i\<close>: what it gives and how it ends;
  \<open>available i\<close>: the frames there were to give.
\<close>

locale frame_source =
  fixes valid :: "'i \<Rightarrow> bool"
    and source :: "'i \<Rightarrow> captured_frame list \<times> source_end"
    and available :: "'i \<Rightarrow> captured_frame list"
  assumes gives_prefix: "valid i \<Longrightarrow> prefix (fst (source i)) (available i)"
begin

lemma decoded_prefix: "valid i \<Longrightarrow> prefix (decoded env n (fst (source i))) (decoded env n (available i))"
  by (drule gives_prefix) (auto simp: prefix_def decoded_append)

lemma seen_available:
  assumes "valid i" "seen_up_to env k j outs (decoded env 0 (fst (source i)))"
  shows "seen_up_to env k j outs (decoded env 0 (available i))"
proof -
  from decoded_prefix [OF assms(1)] obtain more_fs where
    "decoded env 0 (available i) = decoded env 0 (fst (source i)) @ more_fs"
    by (metis prefix_def)
  with assms(2) show ?thesis by (simp add: seen_up_to_def)
qed

lemma outputs_follow:
  assumes "valid i" "chain_seen env outs []"
  shows "\<exists>err k j outs'. run env (fst (source i)) outs = (err, k, outs') \<and>
    seen_up_to env k j outs' (decoded env 0 (available i)) \<and>
    (err = None \<longrightarrow> k = length (fst (source i)) \<and> j = length outs')"
  using run_seen_up_to [OF assms(2), of "fst (source i)"] seen_available [OF assms(1)] by blast

end

locale complete_source = frame_source +
  assumes exhausted_gave_all: "valid i \<Longrightarrow> snd (source i) = Exhausted \<Longrightarrow> fst (source i) = available i"
begin

lemma outputs_follow_to_end:
  assumes "valid i" "chain_seen env outs []"
  shows "\<exists>err k j outs'. run env (fst (source i)) outs = (err, k, outs') \<and>
    seen_up_to env k j outs' (decoded env 0 (available i)) \<and>
    (err = None \<longrightarrow> k = length (fst (source i)) \<and> j = length outs') \<and>
    (err = None \<and> snd (source i) = Exhausted \<longrightarrow> k = length (available i))"
  using outputs_follow [OF assms] exhausted_gave_all [OF assms(1)] by auto

end

text \<open>A source that only an exception or a signal ends is complete in this sense.\<close>

locale endless_source = frame_source +
  assumes never_exhausted: "valid i \<Longrightarrow> snd (source i) \<noteq> Exhausted"

sublocale endless_source \<subseteq> complete_source
  by unfold_locales (simp add: never_exhausted)

section \<open>The two sources\<close>

text \<open>The frames of a file, and those among the items the sockets have delivered.\<close>

definition file_frames :: "(bytes \<Rightarrow> capture \<times> pystr option) \<Rightarrow> os_error + bytes \<Rightarrow> pystr \<Rightarrow> captured_frame list" where
  "file_frames read_library content path =
     (case content of
        Inl _ \<Rightarrow> []
      | Inr data \<Rightarrow> map (\<lambda>(d, ts). (d, ts, Some path)) (fst (read_captures read_library data)))"

fun frames_of :: "capture_item list \<Rightarrow> captured_frame list" where
  "frames_of [] = []"
| "frames_of (Captured data ts interface # is) = (data, ts, interface) # frames_of is"
| "frames_of (Read_error err # is) = frames_of is"

lemma frames_of_append [simp]: "frames_of (xs @ ys) = frames_of xs @ frames_of ys"
  by (induction xs rule: frames_of.induct) auto

lemma frames_of_items [simp]: "frames_of (items_of fs) = fs"
  by (induction fs) (auto simp: items_of_def)

interpretation replay: complete_source "\<lambda>_. True"
  "\<lambda>(content, path, interrupt). replay_source read_library content path interrupt"
  "\<lambda>(content, path, interrupt). file_frames read_library content path" for read_library
  by unfold_locales
    (auto simp: replay_source_def file_frames_def Let_def take_map [symmetric] take_is_prefix
      split: sum.splits prod.splits option.splits if_splits)

interpretation live: endless_source
  "\<lambda>(e, sockets, es, s, sig). capture_run e (capture_start sockets) es s"
  "\<lambda>(e, sockets, es, s, sig). live_source (Inr s) sig"
  "\<lambda>(e, sockets, es, s, sig). frames_of (all_pushed e sockets es)"
proof
  fix i :: "endian \<times> pystr option list \<times> capture_event list \<times> capture_state \<times> signal"
  obtain e sockets es s sig where i: "i = (e, sockets, es, s, sig)" by (cases i)
  assume "case i of (e, sockets, es, s, sig) \<Rightarrow> capture_run e (capture_start sockets) es s"
  with i have "capture_run e (capture_start sockets) es s" by simp
  from capture_inv_prefix [OF capture_run_inv [OF this]] obtain behind where
    "all_pushed e sockets es = items_of (yielded s) @ behind" by blast
  with i show "prefix (fst (case i of (e, sockets, es, s, sig) \<Rightarrow> live_source (Inr s) sig))
      (case i of (e, sockets, es, s, sig) \<Rightarrow> frames_of (all_pushed e sockets es))"
    by (simp add: live_source_def)
next
  fix i :: "endian \<times> pystr option list \<times> capture_event list \<times> capture_state \<times> signal"
  show "snd (case i of (e, sockets, es, s, sig) \<Rightarrow> live_source (Inr s) sig) \<noteq> Exhausted"
    by (cases i) (auto simp: live_source_def split: option.splits capture_end.splits)
qed

end
