(* ===== verification/Process.thy ===== *)
theory Process
  imports Bpf_Messages Cli_Args_Correct Source_Interface
begin

text \<open>
  The process around \<^verbatim>\<open>main\<close> of \<^verbatim>\<open>src/rootwire/cli.py\<close>: what handles SIGTERM at each moment
  (\<^verbatim>\<open>_drive\<close> and the \<^verbatim>\<open>try\<close> statement of \<^verbatim>\<open>main\<close>), the texts of the usage errors and of
  \<^verbatim>\<open>--version\<close>, and the exit status of \<^verbatim>\<open>src/rootwire/__main__.py\<close>.
\<close>

section \<open>Who handles SIGTERM\<close>

text \<open>
  The disposition of the signal: the system's default, ignored, a handler \<open>'h\<close> of the
  caller, the cancellation of the running task, or a handler not installed from Python,
  for which \<^verbatim>\<open>signal.getsignal\<close> answers \<^verbatim>\<open>None\<close>.
\<close>

datatype 'h disposition = Sig_dfl | Sig_ign | Python_handler 'h | Cancel_task | Foreign

fun getsignal :: "'h disposition \<Rightarrow> 'h disposition option" where
  "getsignal Foreign = None"
| "getsignal d = Some d"

text \<open>
  \<^verbatim>\<open>signal.signal\<close> works in the main thread only and takes no \<^verbatim>\<open>None\<close>;
  \<^verbatim>\<open>loop.add_signal_handler\<close> works in the main thread only, and
  \<^verbatim>\<open>loop.remove_signal_handler\<close> leaves the default behind.
\<close>

definition set_signal :: "bool \<Rightarrow> 'h disposition option \<Rightarrow> exn + 'h disposition" where
  "set_signal main_thread handler =
     (if \<not> main_thread
      then Inl (Exn_ValueError (ascii ''signal only works in main thread of the main interpreter''))
      else case handler of None \<Rightarrow> Inl Exn_TypeError | Some d \<Rightarrow> Inr d)"

definition add_signal_handler :: "bool \<Rightarrow> exn + 'h disposition" where
  "add_signal_handler main_thread = (if main_thread then Inr Cancel_task else Inl Exn_RuntimeError)"

definition remove_signal_handler :: "'h disposition" where
  "remove_signal_handler = Sig_dfl"

text \<open>
  \<^verbatim>\<open>_drive\<close>: how the loop ends, the outputs, and the dispositions installed, in order.
  Without its handler the task is cancelled before it takes a frame.
\<close>

definition drive ::
    "'l cli_env \<Rightarrow> bool \<Rightarrow> out_state list \<Rightarrow> captured_frame list \<times> source_end \<Rightarrow>
     source_end \<times> out_state list \<times> 'h disposition list" where
  "drive env main_thread outputs source =
     (case add_signal_handler main_thread of
        Inl err \<Rightarrow> (Source_raised err, outputs, [])
      | Inr during \<Rightarrow>
          (case run env (fst source) outputs of
             (err, number, outputs) \<Rightarrow>
               (case err of Some x \<Rightarrow> Source_raised x | None \<Rightarrow> snd source,
                outputs, [during, remove_signal_handler])))"

text \<open>
  The \<^verbatim>\<open>try\<close> statement of \<^verbatim>\<open>main\<close> with its \<^verbatim>\<open>finally\<close> block: the signal is restored first, and
  an exception of that leaves the outputs open and nothing reported.
\<close>

definition main_try ::
    "'l cli_env \<Rightarrow> bool \<Rightarrow> out_state list \<Rightarrow> captured_frame list \<times> source_end \<Rightarrow> 'h disposition \<Rightarrow>
     main_result \<times> 'h disposition list" where
  "main_try env main_thread outputs source before =
     (let previous_sigterm_handler = getsignal before
      in case drive env main_thread outputs source of
           (ending, outputs, installed) \<Rightarrow>
             (case drive_end ending of
                (status, msgs, report_stats) \<Rightarrow>
                  (case set_signal main_thread previous_sigterm_handler of
                     Inl err \<Rightarrow>
                       (\<lparr>exit_status = Propagated err, messages = msgs, reported = False,
                         final_outputs = outputs\<rparr>, installed)
                   | Inr restored \<Rightarrow>
                       (\<lparr>exit_status = status, messages = msgs, reported = report_stats,
                         final_outputs = map output_close outputs\<rparr>, installed @ [restored]))))"

lemma getsignal_Some: "d \<noteq> Foreign \<Longrightarrow> getsignal d = Some d"
  by (cases d) simp_all

text \<open>With a handler Python knows, \<open>main_try\<close> is \<open>drive_and_close\<close> and restores the handler.\<close>

lemma main_try_restores:
  "before \<noteq> Foreign \<Longrightarrow>
     main_try env True outputs source before =
       (drive_and_close env outputs source, [Cancel_task, Sig_dfl, before])"
  by (auto simp: main_try_def drive_def add_signal_handler_def remove_signal_handler_def set_signal_def
      getsignal_Some drive_and_close_def split: prod.splits)

lemma main_try_foreign:
  "main_try env True outputs source Foreign =
     (\<lparr>exit_status = Propagated Exn_TypeError, messages = messages (drive_and_close env outputs source),
       reported = False, final_outputs = snd (snd (run env (fst source) outputs))\<rparr>, [Cancel_task, Sig_dfl])"
  by (auto simp: main_try_def drive_def add_signal_handler_def remove_signal_handler_def set_signal_def
      drive_and_close_def split: prod.splits)

lemma main_try_thread:
  "main_try env False outputs source before =
     (\<lparr>exit_status = Propagated (Exn_ValueError (ascii ''signal only works in main thread of the main interpreter'')),
       messages = [], reported = False, final_outputs = outputs\<rparr>, [])"
  by (auto simp: main_try_def drive_def add_signal_handler_def set_signal_def)

section \<open>Texts\<close>

definition VERSION :: pystr where "VERSION = ascii ''6.0.0''"

definition version_text :: pystr where "version_text = ascii ''rootwire '' @ VERSION"

text \<open>The messages handed to \<^verbatim>\<open>parser.error\<close>.\<close>

fun usage_message :: "(pychar \<Rightarrow> bool) \<Rightarrow> arguments \<Rightarrow> usage_error \<Rightarrow> pystr" where
  "usage_message p args Read_and_interface = ascii ''-r/--read and -i/--interface are exclusive''"
| "usage_message p args Read_and_filter =
     ascii ''-r/--read and --filter are exclusive: replay has no socket to attach a kernel filter to''"
| "usage_message p args Same_file =
     ascii ''-w/--write and -r/--read refer to the same file; refusing to overwrite the capture being replayed''"
| "usage_message p args (Bad_filter reason) =
     compile_message p (case arg_filter args of None \<Rightarrow> [] | Some expr \<Rightarrow> expr) reason"

lemma usage_message_shown: "printable_ascii_table p \<Longrightarrow> list_all p (usage_message p args u)"
  using compile_message_shown [of p]
  by (cases u) (simp_all add: printable_ascii_table_def ascii_printable_def)

section \<open>The exit status of the process\<close>

text \<open>\<^verbatim>\<open>raise SystemExit(main())\<close>; an exception that leaves \<^verbatim>\<open>main\<close> ends the process with 1.\<close>

definition process_status :: "parse_exit + main_outcome \<Rightarrow> nat" where
  "process_status outcome = (case argv_status outcome of Some n \<Rightarrow> n | None \<Rightarrow> 1)"

text \<open>Runs that end well: help, version, or a capture that ended without an exception.\<close>

fun ended_well :: "parse_exit + main_outcome \<Rightarrow> bool" where
  "ended_well (Inl (Information a)) = True"
| "ended_well (Inr (Ran result)) = reported result"
| "ended_well _ = False"

lemma main_Ran:
  assumes "main env same e addr open_write os_message source args = Ran result"
  shows "(reported result \<longleftrightarrow> exit_status result = Returned 0) \<and> (\<forall>n. exit_status result = Returned n \<longrightarrow> n < 2)"
proof -
  have "\<exists>outs src. exit_status result = exit_status (drive_and_close env outs src) \<and>
      reported result = reported (drive_and_close env outs src)"
    using assms by (auto simp: main_def Let_def split: sum.splits startup_error.splits) (metis prod.collapse)
  then obtain outs src where "exit_status result = exit_status (drive_and_close env outs src)"
    "reported result = reported (drive_and_close env outs src)"
    by blast
  then show ?thesis using drive_report [of env outs src] drive_status_codes [of env outs src] by auto
qed

lemma process_status_main:
  "process_status (Inr (main env same e addr open_write os_message source args)) \<le> 2 \<and>
   (process_status (Inr (main env same e addr open_write os_message source args)) = 0 \<longleftrightarrow>
     ended_well (Inr (main env same e addr open_write os_message source args)))"
  using main_Ran [of env same e addr open_write os_message source args]
  by (cases "main env same e addr open_write os_message source args")
    (auto simp: process_status_def split: exit.split)

lemma process_status_parse: "process_status (Inl err) \<le> 2 \<and> (process_status (Inl err) = 0 \<longleftrightarrow> ended_well (Inl err))"
  by (cases err) (simp_all add: process_status_def)

lemma process_status_argv:
  "process_status (main_argv env same e addr open_write os_message source argv) \<le> 2 \<and>
   (process_status (main_argv env same e addr open_write os_message source argv) = 0 \<longleftrightarrow>
     ended_well (main_argv env same e addr open_write os_message source argv))"
  by (cases "parse_args argv") (simp_all only: main_argv_def then_do.simps process_status_main process_status_parse)

lemma process_status_2: "process_status outcome = 2 \<longleftrightarrow> argv_status outcome = Some 2"
  by (auto simp: process_status_def split: option.split)

end
