(* ===== verification/Json_Reader.thy ===== *)
theory Json_Reader
  imports Ndjson
begin

text \<open>
  The consumer's side of the NDJSON stream of \<^verbatim>\<open>src/rootwire/output.py\<close>: a reader of JSON
  texts (the grammar of RFC 8259 without white space and fractions, which
  \<^verbatim>\<open>json.dumps\<close> with these separators never writes), and that it gives back every value
  the records are made of. The bound \<open>n\<close> of the reader is the length of the text: each call
  has at least one character less to read.
\<close>

section \<open>The reader\<close>

text \<open>The characters up to the closing quote, a backslash keeping the next one inside.\<close>

fun scan_string :: "pystr \<Rightarrow> (pystr \<times> pystr) option" where
  "scan_string [] = None"
| "scan_string [c] = (if c = 34 then Some ([], []) else None)"
| "scan_string (c # d # s) =
     (if c = 34 then Some ([], d # s)
      else if c = 92 then map_option (\<lambda>(b, r). (c # d # b, r)) (scan_string s)
      else map_option (\<lambda>(b, r). (c # b, r)) (scan_string (d # s)))"

definition json_digit :: "pychar \<Rightarrow> bool" where
  "json_digit c \<longleftrightarrow> 48 \<le> c \<and> c \<le> 57"

definition json_natural :: "pystr \<Rightarrow> (nat \<times> pystr) option" where
  "json_natural s =
     (let ds = takeWhile json_digit s
      in if ds = [] then None else Some (digits_value ds, dropWhile json_digit s))"

definition json_number :: "pystr \<Rightarrow> (py_value \<times> pystr) option" where
  "json_number s =
     (case s of
        [] \<Rightarrow> None
      | c # r \<Rightarrow>
          if c = MINUS then map_option (\<lambda>(k, t). (Py_int (- int k), t)) (json_natural r)
          else map_option (\<lambda>(k, t). (Py_int (int k), t)) (json_natural s))"

definition json_literal :: "pystr \<Rightarrow> (py_value \<times> pystr) option" where
  "json_literal s =
     (if take 4 s = ascii ''null'' then Some (Py_None, drop 4 s)
      else if take 4 s = ascii ''true'' then Some (Py_bool True, drop 4 s)
      else if take 5 s = ascii ''false'' then Some (Py_bool False, drop 5 s)
      else json_number s)"

fun json_value :: "nat \<Rightarrow> pystr \<Rightarrow> (py_value \<times> pystr) option"
  and json_elements :: "nat \<Rightarrow> pystr \<Rightarrow> (py_value list \<times> pystr) option"
  and json_members :: "nat \<Rightarrow> pystr \<Rightarrow> ((pystr \<times> py_value) list \<times> pystr) option" where
  "json_value 0 s = None"
| "json_value (Suc n) s =
     (case s of
        [] \<Rightarrow> None
      | c # r \<Rightarrow>
          if c = 34 then map_option (\<lambda>(b, t). (Py_str (json_unescape b), t)) (scan_string r)
          else if c = 91 then
            (if take 1 r = [93] then Some (Py_list [], drop 1 r)
             else map_option (\<lambda>(vs, t). (Py_list vs, t)) (json_elements n r))
          else if c = 123 then
            (if take 1 r = [125] then Some (Py_dict [], drop 1 r)
             else map_option (\<lambda>(is, t). (Py_dict is, t)) (json_members n r))
          else json_literal s)"
| "json_elements 0 s = None"
| "json_elements (Suc n) s =
     (case json_value n s of
        Some (v, c # t) \<Rightarrow>
          if c = 44 then map_option (\<lambda>(vs, u). (v # vs, u)) (json_elements n t)
          else if c = 93 then Some ([v], t) else None
      | _ \<Rightarrow> None)"
| "json_members 0 s = None"
| "json_members (Suc n) s =
     (if take 1 s \<noteq> [34] then None
      else case scan_string (drop 1 s) of
        Some (b, d # r) \<Rightarrow>
          if d \<noteq> 58 then None
          else (case json_value n r of
              Some (v, c # t) \<Rightarrow>
                if c = 44 then map_option (\<lambda>(is, u). ((json_unescape b, v) # is, u)) (json_members n t)
                else if c = 125 then Some ([(json_unescape b, v)], t) else None
            | _ \<Rightarrow> None)
      | _ \<Rightarrow> None)"

text \<open>\<^verbatim>\<open>json.loads\<close> of a whole text.\<close>

definition json_loads :: "pystr \<Rightarrow> py_value option" where
  "json_loads s = (case json_value (length s) s of Some (v, []) \<Rightarrow> Some v | _ \<Rightarrow> None)"

section \<open>Strings\<close>

lemma hex_digits_plain: "\<forall>c \<in> set (hex_digits n). c \<noteq> 34 \<and> c \<noteq> 92"
proof (induction n rule: hex_digits.induct)
  case (1 n)
  then show ?case by (cases "n < 16") (auto simp: hex_digits.simps [of n] hex_digit_def)
qed

lemma scan_plain:
  "\<forall>c \<in> set b. c \<noteq> 34 \<and> c \<noteq> 92 \<Longrightarrow>
     scan_string (b @ s) = map_option (\<lambda>(b', r). (b @ b', r)) (scan_string s)"
proof (induction b)
  case (Cons c b)
  then show ?case
    by (cases "b @ s") (auto simp: option.map_comp o_def split_def intro!: map_option_cong)
qed (simp add: option.map_ident split_def)

lemma scan_escaped:
  "scan_string (92 # e # s) = map_option (\<lambda>(b, r). (92 # e # b, r)) (scan_string s)"
  by simp

lemma scan_json_u: "scan_string (json_u n @ s) = map_option (\<lambda>(b, r). (json_u n @ b, r)) (scan_string s)"
proof -
  have "\<forall>c \<in> set (zero_pad 4 (hex_digits n)). c \<noteq> 34 \<and> c \<noteq> 92"
    using hex_digits_plain by (auto simp: zero_pad_def)
  from scan_plain [OF this, of s] show ?thesis
    by (simp add: json_u_def option.map_comp o_def split_def)
qed

lemma scan_escape: "scan_string (json_escape c @ s) = map_option (\<lambda>(b, r). (json_escape c @ b, r)) (scan_string s)"
proof -
  have "scan_string ([c] @ s) = map_option (\<lambda>(b, r). ([c] @ b, r)) (scan_string s)"
    if "c \<noteq> 34" "c \<noteq> 92" using that by (intro scan_plain) simp
  then show ?thesis
    by (auto simp: json_escape_def scan_json_u option.map_comp o_def split_def)
qed

lemma scan_encoded:
  "scan_string (concat (map json_escape s) @ 34 # r) = Some (concat (map json_escape s), r)"
proof (induction s)
  case Nil
  show ?case by (cases r) simp_all
next
  case (Cons c s)
  then show ?case by (simp add: scan_escape)
qed

lemma unescape_encoded: "list_all scalar_value s \<Longrightarrow> json_unescape (concat (map json_escape s)) = s"
  using json_string_read [of s] by (simp add: json_string_def list_all_iff butlast_append)

section \<open>Numbers and literals\<close>

definition stops :: "pystr \<Rightarrow> bool" where
  "stops s \<longleftrightarrow> (case s of [] \<Rightarrow> True | c # _ \<Rightarrow> \<not> json_digit c)"

lemma stops_simps [simp]: "stops []" "stops (c # s) \<longleftrightarrow> \<not> json_digit c"
  by (simp_all add: stops_def)

lemma json_natural_decimal: "stops s \<Longrightarrow> json_natural (decimal k @ s) = Some (k, s)"
proof -
  assume "stops s"
  moreover have "\<forall>c \<in> set (decimal k). json_digit c" using decimal_digits by (simp add: json_digit_def)
  ultimately have "takeWhile json_digit (decimal k @ s) = decimal k" "dropWhile json_digit (decimal k @ s) = s"
    by (cases s; simp add: takeWhile_append dropWhile_append)+
  then show ?thesis by (simp add: json_natural_def digits_value_decimal)
qed

lemma decimal_head: "\<exists>c r. decimal k = c # r \<and> json_digit c"
  using decimal_digits [of k] decimal_nonempty [of k]
  by (cases "decimal k") (auto simp: json_digit_def simp del: decimal_nonempty)

lemma json_number_int: "stops s \<Longrightarrow> json_number (str_int v @ s) = Some (Py_int v, s)"
  using decimal_head [of "nat v"] json_natural_decimal [of s "nat v"] json_natural_decimal [of s "nat (- v)"]
  by (auto simp: json_number_def str_int_def json_digit_def MINUS_def)

lemma str_int_head: "\<exists>c r. str_int v = c # r \<and> (c = MINUS \<or> json_digit c)"
  using decimal_head [of "nat v"] by (auto simp: str_int_def)

lemma json_literal_int: "stops s \<Longrightarrow> json_literal (str_int v @ s) = Some (Py_int v, s)"
  using json_number_int [of s v] str_int_head [of v]
  by (auto simp: json_literal_def json_digit_def MINUS_def)

section \<open>Every value is read back\<close>

text \<open>The values whose text stands for them: serializable, with strings of Unicode scalars.\<close>

fun readable :: "py_value \<Rightarrow> bool" where
  "readable (Py_bytes bs) \<longleftrightarrow> False"
| "readable Py_object \<longleftrightarrow> False"
| "readable (Py_str s) \<longleftrightarrow> list_all scalar_value s"
| "readable (Py_list vs) \<longleftrightarrow> list_all readable vs"
| "readable (Py_dict items) \<longleftrightarrow> list_all (\<lambda>(k, v). list_all scalar_value k \<and> readable v) items"
| "readable _ \<longleftrightarrow> True"

lemma readable_serializable: "readable v \<Longrightarrow> serializable v"
  by (induction v rule: readable.induct) (auto simp: list_all_iff)

lemma join_Cons: "join sep (s # ss) = (if ss = [] then s else s @ sep @ join sep ss)"
  by (cases ss) simp_all

lemma dumps_list_Nil: "dumps_list vs = Inr [] \<longleftrightarrow> vs = []"
  by (cases vs) (auto simp: then_do_Inr_iff)

lemma dumps_items_Nil: "dumps_items is = Inr [] \<longleftrightarrow> is = []"
  by (cases "is" rule: list.exhaust) (auto simp: then_do_Inr_iff)

text \<open>The first character of a text tells the kinds of value apart.\<close>

lemma dumps_head:
  assumes "json_dumps v = Inr s"
  shows "\<exists>c r. s = c # r \<and> c \<noteq> 93 \<and> c \<noteq> 125"
  using assms str_int_head
  by (cases v) (fastforce simp: json_string_def json_digit_def MINUS_def then_do_Inr_iff split: if_splits)+

lemma dumps_list_head:
  assumes "dumps_list vs = Inr ss" "vs \<noteq> []"
  shows "take 1 (join [44] ss @ t) \<noteq> [93]"
  using assms dumps_head
  by (cases vs) (fastforce simp: then_do_Inr_iff join_Cons split: if_splits)+

lemma dumps_items_head:
  assumes "dumps_items is = Inr ss" "is \<noteq> []"
  shows "take 1 (join [44] ss @ t) = [34]"
  using assms
  by (cases "is" rule: list.exhaust) (auto simp: then_do_Inr_iff join_Cons json_string_def)

lemma json_value_key:
  "list_all scalar_value k \<Longrightarrow>
     scan_string (drop 1 (json_string k @ t)) = Some (concat (map json_escape k), t)"
  by (simp add: json_string_def scan_encoded)

text \<open>
  What the induction shows of a text: with a bound of its length the reader gives the value
  and leaves what follows.
\<close>

definition value_read :: "py_value \<Rightarrow> pystr \<Rightarrow> bool" where
  "value_read v s \<longleftrightarrow> (\<forall>n t. length s \<le> n \<longrightarrow> stops t \<longrightarrow> json_value n (s @ t) = Some (v, t))"

definition elements_read :: "py_value list \<Rightarrow> pystr list \<Rightarrow> bool" where
  "elements_read vs ss \<longleftrightarrow>
     (\<forall>n t. length (join [44] ss) < n \<longrightarrow> json_elements n (join [44] ss @ 93 # t) = Some (vs, t))"

definition members_read :: "(pystr \<times> py_value) list \<Rightarrow> pystr list \<Rightarrow> bool" where
  "members_read is ss \<longleftrightarrow>
     (\<forall>n t. length (join [44] ss) < n \<longrightarrow> json_members n (join [44] ss @ 125 # t) = Some (is, t))"

lemma value_readI:
  "s \<noteq> [] \<Longrightarrow> (\<And>m t. length s \<le> Suc m \<Longrightarrow> stops t \<Longrightarrow> json_value (Suc m) (s @ t) = Some (v, t)) \<Longrightarrow>
     value_read v s"
  unfolding value_read_def by (metis Suc_pred gr_zeroI le_zero_eq length_0_conv)

lemma value_readD:
  "value_read v s \<Longrightarrow> length s \<le> n \<Longrightarrow> stops t \<Longrightarrow> json_value n (s @ t) = Some (v, t)"
  by (simp add: value_read_def)

lemma literals_read:
  "value_read Py_None (ascii ''null'')"
  "value_read (Py_bool b) (if b then ascii ''true'' else ascii ''false'')"
  by (rule value_readI; simp add: json_literal_def)+

lemma int_read: "value_read (Py_int v) (str_int v)"
proof (rule value_readI)
  obtain c r where h: "str_int v = c # r" "c = MINUS \<or> json_digit c" using str_int_head by blast
  then show "str_int v \<noteq> []" by simp
  fix m t
  assume "stops t"
  with h json_literal_int [of t v] show "json_value (Suc m) (str_int v @ t) = Some (Py_int v, t)"
    by (auto simp: json_digit_def MINUS_def)
qed

lemma str_read: "list_all scalar_value b \<Longrightarrow> value_read (Py_str b) (json_string b)"
  by (rule value_readI) (simp_all add: json_string_def scan_encoded unescape_encoded)

lemma list_read:
  assumes "dumps_list vs = Inr ss" and "vs \<noteq> [] \<Longrightarrow> elements_read vs ss"
  shows "value_read (Py_list vs) ([91] @ join [44] ss @ [93])"
proof (rule value_readI)
  fix m t
  assume len: "length ([91] @ join [44] ss @ [93]) \<le> Suc m"
  show "json_value (Suc m) (([91] @ join [44] ss @ [93]) @ t) = Some (Py_list vs, t)"
  proof (cases "vs = []")
    case True
    with assms(1) show ?thesis by simp
  next
    case False
    with assms(2) len have "json_elements m (join [44] ss @ 93 # t) = Some (vs, t)"
      by (simp add: elements_read_def)
    with dumps_list_head [OF assms(1) False, of "93 # t"] show ?thesis by simp
  qed
qed simp

lemma dict_read:
  assumes "dumps_items is = Inr ss" and "is \<noteq> [] \<Longrightarrow> members_read is ss"
  shows "value_read (Py_dict is) ([123] @ join [44] ss @ [125])"
proof (rule value_readI)
  fix m t
  assume len: "length ([123] @ join [44] ss @ [125]) \<le> Suc m"
  show "json_value (Suc m) (([123] @ join [44] ss @ [125]) @ t) = Some (Py_dict is, t)"
  proof (cases "is = []")
    case True
    with assms(1) show ?thesis by simp
  next
    case False
    with assms(2) len have "json_members m (join [44] ss @ 125 # t) = Some (is, t)"
      by (simp add: members_read_def)
    with dumps_items_head [OF assms(1) False, of "125 # t"] show ?thesis by simp
  qed
qed simp

lemma elements_Cons:
  assumes "value_read v s" and "dumps_list vs = Inr ss" and "vs \<noteq> [] \<Longrightarrow> elements_read vs ss"
  shows "elements_read (v # vs) (s # ss)"
  unfolding elements_read_def
proof (intro allI impI)
  fix n t
  assume len: "length (join [44] (s # ss)) < n"
  then obtain m where m: "n = Suc m" "length (join [44] (s # ss)) \<le> m" by (cases n) auto
  show "json_elements n (join [44] (s # ss) @ 93 # t) = Some (v # vs, t)"
  proof (cases "vs = []")
    case True
    with assms(2) have "ss = []" by simp
    with m True value_readD [OF assms(1), of m "93 # t"] show ?thesis by (simp add: json_digit_def)
  next
    case False
    then have ne: "ss \<noteq> []" using assms(2) dumps_list_Nil by auto
    with m(2) have "length s \<le> m" "length (join [44] ss) < m" by (simp_all add: join_Cons)
    with assms(3) [OF False] value_readD [OF assms(1), of m "44 # join [44] ss @ 93 # t"] ne m(1)
    show ?thesis by (simp add: elements_read_def join_Cons json_digit_def)
  qed
qed

lemma members_Cons:
  assumes k: "list_all scalar_value k" and v: "value_read v s"
    and "dumps_items is = Inr ss" and "is \<noteq> [] \<Longrightarrow> members_read is ss"
  shows "members_read ((k, v) # is) ((json_string k @ [58] @ s) # ss)"
  unfolding members_read_def
proof (intro allI impI)
  let ?s = "json_string k @ [58] @ s"
  fix n t
  assume len: "length (join [44] (?s # ss)) < n"
  then obtain m where m: "n = Suc m" "length (join [44] (?s # ss)) \<le> m" by (cases n) auto
  have first: "take 1 (json_string k @ u) = [34]" for u by (simp add: json_string_def)
  show "json_members n (join [44] (?s # ss) @ 125 # t) = Some ((k, v) # is, t)"
  proof (cases "is = []")
    case True
    with assms(3) have "ss = []" by simp
    with m True value_readD [OF v, of m "125 # t"] first json_value_key [OF k] unescape_encoded [OF k]
    show ?thesis by (simp add: json_digit_def)
  next
    case False
    then have ne: "ss \<noteq> []" using assms(3) dumps_items_Nil by auto
    with m(2) have "length s \<le> m" "length (join [44] ss) < m" by (simp_all add: join_Cons)
    with assms(4) [OF False] value_readD [OF v, of m "44 # join [44] ss @ 125 # t"] ne m(1)
      first json_value_key [OF k] unescape_encoded [OF k]
    show ?thesis by (simp add: members_read_def join_Cons json_digit_def)
  qed
qed

lemma dumps_read:
  "json_dumps v = Inr s \<Longrightarrow> readable v \<Longrightarrow> value_read v s"
  "dumps_list vs = Inr ss \<Longrightarrow> list_all readable vs \<Longrightarrow> vs \<noteq> [] \<Longrightarrow> elements_read vs ss"
  "dumps_items is = Inr ss \<Longrightarrow> list_all (\<lambda>(k, v). list_all scalar_value k \<and> readable v) is \<Longrightarrow>
     is \<noteq> [] \<Longrightarrow> members_read is ss"
proof (induction v and vs and "is" arbitrary: s and ss and ss
    rule: json_dumps_dumps_list_dumps_items.induct)
  case (6 vs)
  then show ?case using list_read by (auto simp: then_do_Inr_iff)
next
  case (7 items)
  then show ?case using dict_read by (auto simp: then_do_Inr_iff)
next
  case (10 v vs)
  then show ?case using elements_Cons by (auto simp: then_do_Inr_iff)
next
  case (12 k v items)
  then show ?case using members_Cons by (auto simp: then_do_Inr_iff)
qed (use literals_read int_read str_read in auto)

theorem loads_dumps:
  assumes "json_dumps v = Inr s" and "readable v"
  shows "json_loads s = Some v"
  using value_readD [OF dumps_read(1) [OF assms] order_refl, of "[]"] by (simp add: json_loads_def)

text \<open>The lines of a stream, read by the consumer.\<close>

lemma loads_each:
  "map Inr ls = map (\<lambda>f. json_dumps (g f)) fs \<Longrightarrow>
     list_all2 (\<lambda>l f. readable (g f) \<longrightarrow> json_loads l = Some (g f)) ls fs"
  by (auto simp: list_eq_iff_nth_eq list_all2_conv_all_nth intro: loads_dumps dest: sym)

lemma loads_lines:
  assumes "map Inr ls = map (\<lambda>f. json_dumps (g f)) fs" and "\<forall>f \<in> set fs. readable (g f)"
  shows "map json_loads ls = map (\<lambda>f. Some (g f)) fs"
  using loads_each [OF assms(1)] assms(2) by (simp add: list_all2_conv_all_nth list_eq_iff_nth_eq)

end
