(* ===== verification/Live.thy ===== *)
theory Live
  imports Source_Interface Json_Reader
begin

text \<open>
  A live capture as it runs: \<^verbatim>\<open>run\<close> of \<^verbatim>\<open>src/rootwire/cli.py\<close> takes a frame from the generator
  of \<^verbatim>\<open>capture_async\<close>, decodes it and hands it to the outputs before it asks for the next,
  while sockets go on filling the queue. The model of \<^verbatim>\<open>main\<close> works on the list of frames
  the generator yields in the end; here the two are proved to agree in every interleaving.
\<close>

section \<open>The machine\<close>

record live_state =
  live_capture :: capture_state
  live_number :: nat
  live_outputs :: "out_state list"
  live_failed :: "exn option"

definition live_start :: "pystr option list \<Rightarrow> out_state list \<Rightarrow> live_state" where
  "live_start sockets outputs =
     \<lparr>live_capture = capture_start sockets, live_number = 0, live_outputs = outputs, live_failed = None\<rparr>"

text \<open>The body of the \<^verbatim>\<open>async for\<close>; an exception closes the generator, and with it the sockets.\<close>

definition live_frame :: "'l cli_env \<Rightarrow> captured_frame \<Rightarrow> live_state \<Rightarrow> live_state" where
  "live_frame env item l =
     (case item of (data, timestamp, interface) \<Rightarrow>
        let number = live_number l + 1;
            frame = decode_frame (env_np env) data number timestamp interface
        in case dispatch env frame (live_outputs l) of
             (None, outputs) \<Rightarrow> l\<lparr>live_number := number, live_outputs := outputs\<rparr>
           | (Some err, outputs) \<Rightarrow>
               l\<lparr>live_capture := stop_with Cancelled (live_capture l), live_number := number,
                 live_outputs := outputs, live_failed := Some err\<rparr>)"

text \<open>One event: the capture machine moves, and a frame it yields is processed at once.\<close>

definition live_step :: "'l cli_env \<Rightarrow> endian \<Rightarrow> capture_event \<Rightarrow> live_state \<Rightarrow> live_state option" where
  "live_step env e event l =
     (case capture_step e event (live_capture l) of
        None \<Rightarrow> None
      | Some s \<Rightarrow>
          (case drop (length (yielded (live_capture l))) (yielded s) of
             [] \<Rightarrow> Some (l\<lparr>live_capture := s\<rparr>)
           | item # _ \<Rightarrow> Some (live_frame env item (l\<lparr>live_capture := s\<rparr>))))"

inductive live_run :: "'l cli_env \<Rightarrow> endian \<Rightarrow> live_state \<Rightarrow> capture_event list \<Rightarrow> live_state \<Rightarrow> bool"
  for env e where
  live_none: "live_run env e l [] l"
| live_event: "live_run env e l es l' \<Longrightarrow> live_step env e ev l' = Some l'' \<Longrightarrow>
    live_run env e l (es @ [ev]) l''"

inductive_simps live_run_Nil: "live_run env e l [] l'"
  and live_run_snoc: "live_run env e l (es @ [ev]) l''"

code_pred live_run .

interpretation live_loop: event_machine "live_step env e" "live_run env e" for env e
  by unfold_locales (simp add: live_run_Nil eq_commute, simp add: live_run_snoc)

section \<open>One step\<close>

text \<open>A step of the capture machine yields one frame or none.\<close>

lemma capture_step_yields:
  assumes "capture_step e ev s = Some s'"
  shows "yielded s' = yielded s \<or> (\<exists>f. yielded s' = yielded s @ [f] \<and> ended s' = None)"
  using assms
  by (cases ev)
    (auto simp: capture_step_def get_item_def stop_with_def Let_def
      split: if_splits sum.splits list.splits capture_item.splits)

lemma live_step_cases:
  assumes "live_step env e ev l = Some l'"
  obtains (quiet) s where "capture_step e ev (live_capture l) = Some s"
      "yielded s = yielded (live_capture l)" "l' = l\<lparr>live_capture := s\<rparr>"
    | (frame) s f where "capture_step e ev (live_capture l) = Some s"
      "yielded s = yielded (live_capture l) @ [f]" "ended s = None"
      "l' = live_frame env f (l\<lparr>live_capture := s\<rparr>)"
proof -
  from assms obtain s where s: "capture_step e ev (live_capture l) = Some s"
    by (auto simp: live_step_def split: option.splits)
  from capture_step_yields [OF s] that assms s show thesis
    by (auto simp: live_step_def)
qed

section \<open>The sequential loop on what was yielded\<close>

lemma run_from_snoc:
  "run_from env n fs outs = (None, m, outs') \<Longrightarrow>
     run_from env n (fs @ [(data, ts, interface)]) outs =
       (case dispatch env (decode_frame (env_np env) data (m + 1) ts interface) outs' of
          (err, outs'') \<Rightarrow> (err, m + 1, outs''))"
proof (induction env n fs outs rule: run_from.induct)
  case (1 env n outs)
  then show ?case by (simp add: Let_def split: option.split prod.split)
next
  case (2 env n d t i fs outs)
  then show ?case by (auto simp: Let_def split: option.splits prod.splits)
qed

text \<open>
  The invariant of the composed machine: the outputs are those of the loop run on the
  frames yielded so far; a failed loop has closed the generator.
\<close>

definition live_inv :: "'l cli_env \<Rightarrow> out_state list \<Rightarrow> live_state \<Rightarrow> bool" where
  "live_inv env outputs l \<longleftrightarrow>
     run env (yielded (live_capture l)) outputs = (live_failed l, live_number l, live_outputs l) \<and>
     (live_failed l \<noteq> None \<longrightarrow> ended (live_capture l) = Some Cancelled)"

lemma live_inv_start: "live_inv env outputs (live_start sockets outputs)"
  by (simp add: live_inv_def live_start_def capture_start_def run_def)

lemma live_inv_frame:
  assumes "live_inv env outputs l" and "live_failed l = None"
    and "yielded s = yielded (live_capture l) @ [f]"
  shows "live_inv env outputs (live_frame env f (l\<lparr>live_capture := s\<rparr>))"
proof -
  obtain data ts interface where f: "f = (data, ts, interface)" by (cases f)
  have "run_from env 0 (yielded (live_capture l)) outputs = (None, live_number l, live_outputs l)"
    using assms(1,2) by (simp add: live_inv_def run_def)
  from run_from_snoc [OF this, of data ts interface] assms(2,3) f show ?thesis
    by (auto simp: live_inv_def run_def live_frame_def stop_with_def Let_def
        split: option.splits prod.splits)
qed

lemma live_inv_step:
  assumes "live_inv env outputs l" and "live_step env e ev l = Some l'"
  shows "live_inv env outputs l'"
proof -
  from assms(2) have "ended (live_capture l) = None"
    by (auto simp: live_step_def dest: capture_run_ended split: option.splits)
  with assms(1) have ok: "live_failed l = None" by (auto simp: live_inv_def)
  from assms(2) show ?thesis
  proof (cases rule: live_step_cases)
    case (quiet s)
    with assms(1) ok show ?thesis by (simp add: live_inv_def)
  next
    case (frame s f)
    from live_inv_frame [OF assms(1) ok frame(2)] frame(4) show ?thesis by simp
  qed
qed

lemma live_run_inv: "live_run env e (live_start sockets outputs) es l \<Longrightarrow> live_inv env outputs l"
  by (erule live_loop.reaches_invariant) (simp_all add: live_inv_start live_inv_step)

section \<open>The capture machine inside\<close>

text \<open>
  The capture machine makes the same events; where an output refused a frame, the loop's
  end is one cancellation more.
\<close>

lemma live_frame_capture:
  assumes "ended s = None" and "live_failed l = None"
    and "l' = live_frame env f (l\<lparr>live_capture := s\<rparr>)"
  shows "live_failed l' = None \<and> live_capture l' = s \<or>
     live_failed l' \<noteq> None \<and> capture_step e Cancel s = Some (live_capture l')"
  using assms
  by (auto simp: live_frame_def capture_step_def Let_def split: prod.splits option.splits)

lemma live_run_captures:
  assumes "live_run env e (live_start sockets outputs) es l"
  shows "capture_run e (capture_start sockets) (if live_failed l = None then es else es @ [Cancel]) (live_capture l)"
  using assms
proof (rule live_loop.reaches_invariant)
  show "capture_run e (capture_start sockets)
      (if live_failed (live_start sockets outputs) = None then [] else [] @ [Cancel]) (live_capture (live_start sockets outputs))"
    by (simp add: live_start_def run_none)
next
  fix es l1 ev l2
  assume run: "live_run env e (live_start sockets outputs) es l1" and step: "live_step env e ev l1 = Some l2"
    and before: "capture_run e (capture_start sockets) (if live_failed l1 = None then es else es @ [Cancel]) (live_capture l1)"
  from step have "ended (live_capture l1) = None"
    by (auto simp: live_step_def dest: capture_run_ended split: option.splits)
  with live_run_inv [OF run] have ok: "live_failed l1 = None" by (auto simp: live_inv_def)
  with before have cap: "capture_run e (capture_start sockets) es (live_capture l1)" by simp
  from step show "capture_run e (capture_start sockets)
      (if live_failed l2 = None then es @ [ev] else (es @ [ev]) @ [Cancel]) (live_capture l2)"
  proof (cases rule: live_step_cases)
    case (quiet s)
    with run_event [OF cap quiet(1)] ok show ?thesis by simp
  next
    case (frame s f)
    from run_event [OF cap frame(1)] have r: "capture_run e (capture_start sockets) (es @ [ev]) s" .
    from live_frame_capture [OF frame(3) ok frame(4), of e] run_event [OF r] r show ?thesis
      by auto
  qed
qed

text \<open>How \<^verbatim>\<open>main\<close> ends, told from the state the machine stopped in.\<close>

definition live_end :: "signal \<Rightarrow> live_state \<Rightarrow> source_end" where
  "live_end sig l =
     (case live_failed l of
        Some err \<Rightarrow> Source_raised err
      | None \<Rightarrow> snd (live_source (Inr (live_capture l)) sig))"

theorem live_refines:
  assumes "live_run env e (live_start sockets outputs) es l"
  shows "run env (yielded (live_capture l)) outputs = (live_failed l, live_number l, live_outputs l)"
    "drive_and_close env outputs (live_source (Inr (live_capture l)) sig) =
      (case drive_end (live_end sig l) of
         (status, msgs, report_stats) \<Rightarrow>
           \<lparr>exit_status = status, messages = msgs, reported = report_stats,
            final_outputs = map output_close (live_outputs l)\<rparr>)"
proof -
  from live_run_inv [OF assms] show run: "run env (yielded (live_capture l)) outputs =
      (live_failed l, live_number l, live_outputs l)"
    by (simp add: live_inv_def)
  then show "drive_and_close env outputs (live_source (Inr (live_capture l)) sig) =
      (case drive_end (live_end sig l) of
         (status, msgs, report_stats) \<Rightarrow>
           \<lparr>exit_status = status, messages = msgs, reported = report_stats,
            final_outputs = map output_close (live_outputs l)\<rparr>)"
    by (simp add: drive_and_close_def live_source_def live_end_def split: option.split)
qed

section \<open>What the consumer of a live NDJSON stream reads\<close>

theorem live_ndjson:
  assumes built: "build_outputs open_write args = Inr (Inr outputs)" and json: "arg_json args"
    and run: "live_run env e (live_start sockets outputs) es l" and ok: "live_failed l = None"
  shows "\<exists>stream others. live_outputs l = NDJSON_output stream # others \<and>
    ndjson_has_seen (env_np env) (env_asdict env) stream (decoded env 0 (yielded (live_capture l)))"
proof -
  have r: "run env (yielded (live_capture l)) outputs = (None, live_number l, live_outputs l)"
    using live_refines(1) [OF run] ok by simp
  from run_kinds [OF r] built_kinds [OF built] json obtain stream others where
    out: "live_outputs l = NDJSON_output stream # others"
    by (auto simp: map_eq_Cons_conv)
  have "chain_seen env (live_outputs l) (decoded env 0 (yielded (live_capture l)))"
    using run_seen_up_to [OF build_outputs_seen [OF built], of env "yielded (live_capture l)"] r
    by (auto simp: seen_up_to_all)
  with out show ?thesis by simp
qed

end
