(* ===== verification/Archive.thy ===== *)
theory Archive
  imports Live Source_Interface
begin

text \<open>
  From the sockets through the archive of \<^verbatim>\<open>-w\<close> back to a replay with \<^verbatim>\<open>-r\<close>
  (\<^verbatim>\<open>src/rootwire/cli.py\<close>, \<^verbatim>\<open>src/rootwire/pcap.py\<close>): whenever and however a live capture stops,
  the file it leaves replays as the frames it took.
\<close>

section \<open>The archive\<close>

text \<open>What the archive output has seen, however far the loop came.\<close>

lemma archive_seen:
  assumes "build_outputs open_write args = Inr (Inr outs)" "arg_write args = Some target"
    and "run env frames outs = (err, k, outs')"
  shows "\<exists>w m. 1 < length outs' \<and> outs' ! 1 = Pcap_output w \<and> pcap_has_seen w (decoded env 0 (take m frames)) \<and>
    m \<le> length frames \<and> (m = k \<or> err \<noteq> None \<and> m = k - 1)"
proof -
  have "map kind_of outs' ! 1 = Pcap_kind" "length outs' = 3"
    using run_kinds [OF assms(3)] built_kinds [OF assms(1)] assms(2)
    by (simp_all flip: length_map [of kind_of outs'])
  then obtain w where w: "outs' ! 1 = Pcap_output w" by auto
  obtain j where j: "seen_up_to env k j outs' (decoded env 0 frames)" "err = None \<longrightarrow> j = length outs'"
    using run_seen_up_to [OF build_outputs_seen [OF assms(1)], of env frames] assms(3) by auto
  let ?m = "if 1 < j then k else k - 1"
  have "pcap_has_seen w (take ?m (decoded env 0 frames))"
    using seen_up_to_nth [OF j(1), of 1] \<open>length outs' = 3\<close> w by simp
  moreover have "k \<le> length frames" using j(1) by (simp add: seen_up_to_def)
  moreover have "1 < j \<or> err \<noteq> None" using j(2) \<open>length outs' = 3\<close> by auto
  ultimately show ?thesis
    using w \<open>length outs' = 3\<close> by (intro exI [of _ w] exI [of _ ?m]) (auto simp: decoded_take)
qed

text \<open>Closed, it replays as these frames, tagged with its path.\<close>

lemma archive_replayed:
  assumes "pcap_has_seen w (decoded env 0 frames)"
    and "\<And>rs content. written rs = Inr content \<Longrightarrow> read_library content = (rs, None)"
  shows "replay_source read_library (Inr (pcap_file (OutputToPcap_close w))) path None = (map (retag path) frames, Exhausted)"
proof -
  let ?rs = "map captured (decoded env 0 frames)"
  have content: "written ?rs = Inr (pcap_file (OutputToPcap_close w))"
    using assms(1) by (simp add: pcap_has_seen_def OutputToPcap_close_def pcap_close_def)
  have "map (\<lambda>(data, timestamp). (data, timestamp, Some path)) ?rs = map (retag path) frames"
    by (simp add: captured_decoded retag_def split_def)
  with replay_written [where path = path and read_library = read_library, OF content assms(2) [OF content]]
  show ?thesis by simp
qed

end
