(* ===== verification/Frame_Batch.thy ===== *)
theory Frame_Batch
  imports Py_Struct
begin

text \<open>
  The frame batches of \<^verbatim>\<open>benchmarks/generate_frames.py\<close> and \<^verbatim>\<open>benchmarks/_common.py\<close>: frames
  behind a 16-bit length each, written by the one and read by the other, and the calls of
  the decoder a benchmark makes. The frames generated, the clock and the memory figures are
  left out.
\<close>

section \<open>Writing and reading\<close>

text \<open>The loop of \<^verbatim>\<open>generate_frames.main\<close>: what the file holds, or the \<^verbatim>\<open>struct.error\<close> of a long frame.\<close>

fun write_batch :: "bytes list \<Rightarrow> struct_error + bytes" where
  "write_batch [] = Inr []"
| "write_batch (frame # frames) =
     then_do (pack Big [F_H] [int (length frame)]) (\<lambda>len.
       then_do (write_batch frames) (\<lambda>bs. Inr (len @ frame @ bs)))"

text \<open>\<^verbatim>\<open>load_frames\<close>, from \<open>cursor\<close> on. A slice past the end is shorter, not an error.\<close>

function load_from :: "bytes \<Rightarrow> nat \<Rightarrow> struct_error + bytes list" where
  "load_from data cursor =
     (if cursor < length data
      then then_do (unpack_from Big [F_H] data cursor) (\<lambda>fields.
        let len = nat (hd fields);
            cursor = cursor + 2
        in then_do (load_from data (cursor + len)) (\<lambda>frames.
             Inr (py_slice data cursor (cursor + len) # frames)))
      else Inr [])"
  by pat_completeness auto
termination
  by (relation "measure (\<lambda>(data, cursor). length data - cursor)") auto

declare load_from.simps [simp del]

definition load_frames :: "bytes \<Rightarrow> struct_error + bytes list" where
  "load_frames data = load_from data 0"

definition passes :: nat where "passes = 30"

text \<open>The arguments of \<^verbatim>\<open>decode_one\<close> in \<^verbatim>\<open>run\<close>: the frames, numbered from 1 through all passes.\<close>

definition benchmark_calls :: "bytes list \<Rightarrow> (bytes \<times> nat) list" where
  "benchmark_calls frames =
     (let replayed = concat (replicate passes frames) in zip replayed [1 ..< length replayed + 1])"

section \<open>What is written is read back\<close>

lemma write_batch_Inr: "(\<exists>bs. write_batch frames = Inr bs) \<longleftrightarrow> list_all (\<lambda>f. length f < 65536) frames"
  by (induction frames) (auto simp: then_do_Inr_iff)

lemma load_one:
  assumes "length frame < 65536"
  shows "load_from (before @ pack1 Big F_H (int (length frame)) @ frame @ bs) (length before) =
    then_do (load_from (before @ pack1 Big F_H (int (length frame)) @ frame @ bs) (length before + 2 + length frame))
      (\<lambda>frames. Inr (frame # frames))"
proof -
  have "unpack1 Big F_H (pack1 Big F_H (int (length frame)) @ frame @ bs) = int (length frame)"
    by (rule unpack1_pack1) (use assms in simp)
  then show ?thesis
    by (subst load_from.simps) (simp add: unpack_from_def py_slice_def Let_def)
qed

lemma load_written:
  "write_batch frames = Inr bs \<Longrightarrow> load_from (before @ bs) (length before) = Inr frames"
proof (induction frames arbitrary: before bs)
  case Nil
  then show ?case by (simp add: load_from.simps)
next
  case (Cons frame frames)
  then obtain rest_bs where short: "length frame < 65536" and w: "write_batch frames = Inr rest_bs"
    and bs: "bs = pack1 Big F_H (int (length frame)) @ frame @ rest_bs"
    by (auto simp: then_do_Inr_iff split: if_splits)
  from Cons.IH [OF w, of "before @ pack1 Big F_H (int (length frame)) @ frame"] load_one [OF short, of before rest_bs] bs
  show ?case by (simp add: add.assoc)
qed

theorem batch_roundtrip: "write_batch frames = Inr bs \<Longrightarrow> load_frames bs = Inr frames"
  using load_written [of frames bs "[]"] by (simp add: load_frames_def)

lemma benchmark_calls_numbered:
  "k < passes * length frames \<Longrightarrow>
     benchmark_calls frames ! k = (concat (replicate passes frames) ! k, k + 1)"
  by (simp add: benchmark_calls_def Let_def length_concat sum_list_replicate del: upt_Suc)

end
