(* ===== verification/Utf8.thy ===== *)
theory Utf8
  imports Screen Ndjson
begin

text \<open>
  \<^verbatim>\<open>payload.decode("utf-8", "ignore")\<close> of \<^verbatim>\<open>OutputToScreen.update\<close> against the encoding it
  undoes: well-formed UTF-8 is decoded to its text, whatever bytes follow, and only
  Unicode scalar values come out of any bytes.
\<close>

section \<open>The encoding\<close>

definition utf8_units :: "pychar \<Rightarrow> nat list" where
  "utf8_units c =
     (if c < 0x80 then [c]
      else if c < 0x800 then [0xC0 + c div 64, 0x80 + c mod 64]
      else if c < 0x10000 then [0xE0 + c div 4096, 0x80 + c div 64 mod 64, 0x80 + c mod 64]
      else [0xF0 + c div 262144, 0x80 + c div 4096 mod 64, 0x80 + c div 64 mod 64, 0x80 + c mod 64])"

definition utf8_encode :: "pystr \<Rightarrow> bytes" where
  "utf8_encode s = concat (map (\<lambda>c. map of_nat (utf8_units c)) s)"

lemma continuation_unit [simp]: "continuation (0x80 + c mod 64)"
  by (simp add: continuation_def)

lemma utf8_units_byte:
  assumes "c < 0x110000" "u \<in> set (utf8_units c)"
  shows "u < 256"
proof -
  have "c div 64 < 32" if "c < 0x800" using that by (simp add: less_mult_imp_div_less)
  moreover have "c div 4096 < 16" if "c < 0x10000" using that by (simp add: less_mult_imp_div_less)
  moreover have "c div 262144 < 5" using assms(1) by (simp add: less_mult_imp_div_less)
  ultimately show ?thesis
    using assms(2) mod_less_divisor [of 64 c] mod_less_divisor [of 64 "c div 64"]
      mod_less_divisor [of 64 "c div 4096"]
    by (auto simp: utf8_units_def split: if_splits)
qed

lemma unat_units: "c < 0x110000 \<Longrightarrow> map (unat \<circ> (of_nat :: nat \<Rightarrow> byte)) (utf8_units c) = utf8_units c"
  by (intro map_idI) (simp add: unat_of_nat utf8_units_byte)

section \<open>Decoding\<close>

text \<open>A character by its digits in base 64, as the encoding writes them.\<close>

definition base_64 :: "nat \<Rightarrow> nat \<Rightarrow> nat \<Rightarrow> nat \<Rightarrow> nat" where
  "base_64 p q r s = ((p * 64 + q) * 64 + r) * 64 + s"

lemma div_digit: "(b :: nat) < 64 \<Longrightarrow> (a * 64 + b) div 64 = a"
  and mod_digit: "(b :: nat) < 64 \<Longrightarrow> (a * 64 + b) mod 64 = b"
  by simp_all

lemma base_64_parts:
  assumes "q < 64" "r < 64" "s < 64"
  shows "base_64 p q r s mod 64 = s" "base_64 p q r s div 64 mod 64 = r"
    "base_64 p q r s div 4096 mod 64 = q" "base_64 p q r s div 262144 = p"
    "base_64 p q r s div 64 = (p * 64 + q) * 64 + r" "base_64 p q r s div 4096 = p * 64 + q"
proof -
  show d1: "base_64 p q r s div 64 = (p * 64 + q) * 64 + r"
    unfolding base_64_def by (rule div_digit [OF assms(3)])
  have "base_64 p q r s div 4096 = base_64 p q r s div 64 div 64" by (simp add: div_mult2_eq [symmetric])
  with d1 show d2: "base_64 p q r s div 4096 = p * 64 + q" by (simp only: div_digit [OF assms(2)])
  have "base_64 p q r s div 262144 = base_64 p q r s div 4096 div 64" by (simp add: div_mult2_eq [symmetric])
  with d2 show "base_64 p q r s div 262144 = p" by (simp only: div_digit [OF assms(1)])
  show "base_64 p q r s mod 64 = s" unfolding base_64_def by (rule mod_digit [OF assms(3)])
  show "base_64 p q r s div 64 mod 64 = r" unfolding d1 by (rule mod_digit [OF assms(2)])
  show "base_64 p q r s div 4096 mod 64 = q" unfolding d2 by (rule mod_digit [OF assms(1)])
qed

lemma base_64_cases:
  obtains p q r s where "c = base_64 p q r s" "q < 64" "r < 64" "s < 64"
proof (rule that [of "c div 64 div 64 div 64" "c div 64 div 64 mod 64" "c div 64 mod 64" "c mod 64"])
  show "c = base_64 (c div 64 div 64 div 64) (c div 64 div 64 mod 64) (c div 64 mod 64) (c mod 64)"
    unfolding base_64_def by (simp only: div_mult_mod_eq)
qed simp_all

lemma utf8_units_digits:
  assumes "q < 64" "r < 64" "s < 64"
  shows "utf8_units (base_64 p q r s) =
    (if base_64 p q r s < 0x80 then [r * 64 + s]
     else if base_64 p q r s < 0x800 then [0xC0 + r, 0x80 + s]
     else if base_64 p q r s < 0x10000 then [0xE0 + q, 0x80 + r, 0x80 + s]
     else [0xF0 + p, 0x80 + q, 0x80 + r, 0x80 + s])"
  unfolding utf8_units_def base_64_parts(1-4) [OF assms]
  using assms by (auto simp: base_64_parts(5,6)) (simp_all add: base_64_def)

lemma utf8_take_units:
  assumes "scalar_value c"
  shows "utf8_take (utf8_units c @ bs) = Some (c, length (utf8_units c))"
proof -
  obtain p q r s where c: "c = base_64 p q r s" and d: "q < 64" "r < 64" "s < 64"
    by (rule base_64_cases)
  have v: "c = p * 262144 + q * 4096 + r * 64 + s" by (simp add: c base_64_def)
  note sc = assms [unfolded scalar_value_def high_surrogate_def low_surrogate_def]
  consider "c < 0x80" | "0x80 \<le> c" "c < 0x800" | "0x800 \<le> c" "c < 0x10000" | "0x10000 \<le> c" by linarith
  then show ?thesis
  proof cases
    case 1
    then show ?thesis by (simp add: utf8_units_def)
  next
    case 2
    then have pq: "p = 0" "q = 0" using v d by linarith+
    with 2 v d have "2 \<le> r" "r < 32" by linarith+
    with 2 d pq show ?thesis
      by (simp add: c utf8_units_digits) (simp add: base_64_def continuation_def)
  next
    case 3
    then have p: "p = 0" using v d by linarith
    with 3 v d have "q < 16" by linarith
    moreover have "q = 0 \<longrightarrow> 32 \<le> r" "q = 13 \<longrightarrow> r < 32" using 3 v d p sc by auto
    ultimately show ?thesis
      using 3 d p by (simp add: c utf8_units_digits) (simp add: base_64_def continuation_def)
  next
    case 4
    then have "p < 5" "p = 0 \<longrightarrow> 16 \<le> q" "p = 4 \<longrightarrow> q < 16" using v d sc by auto
    with 4 d show ?thesis
      by (simp add: c utf8_units_digits) (simp add: base_64_def continuation_def)
  qed
qed

lemma utf8_units_Cons: "\<exists>u us. utf8_units c = u # us"
  by (simp add: utf8_units_def)

lemma utf8_ignore_units:
  assumes "scalar_value c"
  shows "utf8_ignore (utf8_units c @ bs) = c # utf8_ignore bs"
proof -
  obtain u us where us: "utf8_units c = u # us" using utf8_units_Cons by blast
  with utf8_take_units [OF assms, of bs] show ?thesis by simp
qed

text \<open>Well-formed text is kept, and what follows it is decoded on its own.\<close>

theorem decode_encode:
  "list_all scalar_value s \<Longrightarrow> decode_ignore (utf8_encode s @ bs) = s @ decode_ignore bs"
proof (induction s)
  case Nil
  show ?case by (simp add: utf8_encode_def)
next
  case (Cons c s)
  then have "c < 0x110000" by (simp add: scalar_value_def)
  with Cons show ?case
    by (simp add: utf8_encode_def decode_ignore_def utf8_ignore_units unat_units)
qed

section \<open>Only scalar values come out\<close>

lemma utf8_take_scalar:
  assumes "utf8_take bs = Some (c, n)"
  shows "scalar_value c"
proof -
  have two: "scalar_value ((a - 0xC0) * 64 + (b - 0x80))"
    if "0xC2 \<le> a" "a < 0xE0" "continuation b" for a b
    using that by (auto simp: scalar_value_def high_surrogate_def low_surrogate_def continuation_def)
  have three: "scalar_value ((a - 0xE0) * 4096 + (b - 0x80) * 64 + (d - 0x80))"
    if "0xE0 \<le> a" "a < 0xF0" "continuation b" "continuation d" "a = 0xED \<longrightarrow> b < 0xA0" for a b d
    using that by (cases "a < 0xED"; cases "a = 0xED")
      (auto simp: scalar_value_def high_surrogate_def low_surrogate_def continuation_def)
  have four: "scalar_value ((a - 0xF0) * 262144 + (b - 0x80) * 4096 + (d - 0x80) * 64 + (e - 0x80))"
    if "0xF0 \<le> a" "a < 0xF5" "continuation b" "continuation d" "continuation e"
      "a = 0xF0 \<longrightarrow> 0x90 \<le> b" "a = 0xF4 \<longrightarrow> b < 0x90" for a b d e
    using that by (cases "a = 0xF0"; cases "a = 0xF4")
      (auto simp: scalar_value_def high_surrogate_def low_surrogate_def continuation_def)
  have one: "scalar_value a" if "a < 0x80" for a
    using that by (simp add: scalar_value_def high_surrogate_def low_surrogate_def)
  show ?thesis
    using assms one two three four
    by (cases bs rule: utf8_take.cases) (auto split: if_splits list.splits)
qed

lemma utf8_ignore_scalar: "list_all scalar_value (utf8_ignore bs)"
  by (induction bs rule: utf8_ignore.induct)
    (auto split: option.split dest: utf8_take_scalar simp del: utf8_take.simps)

theorem decode_scalar: "list_all scalar_value (decode_ignore bs)"
  by (simp add: decode_ignore_def utf8_ignore_scalar)

end
