(* ===== verification/Samples.thy ===== *)
theory Samples
  imports Live Cli_Args_Correct Json_Reader Utf8
begin

text \<open>
  A small concrete environment for the witnesses: a protocol library with three layer
  objects (0 an Ethernet header, 1 an IPv4 header of 20 bytes that claims 28, 2 a UDP
  header), frames, and a terminal that prints ASCII.
\<close>

definition sample_isinstance :: "nat \<Rightarrow> protocol_class \<Rightarrow> bool" where
  "sample_isinstance l c \<longleftrightarrow>
     l = 0 \<and> c = Ethernet_class \<or> l = 1 \<and> c = IPv4_class \<or> l = 2 \<and> c = UDP_class"

definition sample_np :: "nat netprotocols" where
  "sample_np =
     \<lparr>isinstance_of = sample_isinstance,
      class_name = (\<lambda>l. if l = 0 then ascii ''Ethernet'' else if l = 1 then ascii ''IPv4'' else ascii ''UDP''),
      header_len = (\<lambda>l. if l = 0 then 14 else if l = 1 then 20 else 8),
      total_length = (\<lambda>l. 28),
      payload_length = (\<lambda>l. 0),
      ip_flags = (\<lambda>l. 0),
      fragment_offset = (\<lambda>l. 0),
      decode_chain = (\<lambda>data n. \<lparr>layers = [0, 1, 2], consumed_bytes = 42, stopped_by = None\<rparr>)\<rparr>"

definition sample_asdict :: "nat \<Rightarrow> (pystr \<times> py_value) list" where
  "sample_asdict l = [(ascii ''length'', Py_int 8), (ascii ''options'', Py_bytes [1, 2])]"

definition sample_view :: "nat \<Rightarrow> layer_view" where
  "sample_view l =
     (if l = 0 then Ethernet_view (ascii ''02:00'') (ascii ''ff:ff'') (ascii ''IPv4'') else No_renderer)"

definition sample_screen :: "nat screen_env" where
  "sample_screen =
     \<lparr>view = sample_view,
      ip_src = (\<lambda>l. ascii ''10.0.0.1''),
      ip_dst = (\<lambda>l. ascii ''10.0.0.2''),
      verify = (\<lambda>l ip payload. Inr True),
      compute = (\<lambda>l ip payload. Inr 0),
      isprintable = ascii_printable,
      clock_text = (\<lambda>ts. if 0 \<le> ts then Inr (ascii ''12:00:00'') else Inl ClockError)\<rparr>"

definition sample_env :: "nat cli_env" where
  "sample_env = \<lparr>env_np = sample_np, env_asdict = sample_asdict, env_screen = sample_screen\<rparr>"

definition sample_args :: arguments where
  "sample_args =
     \<lparr>arg_interface = Some [ascii ''eth0''], arg_read = None, arg_write = Some (ascii ''out.pcap''),
      arg_filter = Some (ascii ''ip''), arg_json = True, arg_data = False\<rparr>"

definition sample_outputs :: "out_state list" where
  "sample_outputs =
     [NDJSON_output [], Pcap_output \<lparr>pcap_file = pcap_header, pcap_closed = False\<rparr>,
      Stats_output new_StatsCollector]"

definition sample_frame :: "int \<Rightarrow> nat DecodedFrame" where
  "sample_frame ts = decode_frame sample_np (replicate 60 0) 1 ts None"

lemmas sample_defs =
  sample_np_def sample_asdict_def sample_view_def sample_screen_def sample_env_def sample_isinstance_def

lemma sample_outputs_built: "build_outputs (\<lambda>_. None) sample_args = Inr (Inr sample_outputs)"
  by (simp add: build_outputs_cases sample_args_def sample_outputs_def)

lemma sample_frame_parts:
  "frame_raw (decode_frame sample_np data n ts i) = data"
  "frame_timestamp (decode_frame sample_np data n ts i) = ts"
  "frame_layers (decode_frame sample_np data n ts i) = [0, 1, 2]"
  by (simp_all add: decode_frame_def sample_np_def Let_def)

lemma sample_serializable: "serializable (frame_record sample_np sample_asdict (decode_frame sample_np data n ts i))"
  by (simp add: frame_record_def sample_frame_parts layer_record_def sample_asdict_def json_safe_def
      optional_str_def split: option.split)

lemma sample_readable:
  "readable (frame_record sample_np sample_asdict (sample_frame ts))"
  "readable (frame_record sample_np sample_asdict (decode_frame sample_np data n ts None))"
  by (simp_all add: frame_record_def sample_frame_def decode_frame_def sample_np_def layer_record_def
      sample_asdict_def json_safe_def optional_str_def scalar_value_def high_surrogate_def
      low_surrogate_def bytes_hex_def hex_digits.simps zero_pad_def hex_digit_def Let_def)

lemma sample_accepts:
  "chain_accepts sample_env sample_outputs (decode_frame sample_np data n ts i) \<longleftrightarrow> record_fits (data, ts)"
  by (simp add: sample_outputs_def sample_env_def sample_serializable captured_def sample_frame_parts)

lemma sample_library_safe: "library_safe sample_np sample_screen"
proof -
  have p: "printable_ascii_table ascii_printable" by (simp add: printable_ascii_table_def)
  show ?thesis
    by (simp add: library_safe_def sample_screen_def sample_view_def sample_np_def p terminal_safe_ascii del: ascii_Cons)
qed

end
