(* ===== verification/Spec2Isabelle.thy ===== *)
theory Spec2Isabelle
  imports Bpf_Stack Process Archive Pcapng Frame_Batch Samples
begin

text \<open>
  A model of RootWire, a packet sniffer in Python (\<^verbatim>\<open>src/rootwire\<close>), and the theorems that
  make it correct.

  The program. A source of frames, either raw sockets (\<^verbatim>\<open>capture.py\<close>) or a pcap/pcapng
  file (\<^verbatim>\<open>pcap.py\<close>), feeds one loop (\<^verbatim>\<open>run\<close> in \<^verbatim>\<open>cli.py\<close>), which decodes each frame
  (\<^verbatim>\<open>decoder.py\<close>, \<^verbatim>\<open>frame.py\<close>) and hands it to a chain of outputs (\<^verbatim>\<open>output.py\<close>: screen,
  NDJSON, pcap file, statistics). A filter expression is compiled to a classic BPF program
  (\<^verbatim>\<open>bpf_compiler.py\<close>, \<^verbatim>\<open>bpf.py\<close>) that is attached to the sockets.

  The theories, in the order of the code:

  \<^item> \<open>RW_Prelude\<close>, \<open>Py_Regex\<close>, \<open>Py_Struct\<close>, \<open>Py_Format\<close>: what the sources use of Python:
    strings as lists of code points, bytes, slices, prioritised regular-expression matching,
    \<^verbatim>\<open>int()\<close>, \<^verbatim>\<open>struct\<close>, number formatting. \<open>Py_Struct\<close> has the locale \<open>fixed_codec\<close>
    (records of fixed size that read back), interpreted on BPF instructions and on pcap
    record headers. \<open>Py_Repr\<close>: \<^verbatim>\<open>repr\<close> of a string, and that the literal reads back.
    \<open>Event_Machine\<close>: the locale \<open>event_machine\<close> of machines stepped by events, with runs
    computed by \<open>steps\<close> and one induction rule for their invariants.
  \<^item> \<open>Bpf\<close>: \<^verbatim>\<open>bpf.py\<close>, the instruction encoding, the canned filters, \<^verbatim>\<open>FilterProgram\<close> with
    its 16-bit length. \<open>Bpf_Vm\<close>: the interpreter of \<^verbatim>\<open>tests/bpf_vm.py\<close>, the meaning of
    programs.
  \<^item> \<open>Bpf_Lexer\<close>, \<open>Bpf_Parser\<close>: \<^verbatim>\<open>_tokenize\<close> and \<^verbatim>\<open>_Parser\<close>, one function per method, with
    the grammar of the documentation as inductive relations (\<open>derives_or\<close> and its
    companions), soundness and completeness of the parser, and every error. The locale
    \<open>operator_level\<close> proves a left-associative level once for \<^verbatim>\<open>and\<close> and \<^verbatim>\<open>or\<close>.
    \<open>Bpf_Messages\<close>: the text of every error, printable whatever the expression holds.
    \<open>Bpf_Unparse\<close>: a printer, the specification side of the round trip.
  \<^item> \<open>Bpf_Codegen\<close>: the emitter, the \<^verbatim>\<open>_compile_*\<close> functions, \<^verbatim>\<open>_resolve\<close>,
    \<^verbatim>\<open>compile_expression\<close>. \<open>Bpf_Assembler\<close>: a machine on symbolic labels and the proof that
    resolving the labels refines it. \<open>Bpf_Meaning\<close>: the meaning \<open>sem\<close> of an expression on a
    frame (\<open>None\<close>: a load past the end). \<open>Bpf_Blocks\<close>: the locales \<open>code_generator\<close> and
    \<open>code_pair\<close> of a block of code with two exits, interpreted on \<open>compile_node\<close>.
    \<open>Bpf_Correct\<close>: the compiler is correct. \<open>Bpf_Checker\<close>: the kernel's check of a program
    as a type system, sound for the interpreter and met by what is compiled. \<open>Bpf_Filters\<close>: the documented meaning on long
    frames, the canned filters, the tcpdump program for \<^verbatim>\<open>port 80\<close>. \<open>Bpf_Limits\<close>: exactly
    which expressions compile (\<open>jumps_fit\<close>), and programs too long for the kernel. \<open>Bpf_Stack\<close>:
    how many calls \<^verbatim>\<open>compile_expression\<close> has open at most (\<open>stack_depth\<close>), every function and helper of
    the module counted, with bounds from above and below, and the compiler under a recursion
    limit (\<open>compile_within\<close>).
  \<^item> \<open>Decoder\<close>: \<^verbatim>\<open>frame.py\<close> and \<^verbatim>\<open>decoder.py\<close>. The \<^verbatim>\<open>netprotocols\<close> package is the record
    \<open>netprotocols\<close> of what the code reads of it.
  \<^item> \<open>Pcap\<close>, \<open>Pcapng\<close>: \<^verbatim>\<open>pcap.py\<close>: the writer, the link-type check, \<^verbatim>\<open>read_captures\<close>;
    well-formed pcapng files and the link types they declare.
  \<^item> \<open>Output\<close>: the shared helpers of \<^verbatim>\<open>output.py\<close>. \<open>Output_Interface\<close>: the contract of an
    output as the locale \<open>frame_output\<close> (\<open>has_seen s fs\<close>: the state of an output that saw
    exactly the frames \<open>fs\<close>), interpreted on \<^verbatim>\<open>OutputToPcap\<close> and \<^verbatim>\<open>StatsCollector\<close>.
    \<open>Ndjson\<close>: \<^verbatim>\<open>OutputToNDJSON\<close> down to the characters of \<^verbatim>\<open>json.dumps\<close>; \<open>Json_Reader\<close>: a
    JSON reader, and that it reads every record back. \<open>Screen\<close>: every renderer of
    \<^verbatim>\<open>OutputToScreen\<close>; \<open>Screen_Safety\<close>: what reaches the terminal; \<open>Utf8\<close>: the decoding of
    payloads against the encoding.
  \<^item> \<open>Capture\<close>: \<^verbatim>\<open>capture.py\<close>: the calls of \<^verbatim>\<open>_open_socket\<close>, the reader callback, and the
    generator as a machine stepped by events (a socket readable, an item taken, a
    cancellation), with its runs as the inductive relation \<open>capture_run\<close>, an
    \<open>event_machine\<close>.
  \<^item> \<open>Cli\<close>, \<open>Cli_Correct\<close>: \<^verbatim>\<open>cli.py\<close>: argument checks, the output chain, \<^verbatim>\<open>run\<close>, the
    sources, \<^verbatim>\<open>main\<close> with its handlers and exit codes; the contract \<open>frame_output\<close>
    interpreted on the chain's outputs. \<open>Cli_Args\<close>, \<open>Cli_Args_Correct\<close>: the options of
    \<^verbatim>\<open>build_parser\<close>, what \<^verbatim>\<open>argparse\<close> makes of a command line with them, and every spelling it
    understands. \<open>Live\<close>: the loop and the capture machine run together, event by event, and
    the proof that this refines the loop over the frames yielded in the end, down to what a
    consumer of the JSON output reads; it is an \<open>event_machine\<close> too.
  \<^item> \<open>Source_Interface\<close>: what the loop relies on in a source of frames, as the locale
    \<open>frame_source\<close> (it gives a prefix of the frames there are), extended by
    \<open>complete_source\<close> (exhausted, it gave all) and \<open>endless_source\<close>, which is one; a replayed
    file interprets the former, the sockets the latter.
  \<^item> \<open>Archive\<close>: from the sockets through the file of \<^verbatim>\<open>-w\<close> back to a replay with \<^verbatim>\<open>-r\<close>.
  \<^item> \<open>Process\<close>: the process around \<^verbatim>\<open>main\<close>: who handles SIGTERM from before \<^verbatim>\<open>main\<close> to after it,
    the texts of the usage errors, the version, and the exit status of \<^verbatim>\<open>__main__.py\<close>. The
    model of \<^verbatim>\<open>main\<close> in \<open>Cli\<close> leaves the handler out; \<open>main_try\<close> is the whole \<^verbatim>\<open>try\<close> statement, and
    agrees with it for a process started from a shell.
  \<^item> \<open>Frame_Batch\<close>: the frame batches of \<^verbatim>\<open>benchmarks/\<close>, which read back.
  \<^item> \<open>Samples\<close>: a concrete library and frames for the witnesses.

  Exceptions are values: \<open>Inl\<close> of a sum. Mutable objects are states passed along: the
  parser's position, the emitter's items, a pcap file's bytes, a counter's items in
  insertion order, the text written to a stream.

  Bounds. The interpreter stops after 10000 steps, as in the tests; programs run forward
  only, so the compiler theorems ask for at most 10000 instructions. Frames of 78 bytes or
  more hold every field a filter reads, so that the documented meaning applies; shorter ones
  have the exact meaning \<open>sem\<close>. Python's limit of 4300 digits for \<^verbatim>\<open>int()\<close> is part of the
  model. Python's recursion limit is a parameter of \<open>compile_within\<close>, which fails with
  \<open>RecursionError\<close> when fewer than \<open>stack_depth\<close> calls fit; \<open>compile_expression\<close>, which the rest of
  the model uses, is what the code computes below the limit, and \<open>4 * n + 9\<close> calls are enough for
  \<open>n\<close> tokens. No definition of the
  program uses fuel: every loop is a terminating function. The
  JSON reader, which belongs to the specification, is bounded by the length of its text.

  Arguments of the model, and what is assumed of them only where a theorem says so: the
  \<^verbatim>\<open>netprotocols\<close> package (layers, chain walk, checksums, pcap reading), the operating
  system (which calls fail, what a socket returns, which frames the kernel delivers),
  \<^verbatim>\<open>str.isprintable\<close>, the local time as text, the two formatted floats of the report,
  \<^verbatim>\<open>os.path\<close>, and the order of events and signals.

  Not modelled: the help text, the usage line and the texts of \<^verbatim>\<open>argparse\<close>'s own errors, errors
  of the output streams (a closed pipe, an encoding that lacks a character), the disk,
  the frames, clocks and memory figures of the benchmarks and their old
  decoder, and the test cases. None of them has behaviour of this program that can be read
  here: they belong to the library, the operating system or the interpreter.

  The properties. The first group says that the filter compiler is correct and its programs
  pass the kernel's check; then the pipeline as a whole, live and on files, the process and
  the command line; the filter on the socket and the capture machine, capture files, the
  decoder, the outputs; the last group has limits, hand-over and lexing.
\<close>

section \<open>Concrete programs for the witnesses\<close>

lemma compile_ip:
  "compile_expression (ascii ''ip'') =
     Inr [(0x28, 0, 0, 12), (0x15, 0, 1, 0x0800), (0x06, 0, 0, 0x40000), (0x06, 0, 0, 0)]"
proof -
  have "ascii ''ip'' \<in> set PROTOCOLS" by (simp add: PROTOCOLS_def)
  from protocol_tokens [OF this] protocol_parses [OF this]
  have "tokenize (ascii ''ip'') = Inr [word (ascii ''ip'')]" "parse [word (ascii ''ip'')] = Inr (Proto (ascii ''ip''))" .
  moreover have "resolve (items (compile_program (Proto (ascii ''ip'')))) =
      Inr [(0x28, 0, 0, 12), (0x15, 0, 1, 0x0800), (0x06, 0, 0, 0x40000), (0x06, 0, 0, 0)]"
    by (simp add: compile_program_def new_Emitter_def new_label_pair compile_proto_def test_code_def
        plain_insn_def jump_insn_def resolve_def offset_to_def opcode_defs ETHERTYPE_IPV4_def
        ACCEPT_LENGTH_def)
  ultimately show ?thesis by (simp add: compile_expression_def)
qed

lemma resolve_ip:
  "resolve (items (compile_program (Proto (ascii ''ip'')))) =
     Inr [(0x28, 0, 0, 12), (0x15, 0, 1, 0x0800), (0x06, 0, 0, 0x40000), (0x06, 0, 0, 0)]"
  "resolve (items (compile_program (NotE (Proto (ascii ''ip''))))) =
     Inr [(0x28, 0, 0, 12), (0x15, 1, 0, 0x0800), (0x06, 0, 0, 0x40000), (0x06, 0, 0, 0)]"
  by (simp_all add: compile_program_def new_Emitter_def new_label_pair compile_proto_def test_code_def
      plain_insn_def jump_insn_def resolve_def offset_to_def opcode_defs ETHERTYPE_IPV4_def
      ACCEPT_LENGTH_def)

lemma ip_tokens:
  "tokenize (ascii ''ip'') = Inr [word (ascii ''ip'')]"
  "derives_or [word (ascii ''ip'')] (Proto (ascii ''ip''))"
  "short_numbers [word (ascii ''ip'')]" "wf_token (word (ascii ''ip''))"
proof -
  have m: "ascii ''ip'' \<in> set PROTOCOLS" by (simp add: PROTOCOLS_def)
  show "tokenize (ascii ''ip'') = Inr [word (ascii ''ip'')]" by (rule protocol_tokens [OF m])
  show "derives_or [word (ascii ''ip'')] (Proto (ascii ''ip''))"
    by (intro or_one and_one not_primary primary_primitive prim_proto m)
  show "short_numbers [word (ascii ''ip'')]" by simp
  show "wf_token (word (ascii ''ip''))" using m by (intro wf_word) (simp add: KEYWORDS_def)
qed

section \<open>The filter compiler\<close>

text \<open>
  C1: A compiled filter program, run on any frame by the interpreter of tests/bpf_vm.py,
  accepts exactly when the expression it was compiled from means true on the frame (sem), and
  otherwise returns 0: a load past the end of the frame rejects. The expression is the one the
  documented grammar derives from the tokens.
\<close>

theorem compile_expression_correct:
  assumes "compile_expression expr = Inr prog" and "length prog \<le> 10000"
  shows "\<exists>ts n. tokenize expr = Inr ts \<and> derives_or ts n \<and>
    (\<forall>packet. vm_run prog packet = Inr (if sem n packet = Some True then 0x40000 else 0))"
proof -
  from assms(1) obtain ts n where
    c: "tokenize expr = Inr ts" "parse ts = Inr n" "resolve (items (compile_program n)) = Inr prog"
    by (auto simp: compile_expression_Inr)
  have "derives_or ts n" by (rule parse_sound [OF c(2) tokenize_wf [OF c(1)]])
  with c(1) compiled_runs [OF c(3) assms(2)] show ?thesis by (auto simp: ACCEPT_LENGTH_def)
qed

theorem compile_expression_correct_witness:
  "\<exists>ts n. tokenize (ascii ''ip'') = Inr ts \<and> derives_or ts n \<and>
    (\<forall>packet. vm_run [(0x28, 0, 0, 12), (0x15, 0, 1, 0x0800), (0x06, 0, 0, 0x40000), (0x06, 0, 0, 0)] packet =
       Inr (if sem n packet = Some True then 0x40000 else 0))"
  by (rule compile_expression_correct [OF compile_ip]) simp

text \<open>
  C2: On a frame long enough for every field a filter reads (78 bytes), a compiled filter
  keeps the frame exactly when the documented meaning of the expression holds, in ordinary
  two-valued logic; for expressions with port, when the frame is IPv4 or IPv6.
\<close>

theorem compile_expression_documented:
  assumes "compile_expression expr = Inr prog" and "length prog \<le> 10000"
  shows "\<exists>ts n. tokenize expr = Inr ts \<and> derives_or ts n \<and>
    (\<forall>packet. 78 \<le> length packet \<longrightarrow> (mentions_port n \<longrightarrow> is_ipv4 packet \<or> is_ipv6 packet) \<longrightarrow>
       (vm_accepts prog packet \<longleftrightarrow> holds n packet))"
proof -
  from assms(1) obtain ts n where
    c: "tokenize expr = Inr ts" "parse ts = Inr n" "resolve (items (compile_program n)) = Inr prog"
    by (auto simp: compile_expression_Inr)
  have "derives_or ts n" by (rule parse_sound [OF c(2) tokenize_wf [OF c(1)]])
  moreover have "vm_accepts prog packet \<longleftrightarrow> holds n packet"
    if "78 \<le> length packet" "mentions_port n \<longrightarrow> is_ipv4 packet \<or> is_ipv6 packet" for packet
    using compiled_accepts [OF c(3) assms(2)] sem_holds [OF that(1)] that(2) by simp
  ultimately show ?thesis using c(1) by blast
qed

theorem compile_expression_documented_witness:
  "\<exists>ts n. tokenize (ascii ''ip'') = Inr ts \<and> derives_or ts n \<and>
    (\<forall>packet. 78 \<le> length packet \<longrightarrow> (mentions_port n \<longrightarrow> is_ipv4 packet \<or> is_ipv6 packet) \<longrightarrow>
       (vm_accepts [(0x28, 0, 0, 12), (0x15, 0, 1, 0x0800), (0x06, 0, 0, 0x40000), (0x06, 0, 0, 0)] packet
          \<longleftrightarrow> holds n packet))"
  by (rule compile_expression_documented [OF compile_ip]) simp

text \<open>
  C3: The recursive-descent parser accepts exactly the documented grammar: on the tokens of
  any text (with no number longer than Python's 4300-digit limit) it returns a tree if and
  only if the grammar derives the tokens with that tree.
\<close>

theorem parser_accepts_grammar:
  assumes "tokenize expr = Inr ts" and "short_numbers ts"
  shows "parse ts = Inr n \<longleftrightarrow> derives_or ts n"
  by (rule parse_iff [OF tokenize_wf [OF assms(1)] assms(2)])

theorem parser_accepts_grammar_witness:
  "parse [word (ascii ''ip'')] = Inr (Proto (ascii ''ip'')) \<longleftrightarrow>
     derives_or [word (ascii ''ip'')] (Proto (ascii ''ip''))"
  by (rule parser_accepts_grammar [OF ip_tokens(1,3)])

lemma tokenize_bang: "tokenize [33] = Inl (BPFCompileError (UnexpectedCharacter 33 0))"
proof -
  have "\<not> is_digit 33" "\<not> is_alpha 33" "\<not> is_space 33"
    by (auto simp: is_digit_def nd_zeros_def is_alpha_def is_space_def)
  then have "first_match TOKEN_RE [33] = None"
    by (auto simp: first_match_None TOKEN_RE_def ipv4_re_def run_length_def punct_defs Let_def)
  then show ?thesis by (simp add: tokenize_def tokenize_from.simps)
qed

text \<open>
  C4: Every failure of compile_expression explains itself, and there are three kinds, wherever
  it is called and however many calls still fit below Python's recursion limit there (room).
  RecursionError is raised only when the expression needs more calls than fit, so never with
  room for 4n + 9 calls, n its number of tokens, or for 3 when it has no tokens to split into.
  The ValueError of int() is raised only for a number longer than 4300 digits. Everything else
  is a BPFCompileError; no label lookup fails. An empty expression is reported only for white
  space, a jump as too far only when its offset exceeds 255, and every part of the text an
  error quotes stands in the expression. The message main prints has only characters
  isprintable() takes (those of printable ASCII are assumed to be among them), so no line
  break, whatever the expression holds; it shows the part as a Python literal, and except for
  those two errors it ends in the expression as a literal that reads back as the expression.
\<close>

theorem compile_expression_errors:
  assumes "compile_within room expr = Inl err" and "printable_ascii_table printable"
  shows "(err = RecursionError \<and> room < stack_depth expr \<and>
       (\<forall>ts. tokenize expr = Inr ts \<longrightarrow> room < 4 * length ts + 9) \<and>
       (\<forall>e. tokenize expr = Inl e \<longrightarrow> room < 3)) \<or>
    (err = Compiler_raised IntDigitsError \<and> (\<exists>ts. tokenize expr = Inr ts \<and> \<not> short_numbers ts)) \<or>
    (\<exists>r. err = Compiler_raised (BPFCompileError r) \<and> list_all printable (compile_message printable expr r) \<and>
       (r = EmptyExpression \<longrightarrow> list_all is_space expr) \<and> (\<forall>d. r = JumpTooFar d \<longrightarrow> 255 < d) \<and>
       (\<forall>t. quoted_text (BPFCompileError r) = Some t \<longrightarrow>
          sublist t expr \<and> sublist (py_repr printable t) (compile_message printable expr r)) \<and>
       (r \<noteq> EmptyExpression \<and> (\<forall>d. r \<noteq> JumpTooFar d) \<longrightarrow>
          (\<exists>message. compile_message printable expr r = message @ ascii '' in '' @ py_repr printable expr)) \<and>
       (list_all code_point expr \<longrightarrow> py_literal (py_repr printable expr) = Some expr))"
proof (cases "room < stack_depth expr")
  case True
  with assms(1) have "err = RecursionError" by (simp add: compile_within_Inl)
  moreover have "room < 4 * length ts + 9" if "tokenize expr = Inr ts" for ts
    using True stack_depth_tokens [OF that] by linarith
  moreover have "room < 3" if "tokenize expr = Inl e" for e
    using True stack_depth_lexing [OF that] by linarith
  ultimately show ?thesis using True by blast
next
  case False
  with assms(1) obtain e where e: "compile_expression expr = Inl e" "err = Compiler_raised e"
    by (auto simp: compile_within_Inl)
  show ?thesis
  proof (cases "e = IntDigitsError")
    case True
    with compile_expression_Inl [OF e(1)] e(2) show ?thesis by blast
  next
    case False
    with compile_expression_Inl [OF e(1)] obtain r where
      r: "e = BPFCompileError r" "\<forall>d. r = JumpTooFar d \<longrightarrow> 255 < d" by blast
    then show ?thesis
      using compile_message_shown [OF assms(2), of expr r] empty_expression [of expr] e
        quoted_in_source [OF e(1)] compile_message_quotes [of r _ printable expr]
        compile_message_source [of r printable expr] py_literal_repr [of expr printable]
      by (intro disjI2 exI [of _ r]) blast
  qed
qed

theorem compile_expression_errors_witness:
  "list_all ascii_printable (compile_message ascii_printable [33] (UnexpectedCharacter 33 0)) \<and>
   sublist [33] [33] \<and> py_literal (py_repr ascii_printable [33]) = Some [33]"
proof -
  have "stack_depth [33] \<le> 3" by (rule stack_depth_lexing [OF tokenize_bang])
  then have e: "compile_within 3 [33] = Inl (Compiler_raised (BPFCompileError (UnexpectedCharacter 33 0)))"
    by (simp add: compile_within_Inl compile_expression_def tokenize_bang)
  have p: "printable_ascii_table ascii_printable" by (simp add: printable_ascii_table_def)
  show ?thesis
    using compile_expression_errors [OF e p] by (simp add: code_point_def del: compile_message.simps)
qed

text \<open>
  C5: Which expressions of the grammar compile is decided on the expression alone: exactly
  those whose jumps, computed from the lengths of the operands between a primitive and its
  exits (jumps_fit), span at most 255 instructions, among them every expression of at most 254
  instructions. The program then has exactly node_length + 2 instructions (the code and the
  two returns), each of which fits the kernel's 16/8/8/32-bit format.
\<close>

theorem compile_expression_complete:
  assumes "tokenize expr = Inr ts" and "derives_or ts n" and "short_numbers ts"
  shows "((\<exists>prog. compile_expression expr = Inr prog) \<longleftrightarrow> jumps_fit n 0 1) \<and>
    (node_length n \<le> 254 \<longrightarrow> jumps_fit n 0 1) \<and>
    (\<forall>prog. compile_expression expr = Inr prog \<longrightarrow>
       length prog = node_length n + 2 \<and> list_all insn_fits prog)"
proof -
  have parse: "parse ts = Inr n" by (rule parse_complete [OF assms(2,3)])
  then have whole: "compile_expression expr = Inr prog \<longleftrightarrow> resolve (items (compile_program n)) = Inr prog" for prog
    using assms(1) by (simp add: compile_expression_Inr)
  show ?thesis
    unfolding whole list_all_iff
    using compiles_iff [of n] short_program_resolves [of n] resolved_length [of n]
      compiled_fits [of n, OF _ derives_wf_node(1) [OF assms(2)]]
    by blast
qed

theorem compile_expression_complete_witness:
  "(\<exists>prog. compile_expression (ascii ''ip'') = Inr prog) \<longleftrightarrow> jumps_fit (Proto (ascii ''ip'')) 0 1"
  using compile_expression_complete [OF ip_tokens(1,2,3)] by blast

text \<open>
  C6: Resolving the symbolic labels to relative offsets preserves meaning: whenever resolution
  succeeds, the interpreter run on the resolved program computes what running the labelled
  code directly computes, for any code with distinct labels, not only the compiler's.
\<close>

theorem resolve_refines:
  assumes "resolve its = Inr prog" and "distinct (placed its)" and "length (instructions its) \<le> 10000"
  shows "outcome_of (sexec packet its 0 0) = Some (vm_loop prog packet vm_start)"
  using resolved_runs [of "[]" its prog vm_start packet] assms by (simp add: vm_start_def)

theorem resolve_refines_witness:
  "outcome_of (sexec [] (items (compile_program (Proto (ascii ''ip'')))) 0 0) =
     Some (vm_loop [(0x28, 0, 0, 12), (0x15, 0, 1, 0x0800), (0x06, 0, 0, 0x40000), (0x06, 0, 0, 0)] [] vm_start)"
  by (rule resolve_refines [OF resolve_ip(1) program_distinct]) (simp add: program_length)

text \<open>
  C7: Each canned filter of bpf.py (golden tcpdump bytecode) and the program the compiler
  makes of its name agree on every frame, of any length and content.
\<close>

theorem canned_filters_agree:
  assumes "(name, prog) \<in> set CANNED_FILTERS"
  shows "\<exists>compiled. compile_expression name = Inr compiled \<and>
    (\<forall>packet. vm_run compiled packet = vm_run prog packet)"
  by (rule protocol_compiles [OF canned_name [OF assms]])
    (use canned_filters_run [OF assms] in auto)

theorem canned_filters_agree_witness:
  "\<exists>compiled. compile_expression (ascii ''udp'') = Inr compiled \<and>
    (\<forall>packet. vm_run compiled packet = vm_run UDP_filter packet)"
  by (rule canned_filters_agree) (simp add: CANNED_FILTERS_def)

text \<open>
  C8: Filter programs are well typed for the check the kernel makes before attaching one:
  every canned filter and every compiled program is non-empty, uses only known opcodes with
  fields that fit, jumps only to instructions of the program and ends in a return. It passes
  the whole check exactly when it has at most 4096 instructions, and then it returns a verdict
  on every packet: no stray opcode, no step limit, no run past its end.
\<close>

theorem filters_pass_kernel_check:
  assumes "(expr, prog) \<in> set CANNED_FILTERS \<or> compile_expression expr = Inr prog"
  shows "code_checks prog \<and> (bpf_check prog \<longleftrightarrow> length prog \<le> BPF_MAXINSNS) \<and>
    (bpf_check prog \<longrightarrow> (\<exists>n. vm_run prog packet = Inr n))"
proof -
  have "code_checks prog" if "(expr, prog) \<in> set CANNED_FILTERS"
    using that canned_checks by (auto simp: list_all_iff)
  with assms have "code_checks prog" using expression_checks by blast
  moreover from this have "\<exists>n. vm_run prog packet = Inr n" if "length prog \<le> BPF_MAXINSNS"
    using checked_returns that by (simp add: BPF_MAXINSNS_def)
  ultimately show ?thesis by (simp add: bpf_check_def)
qed

theorem filters_pass_kernel_check_witness:
  "code_checks UDP_filter \<and> bpf_check UDP_filter \<and> (\<exists>n. vm_run UDP_filter [] = Inr n)"
proof -
  have "(ascii ''udp'', UDP_filter) \<in> set CANNED_FILTERS" by (simp add: CANNED_FILTERS_def)
  with filters_pass_kernel_check [of "ascii ''udp''" UDP_filter "[]"] show ?thesis
    by (simp add: BPF_MAXINSNS_def UDP_filter_def)
qed

section \<open>The pipeline: sources, outputs and exit codes\<close>

text \<open>
  C9: The loop of cli.run over a source whose frames every output accepts processes all of
  them and returns their number, and afterwards each output is in the state of one that saw
  exactly the decoded frames, in capture order and numbered from 1 (frame k is decode_frame of
  the k-th capture with number k).
\<close>

theorem run_feeds_outputs:
  assumes "build_outputs open_write args = Inr (Inr outs)"
    and "\<forall>f \<in> set (decoded env 0 frames). chain_accepts env outs f"
  shows "\<exists>outs'. run env frames outs = (None, length frames, outs') \<and>
    list_all (\<lambda>out. output_has_seen env out (decoded env 0 frames)) outs' \<and>
    (\<forall>k data timestamp interface. k < length frames \<and> frames ! k = (data, timestamp, interface) \<longrightarrow>
       decoded env 0 frames ! k = decode_frame (env_np env) data (k + 1) timestamp interface)"
  using run_accepted [OF build_outputs_seen [OF assms(1)] assms(2)] decoded_nth [of _ frames _ _ _ env 0]
  by (auto simp: chain_seen_def)

theorem run_feeds_outputs_witness:
  "\<exists>outs'. run sample_env [([1, 2], 5, None), ([3], 7, None)] sample_outputs = (None, 2, outs') \<and>
    list_all (\<lambda>out. output_has_seen sample_env out (decoded sample_env 0 [([1, 2], 5, None), ([3], 7, None)])) outs'"
proof -
  have "\<forall>f \<in> set (decoded sample_env 0 [([1, 2], 5, None), ([3], 7, None)]). chain_accepts sample_env sample_outputs f"
    using sample_accepts by (simp add: sample_env_def record_fits_def)
  from run_feeds_outputs [OF sample_outputs_built this] show ?thesis by auto
qed

text \<open>
  C10: When some output refuses a frame (a timestamp outside the pcap header's 32-bit seconds,
  a layer field JSON cannot serialize, a time without a local time), the loop ends with an
  exception at that frame: the outputs before the refusing one have it as their last frame,
  that one and those behind it have only the frames before, and no later frame is processed.
\<close>

theorem run_stops_at_refusal:
  assumes "build_outputs open_write args = Inr (Inr outs)"
    and "\<forall>f \<in> set (decoded env 0 pre). chain_accepts env outs f"
    and "\<not> chain_accepts env outs (decode_frame (env_np env) data (length pre + 1) timestamp interface)"
  shows "\<exists>err outs' k. run env (pre @ (data, timestamp, interface) # post) outs = (Some err, length pre + 1, outs') \<and>
    k < length outs' \<and>
    list_all (\<lambda>out. output_has_seen env out (decoded env 0 (pre @ [(data, timestamp, interface)]))) (take k outs') \<and>
    list_all (\<lambda>out. output_has_seen env out (decoded env 0 pre)) (drop k outs')"
  using run_refused [OF build_outputs_seen [OF assms(1)] assms(2,3)] by (simp add: chain_seen_def)

theorem run_stops_at_refusal_witness:
  "\<exists>err outs' k. run sample_env ([([1, 2], 5, None)] @ ([3], -1, None) # [([4], 9, None)]) sample_outputs =
       (Some err, 2, outs') \<and> k < length outs' \<and>
     list_all (\<lambda>out. output_has_seen sample_env out (decoded sample_env 0 [([1, 2], 5, None)])) (drop k outs')"
proof -
  have "\<forall>f \<in> set (decoded sample_env 0 [([1, 2], 5, None)]). chain_accepts sample_env sample_outputs f"
    using sample_accepts by (simp add: sample_env_def record_fits_def)
  moreover have "\<not> chain_accepts sample_env sample_outputs
      (decode_frame (env_np sample_env) [3] (length [([1 :: byte, 2], 5 :: int, None :: pystr option)] + 1) (-1) None)"
    using sample_accepts by (simp add: sample_env_def record_fits_def)
  ultimately show ?thesis
    using run_stops_at_refusal [OF sample_outputs_built, of sample_env "[([1, 2], 5, None)]" "[3]" "-1" None "[([4], 9, None)]"]
    by auto
qed

text \<open>
  C11: However a capture ends (exhausted source, either signal, a handled or an unhandled
  exception from the source or from an output), main closes every output, reports the
  statistics exactly when the exit status is 0, and exits with 0 exactly for an exhausted
  source or a signal with no refused frame, with 1 exactly for a PermissionError or a
  ValueError, any other exception leaving main; SIGTERM cancels the task while the capture
  runs, has its default action until main restores it, and ends up with the handler it had
  before. All this needs the main thread and a handler that Python knows: with a handler
  installed from outside Python, or in another thread, restoring it raises, and main leaves
  the outputs open and reports nothing.
\<close>

theorem main_ends:
  "main_try env main_thread outs (frames, ending) before =
     (if main_thread \<and> before \<noteq> Foreign
      then (drive_and_close env outs (frames, ending), [Cancel_task, Sig_dfl, before])
      else if main_thread
      then (\<lparr>exit_status = Propagated Exn_TypeError, messages = messages (drive_and_close env outs (frames, ending)),
              reported = False, final_outputs = snd (snd (run env frames outs))\<rparr>, [Cancel_task, Sig_dfl])
      else (\<lparr>exit_status = Propagated (Exn_ValueError (ascii ''signal only works in main thread of the main interpreter'')),
              messages = [], reported = False, final_outputs = outs\<rparr>, []))
   \<and> list_all output_closed (final_outputs (drive_and_close env outs (frames, ending)))
   \<and> (reported (drive_and_close env outs (frames, ending)) \<longleftrightarrow>
        exit_status (drive_and_close env outs (frames, ending)) = Returned 0)
   \<and> exit_status (drive_and_close env outs (frames, ending)) =
        ending_status (case fst (run env frames outs) of Some x \<Rightarrow> Source_raised x | None \<Rightarrow> ending)"
  by (intro conjI drive_closes drive_report drive_status)
    (cases main_thread; cases "before = Foreign"; simp add: main_try_restores main_try_foreign main_try_thread)

text \<open>
  C12: The outputs follow the source and never run ahead of it. Whatever file is replayed,
  however it ends and wherever a signal stops it, the loop has handled some number k of the
  file's frames, decoded and numbered in file order; all outputs have seen exactly these k
  frames, except that after an output refused frame k it and those behind it have seen k - 1;
  and when the source is exhausted and nothing was refused, k is the number of frames in the
  file. A live capture does the same on the frames its sockets have delivered, in the order of
  delivery.
\<close>

theorem outputs_follow_source:
  assumes "build_outputs open_write args = Inr (Inr outs)"
  shows "(\<exists>err k j outs'. run env (fst (replay_source read_library content path interrupt)) outs = (err, k, outs') \<and>
      seen_up_to env k j outs' (decoded env 0 (file_frames read_library content path)) \<and> (err = None \<longrightarrow> j = length outs') \<and>
      (err = None \<and> snd (replay_source read_library content path interrupt) = Exhausted \<longrightarrow>
         k = length (file_frames read_library content path))) \<and>
    (capture_run e (capture_start sockets) es s \<longrightarrow>
      (\<exists>err k j outs'. run env (fst (live_source (Inr s) sig)) outs = (err, k, outs') \<and>
        seen_up_to env k j outs' (decoded env 0 (frames_of (all_pushed e sockets es))) \<and>
        (err = None \<longrightarrow> k = length (yielded s) \<and> j = length outs')))"
  using replay.outputs_follow_to_end [where i = "(content, path, interrupt)" and read_library = read_library and env = env and outs = outs]
    live.outputs_follow [where i = "(e, sockets, es, s, sig)" and env = env and outs = outs] build_outputs_seen [OF assms, of env]
  by (fastforce simp: live_source_def)

theorem outputs_follow_source_witness:
  "\<exists>err k j outs'. run sample_env (fst (replay_source (\<lambda>content. (read_records (drop 24 content), None))
      (Inr (pcap_header @ record_bytes ([1, 2], 1000000001))) (ascii ''a.pcap'') (Some (0, Sigterm)))) sample_outputs = (err, k, outs') \<and>
    seen_up_to sample_env k j outs' (decoded sample_env 0 (file_frames (\<lambda>content. (read_records (drop 24 content), None))
      (Inr (pcap_header @ record_bytes ([1, 2], 1000000001))) (ascii ''a.pcap'')))"
  using outputs_follow_source [OF sample_outputs_built, where env = sample_env and path = "ascii ''a.pcap''"
      and read_library = "\<lambda>content. (read_records (drop 24 content), None)"
      and content = "Inr (pcap_header @ record_bytes ([1, 2], 1000000001))" and interrupt = "Some (0, Sigterm)"]
  by blast

text \<open>
  C13: A capture archived with -w replays with -r, whenever and however it stopped. At every
  moment of a live capture, if it ends there (a signal, a read error, a frame refused by an
  output), the closed archive passes the link-type check and replays to the end as the frames
  the loop took, all of them unless an output refused the last one: the same raw bytes with
  the same nanosecond timestamps in the same order, so that the decoded frames differ from the
  captured ones only in their interface (the file's path) and the statistics are equal. The
  library's pcap reader is assumed to return the records of a nanosecond pcap file.
\<close>

theorem archive_replays:
  assumes "build_outputs open_write args = Inr (Inr outputs)" and "arg_write args = Some target"
    and "live_run env e (live_start sockets outputs) es l"
    and "\<And>rs content. written rs = Inr content \<Longrightarrow> read_library content = (rs, None)"
  shows "\<exists>w m replayed.
    final_outputs (drive_and_close env outputs (live_source (Inr (live_capture l)) sig)) ! 1 = Pcap_output w \<and>
    pcap_closed w \<and> (m = live_number l \<or> live_failed l \<noteq> None \<and> m = live_number l - 1) \<and>
    replay_source read_library (Inr (pcap_file w)) path None = (replayed, Exhausted) \<and>
    decoded env 0 replayed =
      map (\<lambda>f. f\<lparr>frame_interface := Some path\<rparr>) (take m (decoded env 0 (yielded (live_capture l)))) \<and>
    stats_of (env_np env) (decoded env 0 replayed) =
      stats_of (env_np env) (take m (decoded env 0 (yielded (live_capture l))))"
proof -
  let ?fs = "yielded (live_capture l)"
  from archive_seen [OF assms(1,2) live_refines(1) [OF assms(3)]] obtain w m where
    w: "1 < length (live_outputs l)" "live_outputs l ! 1 = Pcap_output w" "pcap_has_seen w (decoded env 0 (take m ?fs))"
    and m: "m = live_number l \<or> live_failed l \<noteq> None \<and> m = live_number l - 1" by blast
  have "final_outputs (drive_and_close env outputs (live_source (Inr (live_capture l)) sig)) ! 1 =
      Pcap_output (OutputToPcap_close w)"
    using live_refines(2) [OF assms(3), of sig] w by (simp split: prod.split)
  with archive_replayed [where env = env and path = path, OF w(3) assms(4)] m show ?thesis
    by (intro exI [of _ "OutputToPcap_close w"] exI [of _ m] exI [of _ "map (retag path) (take m ?fs)"])
      (simp add: decoded_retag stats_of_retag decoded_take OutputToPcap_close_def pcap_close_def)
qed

lemma sample_live:
  "\<exists>l. live_run sample_env Little (live_start [None] sample_outputs) [Readable 0 7 (Received [1] []), Get] l \<and>
     yielded (live_capture l) = [([1], 7, None)] \<and> live_failed l = None \<and> live_number l = 1"
proof -
  have "chain_accepts sample_env sample_outputs (decode_frame (env_np sample_env) [1] 1 7 None)"
    using sample_accepts by (simp add: sample_env_def record_fits_def)
  from dispatch_accepted [OF build_outputs_seen [OF sample_outputs_built] this] obtain outs where
    "dispatch sample_env (decode_frame (env_np sample_env) [1] 1 7 None) sample_outputs = (None, outs)" by blast
  then show ?thesis
    by (simp add: live_loop.reaches_steps live_step_def live_start_def live_frame_def capture_step_def
        capture_start_def on_readable_def get_item_def)
qed

theorem archive_replays_witness:
  "\<exists>l w replayed. live_run sample_env Little (live_start [None] sample_outputs) [Readable 0 7 (Received [1] []), Get] l \<and>
    final_outputs (drive_and_close sample_env sample_outputs (live_source (Inr (live_capture l)) Sigterm)) ! 1 = Pcap_output w \<and>
    replay_source (\<lambda>content. (read_records (drop 24 content), None)) (Inr (pcap_file w)) (ascii ''a.pcap'') None =
      (replayed, Exhausted) \<and>
    decoded sample_env 0 replayed =
      map (\<lambda>f. f\<lparr>frame_interface := Some (ascii ''a.pcap'')\<rparr>) (decoded sample_env 0 [([1], 7, None)])"
proof -
  obtain l where l: "live_run sample_env Little (live_start [None] sample_outputs) [Readable 0 7 (Received [1] []), Get] l"
    "yielded (live_capture l) = [([1], 7, None)]" "live_failed l = None" "live_number l = 1"
    using sample_live by blast
  have target: "arg_write sample_args = Some (ascii ''out.pcap'')" by (simp add: sample_args_def)
  have library: "(read_records (drop 24 content), None) = (rs, None)" if "written rs = Inr content" for rs content
    using written_read_back [OF that] by simp
  from archive_replays [OF sample_outputs_built target l(1), of "\<lambda>content. (read_records (drop 24 content), None)"
      Sigterm "ascii ''a.pcap''", OF library] l
  show ?thesis by (auto simp del: ascii_Cons decoded.simps)
qed

text \<open>
  C14: A live capture, where each frame is decoded and dispatched as it is taken while the
  sockets go on filling the queue, does what main does on the frames yielded in the end: for
  every interleaving of readable sockets, reads and a cancellation, the outputs, the frame
  count and the exception are those of the loop run over the yielded frames, the capture
  inside is a run of the capture machine (with one cancellation more where an output refused a
  frame), and main ends in the same outputs and status.
\<close>

theorem live_pipeline_refines:
  assumes "live_run env e (live_start sockets outputs) es l"
  shows "run env (yielded (live_capture l)) outputs = (live_failed l, live_number l, live_outputs l) \<and>
    capture_run e (capture_start sockets) (if live_failed l = None then es else es @ [Cancel]) (live_capture l) \<and>
    final_outputs (drive_and_close env outputs (live_source (Inr (live_capture l)) sig)) =
      map output_close (live_outputs l) \<and>
    exit_status (drive_and_close env outputs (live_source (Inr (live_capture l)) sig)) =
      ending_status (live_end sig l)"
  using live_refines(1) [OF assms] live_refines(2) [OF assms, of sig] live_run_captures [OF assms]
  by (cases "drive_end (live_end sig l)") (auto simp flip: drive_end_status)

theorem live_pipeline_refines_witness:
  "\<exists>l. live_run sample_env Little (live_start [None] sample_outputs) [Readable 0 7 (Received [1] []), Get] l \<and>
    run sample_env [([1], 7, None)] sample_outputs = (live_failed l, live_number l, live_outputs l)"
proof -
  obtain l where l: "live_run sample_env Little (live_start [None] sample_outputs) [Readable 0 7 (Received [1] []), Get] l"
    "yielded (live_capture l) = [([1], 7, None)]"
    using sample_live by blast
  from live_pipeline_refines [OF l(1)] l show ?thesis by auto
qed

text \<open>
  C15: From the sockets to the consumer of the JSON output: at every moment of a live capture
  with --json in which no output has refused a frame, the text on standard output, cut into
  lines, is the list of the serialized records of the frames taken so far, decoded and
  numbered from 1, with no line missing or half written; and each line read as JSON gives back
  the record of its frame, under the one condition that the strings and keys of that record
  are Unicode scalar values (no lone surrogates). These frames are the first ones the sockets
  delivered, in order, and while the capture runs the rest is what still waits in the queue.
\<close>

theorem live_json_records:
  assumes "build_outputs open_write args = Inr (Inr outputs)" and "arg_json args"
    and "live_run env e (live_start sockets outputs) es l" and "live_failed l = None"
  shows "\<exists>stream others waiting. live_outputs l = NDJSON_output stream # others \<and>
    map Inr (split_lines [] stream) =
      map (\<lambda>f. json_dumps (frame_record (env_np env) (env_asdict env) f)) (decoded env 0 (yielded (live_capture l))) \<and>
    list_all2 (\<lambda>line f. readable (frame_record (env_np env) (env_asdict env) f) \<longrightarrow>
        json_loads line = Some (frame_record (env_np env) (env_asdict env) f))
      (split_lines [] stream) (decoded env 0 (yielded (live_capture l))) \<and>
    all_pushed e sockets es = items_of (yielded (live_capture l)) @ waiting \<and>
    (ended (live_capture l) = None \<longrightarrow> waiting = queue (live_capture l))"
proof -
  have "capture_run e (capture_start sockets) es (live_capture l)"
    using live_run_captures [OF assms(3)] assms(4) by simp
  from capture_run_inv [OF this] have waiting: "\<exists>waiting.
      all_pushed e sockets es = items_of (yielded (live_capture l)) @ waiting \<and>
      (ended (live_capture l) = None \<longrightarrow> waiting = queue (live_capture l))"
    by (auto simp: capture_inv_def split: option.splits capture_end.splits)
  obtain stream others where out: "live_outputs l = NDJSON_output stream # others"
    and seen: "ndjson_has_seen (env_np env) (env_asdict env) stream (decoded env 0 (yielded (live_capture l)))"
    using live_ndjson [OF assms] by blast
  note lines = ndjson_lines [OF seen]
  from waiting out lines loads_each [OF lines] show ?thesis by simp
qed

theorem live_json_records_witness:
  "\<exists>l stream others. live_run sample_env Little (live_start [None] sample_outputs) [Readable 0 7 (Received [1] []), Get] l \<and>
    live_outputs l = NDJSON_output stream # others \<and>
    map json_loads (split_lines [] stream) =
      [Some (frame_record sample_np sample_asdict (decode_frame sample_np [1] 1 7 None))]"
proof -
  obtain l where l: "live_run sample_env Little (live_start [None] sample_outputs) [Readable 0 7 (Received [1] []), Get] l"
    "yielded (live_capture l) = [([1], 7, None)]" "live_failed l = None"
    using sample_live by blast
  have "\<forall>f \<in> set (decoded sample_env 0 (yielded (live_capture l))).
      readable (frame_record (env_np sample_env) (env_asdict sample_env) f)"
    using sample_readable by (simp add: l(2) sample_env_def)
  with live_json_records [OF sample_outputs_built _ l(1,3)] l show ?thesis
    by (fastforce simp: sample_args_def sample_env_def list_all2_Cons2)
qed

text \<open>
  C16: Every way to write the options is understood alike: for a command line made of options
  in any order, each written with any of its names or an unambiguous abbreviation and its
  value in the next string, behind = or attached to a short name, the interfaces are all those
  given, in order; read, write and filter are the last one given; json and data are set if
  their flag is there; and a help or version option ends the program with 0, the first one
  telling which. The checks behind the parser see exactly these namespaces: a namespace comes
  out of some command line if and only if its interfaces are not the empty list (the option is
  absent, or given at least once), and then out of the one that gives every option by its long
  name with its value behind an =.
\<close>

theorem command_lines_parsed:
  assumes "list_all2 spelling acts words"
  shows "parse_args (concat words) =
    (case find informs acts of
       Some act \<Rightarrow> Inl (Information (fst act))
     | None \<Rightarrow> Inr
        \<lparr>arg_interface = (if values_of Act_interface acts = [] then None else Some (values_of Act_interface acts)),
         arg_read = (if values_of Act_read acts = [] then None else Some (last (values_of Act_read acts))),
         arg_write = (if values_of Act_write acts = [] then None else Some (last (values_of Act_write acts))),
         arg_filter = (if values_of Act_filter acts = [] then None else Some (last (values_of Act_filter acts))),
         arg_json = (Act_json \<in> fst ` set acts),
         arg_data = (Act_data \<in> fst ` set acts)\<rparr>) \<and>
    ((\<exists>argv. parse_args argv = Inr args) \<longleftrightarrow> arg_interface args \<noteq> Some []) \<and>
    (parse_args (command_line args) = Inr args \<longleftrightarrow> arg_interface args \<noteq> Some [])"
proof (rule conjI)
  have "list_all well_given acts"
    using assms spelling_well_given by (induction rule: list_all2_induct) auto
  from take_actions_result [OF this, of default_arguments] parse_spelled [OF assms]
  show "parse_args (concat words) = (case find informs acts of
       Some act \<Rightarrow> Inl (Information (fst act))
     | None \<Rightarrow> Inr
        \<lparr>arg_interface = (if values_of Act_interface acts = [] then None else Some (values_of Act_interface acts)),
         arg_read = (if values_of Act_read acts = [] then None else Some (last (values_of Act_read acts))),
         arg_write = (if values_of Act_write acts = [] then None else Some (last (values_of Act_write acts))),
         arg_filter = (if values_of Act_filter acts = [] then None else Some (last (values_of Act_filter acts))),
         arg_json = (Act_json \<in> fst ` set acts),
         arg_data = (Act_data \<in> fst ` set acts)\<rparr>)"
    by (simp add: namespace_after_def default_arguments_def last_value_def more_values_def
        cong: option.case_cong)
qed (use parse_args_range [of args] parse_command_line [of args] in blast)

theorem command_lines_parsed_witness:
  "parse_args [ascii ''-ieth0'', ascii ''--int=lo'', ascii ''--filter'', ascii ''tcp'', ascii ''-d''] =
    Inr \<lparr>arg_interface = Some [ascii ''eth0'', ascii ''lo''], arg_read = None, arg_write = None,
         arg_filter = Some (ascii ''tcp''), arg_json = False, arg_data = True\<rparr>"
proof -
  let ?acts = "[(Act_interface, Some (ascii ''eth0'')), (Act_interface, Some (ascii ''lo'')),
    (Act_filter, Some (ascii ''tcp'')), (Act_data, None)]"
  let ?words = "[[ascii ''-i'' @ ascii ''eth0''], [ascii ''--int'' @ EQ # ascii ''lo''],
    [ascii ''--filter'', ascii ''tcp''], [ascii ''-d'']]"
  have "spelling (Act_interface, Some (ascii ''eth0'')) [ascii ''-i'' @ ascii ''eth0'']"
    by (rule attached) (simp_all add: OPTION_STRINGS_def EQ_def)
  moreover have "spelling (Act_interface, Some (ascii ''lo'')) [ascii ''--int'' @ EQ # ascii ''lo'']"
    by (rule joined) (simp_all add: option_name_def abbreviates_def has_prefix_def OPTION_STRINGS_def DASH_def EQ_def)
  moreover have "spelling (Act_filter, Some (ascii ''tcp'')) [ascii ''--filter'', ascii ''tcp'']"
    by (rule separate) (simp_all add: option_name_def OPTION_STRINGS_def argument_like_plain DASH_def)
  moreover have "spelling (Act_data, None) [ascii ''-d'']"
    by (rule flag) (simp_all add: option_name_def OPTION_STRINGS_def)
  ultimately have "list_all2 spelling ?acts ?words" by simp
  from command_lines_parsed [OF this] show ?thesis
    by (simp add: values_of_def informs_def EQ_def)
qed

text \<open>
  C17: Before anything is opened, main refuses with exit code 2 exactly the argument
  combinations the documentation names: -r with -i, -r with --filter, -r and -w naming the
  same file, or a filter that is no canned name and that the compiler refuses with its own
  error (usage_fault). Packing the filter never raises, and the run ends for want of an output
  file exactly when the arguments and the filter are good and the -w target cannot be opened.
  For the process as a whole, whatever the command line: its exit status is 0, 1 or 2; it is 2
  exactly when the command line does not parse (help and version apart) or parses to such a
  combination, and 0 exactly for help, version and a run that ends without an exception.
\<close>

theorem startup_checks:
  "(exit_code (main env same e addr open_write os_message source args) = Some 2 \<longleftrightarrow> usage_fault same args)
   \<and> main env same e addr open_write os_message source args \<noteq> Startup_exn Uncaught_pack
   \<and> ((\<exists>message. main env same e addr open_write os_message source args = Cannot_open message) \<longleftrightarrow>
        \<not> usage_fault same args \<and> (\<exists>program. resolve_filter_program e addr args = Inr program) \<and>
        (\<exists>path. arg_write args = Some path \<and> open_write path \<noteq> None))
   \<and> process_status (main_argv env same e addr open_write os_message source argv) \<le> 2
   \<and> (process_status (main_argv env same e addr open_write os_message source argv) = 0 \<longleftrightarrow>
        ended_well (main_argv env same e addr open_write os_message source argv))
   \<and> (process_status (main_argv env same e addr open_write os_message source argv) = 2 \<longleftrightarrow>
        (\<exists>err. parse_args argv = Inl err \<and> (\<nexists>a. err = Information a)) \<or>
        (\<exists>parsed. parse_args argv = Inr parsed \<and> usage_fault same parsed))"
proof (intro conjI exit_2_iff cannot_open_iff)
  show "main env same e addr open_write os_message source args \<noteq> Startup_exn Uncaught_pack"
    using resolve_filter_never_packs [of e addr args]
    by (auto simp: main_def Let_def split: sum.split startup_error.split)
qed (simp_all only: process_status_argv process_status_2 exit_2_argv)

section \<open>The filter on the socket, and the capture machine\<close>

text \<open>
  C18: End to end from --filter to the socket: on a fully opened capture socket, every frame
  the kernel delivers arrived on the socket's own interface and makes the filter expression
  true (sem of a tree the documented grammar derives), for canned names and compiled
  expressions alike. The kernel is assumed to do what packet(7) and the cBPF documentation
  say: an attached program is read through its sock_fprog and must accept the frame, and a
  bound socket receives from its interface only.
\<close>

theorem socket_filter_end_to_end:
  assumes "arg_filter args = Some expr" and "resolve_filter_program e addr args = Inr (Some p)"
    and "filter_instructions expr = Inr prog" and "length prog \<le> 10000"
    and attached: "\<And>calls interface frame q. delivers calls interface frame \<Longrightarrow>
      Set_option SOL_SOCKET SO_ATTACH_FILTER (as_bytes e p) \<in> set calls \<Longrightarrow> read_fprog e p = Some q \<Longrightarrow> vm_accepts q frame"
    and bound: "\<And>calls interface frame name. delivers calls interface frame \<Longrightarrow>
      Bind_interface name \<in> set calls \<Longrightarrow> interface = name"
    and "open_socket os e (Some name) (Some p) = Inr calls" and "delivers calls interface frame"
  shows "interface = name \<and>
    (\<exists>ts n. tokenize expr = Inr ts \<and> derives_or ts n \<and> sem n frame = Some True)"
proof -
  have calls: "calls = open_socket_calls e (Some name) (Some p)"
    using assms(7) by (simp add: open_socket_def run_calls_Inr)
  have new: "new_FilterProgram e addr prog = Inr p"
    using filter_program_reads [OF assms(2,1)] assms(3) by (metis sum.inject(2))
  have "read_fprog e p = Some prog"
    using FilterProgram_handover [OF filter_instructions_fits [OF assms(3)], of e addr] new assms(4) by auto
  then have "vm_accepts prog frame"
    using attached [OF assms(8)] attach_in_calls(1) [of e p "Some name"] calls by simp
  moreover have "interface = name"
    using bound [OF assms(8)] attach_in_calls(2) [of name e "Some p"] calls by simp
  ultimately show ?thesis using filter_instructions_sem [OF assms(3,4)] by blast
qed

theorem socket_filter_end_to_end_witness:
  "\<exists>p. resolve_filter_program Little 4096 sample_args = Inr (Some p) \<and>
    (\<exists>ts n. tokenize (ascii ''ip'') = Inr ts \<and> derives_or ts n \<and>
       sem n (replicate 12 0 @ [8, 0] @ replicate 64 0) = Some True)"
proof -
  let ?prog = "[(0x28, 0, 0, 12), (0x15, 0, 1, 0x0800), (0x06, 0, 0, 0x40000), (0x06, 0, 0, 0)] :: SockFilter list"
  let ?frame = "replicate 12 0 @ [8, 0] @ replicate 64 0 :: bytes"
  have args: "arg_filter sample_args = Some (ascii ''ip'')" by (simp add: sample_args_def)
  have prog: "filter_instructions (ascii ''ip'') = Inr ?prog"
    using compile_ip by (simp add: filter_instructions_def CANNED_FILTERS_def)
  obtain p where p: "new_FilterProgram Little 4096 ?prog = Inr p" "read_fprog Little p = Some ?prog"
    using FilterProgram_handover [OF filter_instructions_fits [OF prog], of Little 4096] by auto
  then have resolved: "resolve_filter_program Little 4096 sample_args = Inr (Some p)"
    by (simp only: resolve_filter_cases [OF args] prog sum.case)
  define delivers where
    "delivers = (\<lambda>(calls :: syscall list) (i :: pystr) frame. calls = open_socket_calls Little (Some (ascii ''eth0'')) (Some p) \<and>
       i = ascii ''eth0'' \<and> vm_accepts ?prog frame)"
  have "is_ipv4 ?frame" by (simp add: is_ipv4_def num_def py_slice_def from_be_def)
  then have "sem (Proto (ascii ''ip'')) ?frame = Some True"
    using sem_holds [of ?frame "Proto (ascii ''ip'')"] by simp
  then have accepts: "vm_accepts ?prog ?frame"
    using compiled_accepts [OF resolve_ip(1)] by simp
  let ?calls = "open_socket_calls Little (Some (ascii ''eth0'')) (Some p)"
  have opened: "open_socket (\<lambda>_ _. None) Little (Some (ascii ''eth0'')) (Some p) = Inr ?calls"
    by (simp add: open_socket_def run_calls_Inr)
  have attached: "vm_accepts q frame" if "delivers calls i frame" "read_fprog Little p = Some q" for calls i frame q
    using that p(2) by (simp add: delivers_def)
  have bound: "i = name" if "delivers calls i frame" "Bind_interface name \<in> set calls" for calls i frame name
    using that by (auto simp: delivers_def open_socket_calls_def simp del: ascii_Cons)
  have delivered: "delivers ?calls (ascii ''eth0'') ?frame"
    using accepts by (simp only: delivers_def simp_thms)
  have "\<exists>ts n. tokenize (ascii ''ip'') = Inr ts \<and> derives_or ts n \<and> sem n ?frame = Some True"
    by (rule conjunct2 [OF socket_filter_end_to_end [where delivers = delivers,
        OF args resolved prog _ _ bound opened delivered]], simp, rule attached)
  with resolved show ?thesis by blast
qed

text \<open>
  C19: Which frames reach userspace around the opening of a filtered socket. Frames arrive on
  any interface after any number of the calls _open_socket makes (socket, timestamps, attach,
  lock, bind, non-blocking) and the kernel keeps those it delivers to a socket in that state;
  the generator can read and yield all it kept, in order, tagged with the socket's interface.
  Among them is every frame that arrived between the socket call and the attach call, whatever
  it holds and wherever it came from; only a frame that arrived once the filter was attached
  is sure to match it, and only one that arrived once the socket was bound to come from the
  interface it is tagged with. The documentation's "non-matching frames never reach userspace"
  so fails for frames of this window, which nothing discards. The kernel is assumed to do what
  packet(7) and the cBPF documentation say: nothing comes without a socket, everything comes
  to an unfiltered and unbound one, an attached program must accept the frame, a bound socket
  receives from its interface only.
\<close>

theorem open_socket_window:
  assumes created: "\<And>calls interface frame. delivers calls interface frame \<Longrightarrow> Create_socket ETH_P_ALL \<in> set calls"
    and unfiltered: "\<And>calls interface frame. Create_socket ETH_P_ALL \<in> set calls \<Longrightarrow>
      (\<And>level option value. Set_option level option value \<notin> set calls) \<Longrightarrow>
      (\<And>name. Bind_interface name \<notin> set calls) \<Longrightarrow> delivers calls interface frame"
    and attached: "\<And>calls interface frame q. delivers calls interface frame \<Longrightarrow>
      Set_option SOL_SOCKET SO_ATTACH_FILTER (as_bytes e p) \<in> set calls \<Longrightarrow> read_fprog e p = Some q \<Longrightarrow> vm_accepts q frame"
    and bound: "\<And>calls interface frame name. delivers calls interface frame \<Longrightarrow>
      Bind_interface name \<in> set calls \<Longrightarrow> interface = name"
    and "read_fprog e p = Some prog" and "open_socket os e (Some name) (Some p) = Inr calls"
  shows "(\<exists>es s. capture_run e (capture_start [Some name]) es s \<and> ended s = None \<and> queue s = [] \<and>
      yielded s = map (\<lambda>(made, interface, frame). (frame, now, Some name)) (kernel_queue delivers calls arrivals) \<and>
      (\<forall>(made, interface, frame) \<in> set arrivals.
         1 \<le> made \<and> made \<le> 2 \<longrightarrow> (frame, now, Some name) \<in> set (yielded s))) \<and>
    (\<forall>(made, interface, frame) \<in> set (kernel_queue delivers calls arrivals).
       1 \<le> made \<and> (3 \<le> made \<longrightarrow> vm_accepts prog frame) \<and> (5 \<le> made \<longrightarrow> interface = name))"
proof (intro conjI)
  have calls: "calls = [Create_socket ETH_P_ALL, Set_flag SOL_SOCKET SO_TIMESTAMPNS 1,
      Set_option SOL_SOCKET SO_ATTACH_FILTER (as_bytes e p), Set_flag SOL_SOCKET SO_LOCK_FILTER 1,
      Bind_interface name, Set_nonblocking]"
    using assms(6) unfolding open_socket_def run_calls_Inr by (simp add: open_socket_calls_def)
  have early: "delivers (take made calls) interface frame" if "1 \<le> made" "made \<le> 2" for made interface frame
  proof -
    from that have "made = 1 \<or> made = 2" by linarith
    then show ?thesis by (intro unfiltered) (auto simp: calls)
  qed
  obtain es s where run: "capture_run e (capture_start [Some name]) es s" "ended s = None" "queue s = []"
    and yielded: "yielded s = map (\<lambda>frame. (frame, now, Some name))
      (map (\<lambda>(made, interface, frame). frame) (kernel_queue delivers calls arrivals))"
    using capture_reads_yields by blast
  have "(frame, now, Some name) \<in> set (yielded s)"
    if "(made, interface, frame) \<in> set arrivals" "1 \<le> made" "made \<le> 2" for made interface frame
    using that early [OF that(2,3), of interface frame] by (force simp: yielded kernel_queue_def)
  with run yielded show "\<exists>es s. capture_run e (capture_start [Some name]) es s \<and> ended s = None \<and> queue s = [] \<and>
      yielded s = map (\<lambda>(made, interface, frame). (frame, now, Some name)) (kernel_queue delivers calls arrivals) \<and>
      (\<forall>(made, interface, frame) \<in> set arrivals.
         1 \<le> made \<and> made \<le> 2 \<longrightarrow> (frame, now, Some name) \<in> set (yielded s))"
    by (intro exI [of _ es] exI [of _ s]) (auto simp: split_def o_def)
  have prefix: "set (take n calls) \<subseteq> set (take made calls)" if "n \<le> made" for n made
    using that by (rule set_take_subset_set_take)
  have "1 \<le> made" if "delivers (take made calls) interface frame" for made interface frame
    using created [OF that] by (cases made) simp_all
  moreover have "vm_accepts prog frame" if "delivers (take made calls) interface frame" "3 \<le> made" for made interface frame
    using attached [OF that(1) _ assms(5)] prefix [OF that(2)] by (simp add: calls)
  moreover have "interface = name" if "delivers (take made calls) interface frame" "5 \<le> made" for made interface frame
    using bound [OF that(1), of name] prefix [OF that(2)] by (simp add: calls)
  ultimately show "\<forall>(made, interface, frame) \<in> set (kernel_queue delivers calls arrivals).
      1 \<le> made \<and> (3 \<le> made \<longrightarrow> vm_accepts prog frame) \<and> (5 \<le> made \<longrightarrow> interface = name)"
    by (auto simp: kernel_queue_def)
qed

theorem open_socket_window_witness:
  "\<exists>p es s. new_FilterProgram Little 4096 [(0x06, 0, 0, 0)] = Inr p \<and>
    open_socket (\<lambda>_ _. None) Little (Some (ascii ''eth0'')) (Some p) =
      Inr (open_socket_calls Little (Some (ascii ''eth0'')) (Some p)) \<and>
    \<not> vm_accepts [(0x06, 0, 0, 0)] [1] \<and>
    capture_run Little (capture_start [Some (ascii ''eth0'')]) es s \<and>
    ([1], 7, Some (ascii ''eth0'')) \<in> set (yielded s)"
proof -
  let ?eth0 = "ascii ''eth0''" and ?prog = "[(0x06, 0, 0, 0)] :: SockFilter list"
  have fits: "\<forall>i \<in> set ?prog. insn_fits i" by simp
  obtain p where p: "new_FilterProgram Little 4096 ?prog = Inr p" "read_fprog Little p = Some ?prog"
    using FilterProgram_handover [OF fits, of Little 4096] by auto
  let ?calls = "open_socket_calls Little (Some ?eth0) (Some p)" and ?arrivals = "[(2, ascii ''lo'', [1])] :: arrival list"
  define delivers where "delivers = (\<lambda>calls (i :: pystr) frame. Create_socket ETH_P_ALL \<in> set calls \<and>
      (\<forall>level option value. Set_option level option value \<in> set calls \<longrightarrow> vm_accepts ?prog frame) \<and>
      (\<forall>name. Bind_interface name \<in> set calls \<longrightarrow> i = name))"
  have opened: "open_socket (\<lambda>_ _. None) Little (Some ?eth0) (Some p) = Inr ?calls"
    by (simp add: open_socket_def run_calls_Inr)
  have created: "Create_socket ETH_P_ALL \<in> set calls" if "delivers calls i frame" for calls i frame
    using that by (simp add: delivers_def)
  have unfiltered: "delivers calls i frame" if "Create_socket ETH_P_ALL \<in> set calls"
      "\<And>level option value. Set_option level option value \<notin> set calls" "\<And>name. Bind_interface name \<notin> set calls"
    for calls i frame
    using that by (simp add: delivers_def)
  have attached: "vm_accepts q frame" if "delivers calls i frame"
      "Set_option SOL_SOCKET SO_ATTACH_FILTER (as_bytes Little p) \<in> set calls" "read_fprog Little p = Some q"
    for calls i frame q
    using that p(2) by (auto simp: delivers_def)
  have bound: "i = name" if "delivers calls i frame" "Bind_interface name \<in> set calls" for calls i frame name
    using that by (simp add: delivers_def)
  have "\<not> vm_accepts ?prog [1]" by code_simp
  moreover have "\<exists>es s. capture_run Little (capture_start [Some ?eth0]) es s \<and> ended s = None \<and> queue s = [] \<and>
      yielded s = map (\<lambda>(made, interface, frame). (frame, 7, Some ?eth0)) (kernel_queue delivers ?calls ?arrivals) \<and>
      (\<forall>(made, interface, frame) \<in> set ?arrivals.
         1 \<le> made \<and> made \<le> 2 \<longrightarrow> (frame, 7, Some ?eth0) \<in> set (yielded s))"
    by (rule conjunct1 [OF open_socket_window [where delivers = delivers, OF _ _ _ _ p(2) opened]])
      (erule created, (rule unfiltered; assumption), (rule attached; assumption), (erule bound; assumption))
  then obtain es s where "capture_run Little (capture_start [Some ?eth0]) es s"
    and "\<forall>(made, interface, frame) \<in> set ?arrivals.
       1 \<le> made \<and> made \<le> 2 \<longrightarrow> (frame, 7, Some ?eth0) \<in> set (yielded s)"
    by (elim exE conjE)
  moreover from this(2) have "([1], 7, Some ?eth0) \<in> set (yielded s)" by (simp del: ascii_Cons)
  ultimately show ?thesis using p(1) opened by blast
qed

text \<open>
  C20: In every run of the capture machine (any interleaving of readable sockets, reads by the
  consumer and a cancellation) the frames yielded are a prefix, in order, without loss or
  duplication, of what the readers pushed on the queue; while it runs the rest is exactly the
  queue; it ends by a read error only at that error's place in the order, nothing read after
  it being yielded; and once it has ended no socket stays registered.
\<close>

theorem capture_fifo:
  assumes "capture_run e (capture_start sockets) es s"
  shows "\<exists>rest. all_pushed e sockets es = items_of (yielded s) @ rest \<and>
    (ended s = None \<longrightarrow> rest = queue s \<and> registered s = sockets) \<and>
    (\<forall>err. ended s = Some (Raised err) \<longrightarrow> rest = Read_error err # queue s) \<and>
    (ended s \<noteq> None \<longrightarrow> registered s = [])"
  using capture_run_inv [OF assms]
  by (auto simp: capture_inv_def split: option.splits capture_end.splits)

theorem capture_fifo_witness:
  "\<exists>s. capture_run Little (capture_start [Some (ascii ''eth0'')])
      [Readable 0 7 (Received [1] []), Readable 0 8 (Recv_failed (Other_OSError [])), Get] s \<and>
    all_pushed Little [Some (ascii ''eth0'')]
      [Readable 0 7 (Received [1] []), Readable 0 8 (Recv_failed (Other_OSError [])), Get] =
      items_of (yielded s) @ [Read_error (Other_OSError [])]"
proof -
  let ?es = "[Readable 0 7 (Received [1] []), Readable 0 8 (Recv_failed (Other_OSError [])), Get]"
  have "\<exists>s. capture_run Little (capture_start [Some (ascii ''eth0'')]) ?es s \<and> ended s = None \<and>
      queue s = [Read_error (Other_OSError [])]"
    by (simp add: capture.reaches_steps capture_step_def capture_start_def on_readable_def get_item_def)
  with capture_fifo show ?thesis by fastforce
qed

text \<open>
  C21: No frame stays behind: from any running state of the capture machine with n frames at
  the head of the queue, n reads by the consumer are possible and yield exactly those frames
  in order, and if a read error follows them the next read raises it and unregisters every
  socket.
\<close>

theorem capture_drains:
  assumes "capture_run e (capture_start sockets) es s" and "ended s = None" and "queue s = items_of fs @ behind"
  shows "\<exists>s'. capture_run e (capture_start sockets) (es @ replicate (length fs) Get) s' \<and>
    yielded s' = yielded s @ fs \<and> queue s' = behind \<and> ended s' = None \<and>
    (\<forall>err q. behind = Read_error err # q \<longrightarrow>
      (\<exists>s''. capture_step e Get s' = Some s'' \<and> ended s'' = Some (Raised err) \<and> registered s'' = []))"
  using assms(1,2) capture_drain [OF assms(2,3), of e] unfolding capture.reaches_append
  by (intro exI [of _ "s\<lparr>queue := behind, yielded := yielded s @ fs\<rparr>"])
    (auto simp: capture_step_def get_item_def stop_with_def)

theorem capture_drains_witness:
  "\<exists>s'. capture_run Little (capture_start [None]) ([Readable 0 7 (Received [1] [])] @ replicate 1 Get) s' \<and>
    yielded s' = [([1], 7, None)] \<and> queue s' = []"
proof -
  let ?s = "(capture_start [None])\<lparr>queue := [Captured [1] 7 None]\<rparr>"
  have "capture_run Little (capture_start [None]) [Readable 0 7 (Received [1] [])] ?s"
    by (simp add: capture.reaches_single capture_step_def capture_start_def on_readable_def)
  from capture_drains [OF this, of "[([1], 7, None)]" "[]"] show ?thesis by (auto simp: capture_start_def)
qed

text \<open>
  C22: A frame's timestamp is the kernel's: whatever other control messages surround it and
  whatever padding follows it, the struct timespec of an SCM_TIMESTAMPNS message is read back
  in either byte order as seconds times 10^9 plus nanoseconds, exactly.
\<close>

theorem kernel_timestamp:
  assumes "list_all (\<lambda>(level, kind, data). \<not> (level = SOL_SOCKET \<and> kind = SCM_TIMESTAMPNS)) before"
    and "sec < 9223372036854775808" and "nsec < 1000000000"
  shows "parse_timestamp e (before @ (SOL_SOCKET, SCM_TIMESTAMPNS, timespec_bytes e sec nsec @ pad) # after) =
    Inr (Some (int sec * 1000000000 + int nsec))"
  using assms by (intro parse_timestamp_kernel) (auto simp: list_all_iff)

theorem kernel_timestamp_witness:
  "parse_timestamp Big ([(1, 2, [])] @ (SOL_SOCKET, SCM_TIMESTAMPNS, timespec_bytes Big 1700000000 123456789 @ [0]) # []) =
    Inr (Some 1700000000123456789)"
  using kernel_timestamp [of "[(1, 2, [])]" 1700000000 123456789 Big "[0]" "[]"]
  by (simp add: SOL_SOCKET_def SCM_TIMESTAMPNS_def)

text \<open>
  C23: Opening the sockets of several interfaces is all or nothing: the capture starts with
  one socket per name, in order, exactly when every call for every name succeeds; otherwise
  the sockets opened before the failing one, and only those, are closed in reverse order, and
  the failing call's error is raised.
\<close>

theorem sockets_opened_or_closed:
  "case open_all os e program [] names of
     Inr sockets \<Rightarrow> sockets = names \<and> list_all (opens os e program) names
   | Inl (err, closed) \<Rightarrow>
       (\<exists>pre name post. names = pre @ name # post \<and> list_all (opens os e program) pre \<and>
          open_socket os e name program = Inl err \<and> closed = rev pre)"
  using open_all_Inr [of os e program "[]" names] open_all_Inl [of os e program "[]" names]
  by (auto split: sum.split prod.split)

section \<open>Capture files\<close>

text \<open>
  C24: What PcapWriter writes reads back: the repository's own pcap reader returns the frames'
  bytes, reading the records with their times returns the nanosecond timestamps unchanged, and
  the file passes the link-type check as Ethernet.
\<close>

theorem pcap_roundtrip:
  assumes "written frames = Inr content"
  shows "read_pcap content = Inr (map fst frames) \<and> read_records (drop 24 content) = frames \<and>
    declared_linktype content = Inr (Some 1)"
  by (rule written_read_back [OF assms])

theorem pcap_roundtrip_witness:
  "read_pcap (pcap_header @ record_bytes ([0xDE, 0xAD], 1700000000123456789)) = Inr [[0xDE, 0xAD]]"
  using pcap_roundtrip [of "[([0xDE, 0xAD], 1700000000123456789)]"
      "pcap_header @ record_bytes ([0xDE, 0xAD], 1700000000123456789)"]
  by (simp add: written_Inr record_fits_def)

text \<open>
  C25: Writing a sequence of frames succeeds exactly when every timestamp is non-negative and
  below 2^32 seconds and every frame is shorter than 2^32 bytes, and the file is then the
  24-byte header and one record per frame; any other frame raises struct.error. Used as a
  context manager, the writer lets that exception through, but leaves a closed and complete
  file of the frames before the refused one, which reads back.
\<close>

theorem pcap_write_limits:
  "written frames =
    (if list_all (\<lambda>(data, ts). 0 \<le> ts \<and> ts < 4294967296 * 1000000000 \<and> length data < 4294967296) frames
     then Inr (pcap_header @ concat (map record_bytes frames)) else Inl PackError) \<and>
   (\<exists>content. with_PcapWriter (write_each frames) =
      Inr (if list_all record_fits frames then None else Some PackError,
           \<lparr>pcap_file = content, pcap_closed = True\<rparr>) \<and>
    read_pcap content = Inr (map fst (takeWhile record_fits frames)) \<and>
    read_records (drop 24 content) = takeWhile record_fits frames)"
proof
  have fits: "list_all (\<lambda>(data, ts). 0 \<le> ts \<and> ts < 4294967296 * 1000000000 \<and> length data < 4294967296) frames =
      list_all record_fits frames"
    by (simp add: list_all_iff record_fits_def split_def)
  show "written frames =
    (if list_all (\<lambda>(data, ts). 0 \<le> ts \<and> ts < 4294967296 * 1000000000 \<and> length data < 4294967296) frames
     then Inr (pcap_header @ concat (map record_bytes frames)) else Inl PackError)"
  proof (cases "list_all record_fits frames")
    case True
    then show ?thesis by (simp only: fits if_True written_Inr)
  next
    case False
    have "\<exists>err. written frames = Inl err"
      using False written_Inr [of frames] by (cases "written frames") auto
    then show ?thesis using written_error False by (auto simp only: fits if_False)
  qed
  show "\<exists>content. with_PcapWriter (write_each frames) =
      Inr (if list_all record_fits frames then None else Some PackError,
           \<lparr>pcap_file = content, pcap_closed = True\<rparr>) \<and>
    read_pcap content = Inr (map fst (takeWhile record_fits frames)) \<and>
    read_records (drop 24 content) = takeWhile record_fits frames"
    using with_writer [of frames] written_read_back [OF written_prefix [of frames]] by simp
qed

text \<open>
  C26: On a well-formed pcapng file (any number of sections, each in its own byte order, with
  any blocks) the link-type check computes what its documentation says: the first non-Ethernet
  link type among all Interface Description Blocks of all sections, Ethernet when there are
  only Ethernet ones, and nothing when there is none.
\<close>

theorem pcapng_linktypes:
  assumes "ss \<noteq> []" and "list_all wf_section ss"
  shows "declared_linktype (concat (map encode_section ss)) =
    Inr (case find (\<lambda>l. l \<noteq> 1) (concat (map section_links ss)) of
           Some l \<Rightarrow> Some l
         | None \<Rightarrow> if concat (map section_links ss) = [] then None else Some 1)"
  using declared_linktype_pcapng [OF assms] by (simp add: first_foreign_find)

theorem pcapng_linktypes_witness:
  "declared_linktype (concat (map encode_section
     [\<lparr>sec_endian = Little, sec_header = replicate 12 0, sec_blocks = [\<lparr>blk_type = 1, blk_body = [1, 0, 0, 0, 0, 0, 0, 0]\<rparr>]\<rparr>,
      \<lparr>sec_endian = Big, sec_header = replicate 12 0, sec_blocks = [\<lparr>blk_type = 1, blk_body = [0, 101, 0, 0, 0, 0, 0, 0]\<rparr>]\<rparr>])) =
    Inr (Some 101)"
  by (subst pcapng_linktypes)
    (simp_all add: wf_section_def wf_block_def section_links_def block_links_def from_be_def)

text \<open>
  C27: On every byte string the link-type check returns (it never reads past the data and
  never loops), and read_captures yields frames only when the declared link type is Ethernet
  or cannot be determined: any other one is refused before the first frame, and the library's
  diagnosis of a malformed file ends the frames it did read.
\<close>

theorem replay_guard:
  "\<exists>linktype. declared_linktype data = Inr linktype \<and>
    read_captures read_library data =
      (if linktype = None \<or> linktype = Some 1
       then (fst (read_library data), map_option MalformedCapture (snd (read_library data)))
       else ([], Some (NotEthernet (the linktype))))"
  using read_captures_cases [of data read_library] by auto

section \<open>The decoder\<close>

text \<open>
  C28: What decoding says of any frame, IP or not. The captured bytes and their number are
  kept exactly; the payload is what follows the bytes the chain walk consumed, and the error
  is the one it stopped at. The frame is called truncated if and only if its layers hold an
  IPv4 or IPv6 header and the frame ends before 14 bytes plus the length the first such header
  declares, so never without an IP layer. For a datagram directly behind the Ethernet header
  this is exact: set if and only if the frame ends before the datagram does. For one that
  starts later (a VLAN tag or a tunnel in between) a flagged frame does end early, but one
  that is short by no more than the bytes in between is missed. The malformed-length flag is
  set if and only if the first IPv4 header declares a total length that is not 0 and smaller
  than the header.
\<close>

theorem decode_diagnoses:
  "frame_raw (decode_frame np data number ts interface) = data \<and>
   frame_length (decode_frame np data number ts interface) = length data \<and>
   frame_payload (decode_frame np data number ts interface) =
     drop (consumed_bytes (decode_chain np data MAX_LAYERS)) data \<and>
   frame_error (decode_frame np data number ts interface) = stopped_by (decode_chain np data MAX_LAYERS) \<and>
   (frame_truncated (decode_frame np data number ts interface) \<longleftrightarrow>
     (\<exists>start n. ip_datagram np (frame_layers (decode_frame np data number ts interface)) = Some (start, n) \<and>
        length data < 14 + n)) \<and>
   (\<forall>start n. ip_datagram np (frame_layers (decode_frame np data number ts interface)) = Some (start, n) \<longrightarrow>
      (start = 14 \<longrightarrow>
        (frame_truncated (decode_frame np data number ts interface) \<longleftrightarrow> length data < start + n)) \<and>
      (14 \<le> start \<and> frame_truncated (decode_frame np data number ts interface) \<longrightarrow> length data < start + n) \<and>
      (14 + n \<le> length data \<and> length data < start + n \<longrightarrow>
        \<not> frame_truncated (decode_frame np data number ts interface))) \<and>
   (frame_malformed_length (decode_frame np data number ts interface) \<longleftrightarrow>
     (\<exists>ip. frame_layer np (decode_frame np data number ts interface) IPv4_class = Some ip \<and>
        0 < total_length np ip \<and> total_length np ip < header_len np ip))"
proof -
  have "frame_malformed_length (decode_frame np data number ts interface) \<longleftrightarrow>
      ip_length_malformed np (layers (decode_chain np data MAX_LAYERS))"
    by (simp add: decode_frame_def Let_def)
  then show ?thesis
    by (simp add: decode_frame_parts frame_layer_def truncated_iff ip_length_malformed_first)
qed

theorem decode_diagnoses_witness:
  "frame_truncated (decode_frame sample_np (replicate 41 0) 1 0 None) \<and>
    \<not> frame_truncated (decode_frame sample_np (replicate 42 0) 1 0 None)"
proof -
  have ip: "ip_datagram sample_np (layers (decode_chain sample_np data MAX_LAYERS)) = Some (14, 28)" for data
    by (simp add: sample_np_def sample_isinstance_def)
  show ?thesis
    using decode_diagnoses [of sample_np "replicate 41 0" 1 0 None]
      decode_diagnoses [of sample_np "replicate 42 0" 1 0 None] ip
    by (simp add: decode_frame_parts)
qed

section \<open>The outputs\<close>

text \<open>
  C29: What a sender writes as free text cannot steer the terminal: whatever bytes a frame's
  payload holds and whatever strings its DNS question names, answer names and answer data are,
  every line OutputToScreen prints for the frame consists of characters str.isprintable()
  takes and newlines. The code prints everything else as it is, and the theorem assumes each
  of these to be such text already: the frame's interface name and its decoding-error text,
  the class names of the layers, every other string attribute of a layer the library gives
  (addresses, names of types, flags and options, option values, hexadecimal fields), the
  messages of the errors the library raises when options, group records, DNS sections or DHCP
  fields are read, and the local time; and that isprintable() takes printable ASCII.
\<close>

theorem screen_output_safe:
  assumes "library_safe np env" and "screen_lines np env display_payload frame = Inr printed"
    and "optional_safe (isprintable env) (frame_interface frame)"
    and "optional_safe (isprintable env) (frame_error frame)"
  shows "list_all (terminal_safe (isprintable env)) printed"
  by (rule screen_lines_safe [OF assms])

theorem screen_output_safe_witness:
  "\<exists>printed. screen_lines sample_np sample_screen True
      (decode_frame sample_np (replicate 42 0 @ [27, 91, 51, 49, 109]) 1 0 None) = Inr printed \<and>
    list_all (terminal_safe ascii_printable) printed"
proof -
  let ?f = "decode_frame sample_np (replicate 42 0 @ [27, 91, 51, 49, 109]) 1 0 None"
  have "clock_shows sample_screen ?f" by (simp add: clock_shows_def sample_screen_def sample_frame_parts)
  then obtain printed where printed: "screen_lines sample_np sample_screen True ?f = Inr printed"
    using screen_lines_Inr_iff by blast
  have "optional_safe (isprintable sample_screen) (frame_interface ?f)"
    "optional_safe (isprintable sample_screen) (frame_error ?f)"
    by (simp_all add: optional_safe_def decode_frame_def sample_np_def Let_def)
  from screen_output_safe [OF sample_library_safe printed this] printed show ?thesis
    by (simp add: sample_screen_def)
qed

text \<open>
  The text made safe for the terminal holds only printable characters and newlines, as many newlines as before, and is the text itself when that was safe; each escape is printable ASCII, holds no newline, and spells the code point it stands for in hexadecimal.
\<close>

theorem sanitize_terminal:
  assumes "printable_ascii_table printable"
  shows "terminal_safe printable (sanitize_for_terminal printable cs) \<and>
    length (filter (\<lambda>c. c = NEWLINE) (sanitize_for_terminal printable cs)) = length (filter (\<lambda>c. c = NEWLINE) cs) \<and>
    (terminal_safe printable cs \<longrightarrow> sanitize_for_terminal printable cs = cs) \<and>
    (\<not> printable c \<and> c \<noteq> NEWLINE \<longrightarrow>
       sanitize_for_terminal printable [c] = escape_char c \<and> hex_value (drop 2 (escape_char c)) = c)"
  using sanitize_safe [OF assms] sanitize_newlines sanitize_id escape_char_value
  by (simp add: sanitize_for_terminal_def [of _ "[c]"])

theorem sanitize_terminal_witness:
  "sanitize_for_terminal ascii_printable [27] = escape_char 27 \<and> hex_value (drop 2 (escape_char 27)) = 27"
  using sanitize_terminal [of ascii_printable "[]" 27]
  by (simp add: printable_ascii_table_def ascii_printable_def NEWLINE_def)

text \<open>
  C30: The statistics are exact after any sequence of frames: the counters are the number of
  frames, their bytes, the frames with an error or an impossible length, and the truncated
  ones; the tally has each bucket once, in the order first seen, with the number of frames
  whose innermost known layer it names, and its counts sum to the number of frames.
\<close>

theorem statistics_exact:
  "foldl (\<lambda>st f. stats_update np f st) new_StatsCollector fs =
     \<lparr>stats_frames = length fs,
      stats_bytes = sum_list (map frame_length fs),
      stats_malformed = length (filter counts_as_malformed fs),
      stats_truncated = length (filter frame_truncated fs),
      stats_buckets = map (\<lambda>name. (name, count_list (map (frame_bucket np) fs) name))
        (first_seen (map (frame_bucket np) fs))\<rparr>
   \<and> distinct (map fst (stats_buckets (foldl (\<lambda>st f. stats_update np f st) new_StatsCollector fs)))
   \<and> sum_list (map snd (stats_buckets (foldl (\<lambda>st f. stats_update np f st) new_StatsCollector fs))) = length fs"
proof -
  have "foldl (\<lambda>st f. stats_update np f st) new_StatsCollector fs = stats_of np fs"
    by (induction fs rule: rev_induct) (simp_all add: stats_of_Nil stats_update_of)
  then show ?thesis
    using sum_counter_of [of "map (frame_bucket np) fs"]
    by (simp add: stats_of_def counter_of_def o_def)
qed

text \<open>
  The report lists the buckets by falling count, buckets of equal count in the order first seen, every bucket once with its own count: the printed line joins a list that is sorted and, for every count, has the tally's buckets of that count in their order.
\<close>

theorem statistics_report_order:
  "\<exists>items. tallies buckets = join (ascii '', '') (map (\<lambda>(name, count). name @ ascii '': '' @ decimal count) items)
   \<and> sorted (map (\<lambda>item. - int (snd item)) items)
   \<and> (\<forall>k. filter (\<lambda>item. snd item = k) items = filter (\<lambda>item. snd item = k) buckets)"
proof -
  have "filter (\<lambda>item. snd item = k) (sort_key (\<lambda>item. - int (snd item)) buckets) =
      filter (\<lambda>item. snd item = k) buckets" for k
    using sort_key_stable [of "\<lambda>item. - int (snd item)" "- int k" buckets] by simp
  then show ?thesis
    by (intro exI [of _ "sort_key (\<lambda>item. - int (snd item)) buckets"]) (simp add: tallies_def)
qed

text \<open>
  C31: The NDJSON stream is read back exactly: it has one line per frame, in order, of
  printable ASCII whatever strings and bytes the frames hold; and a JSON reader applied to a
  line gives the record of its frame, with every number, flag, null, string (escapes and
  surrogate pairs undone), list and dictionary with its keys in order, for every record whose
  strings are Unicode text.
\<close>

theorem ndjson_one_line_per_frame:
  assumes "feed (ndjson_update np asdict) fs [] = Inr stream"
  shows "map Inr (split_lines [] stream) = map (\<lambda>f. json_dumps (frame_record np asdict f)) fs \<and>
    list_all (\<lambda>line. list_all ascii_printable line) (split_lines [] stream) \<and>
    (list_all (\<lambda>f. readable (frame_record np asdict f)) fs \<longrightarrow>
       map json_loads (split_lines [] stream) = map (\<lambda>f. Some (frame_record np asdict f)) fs)"
proof -
  have "ndjson_has_seen np asdict [] []" by (simp add: ndjson_has_seen_def)
  from ndjson_output.feed_seen [OF this assms] have seen: "ndjson_has_seen np asdict stream fs" by simp
  from ndjson_lines [OF this] have split: "map Inr (split_lines [] stream) = map (\<lambda>f. json_dumps (frame_record np asdict f)) fs" .
  have "list_all ascii_printable line" if "line \<in> set (split_lines [] stream)" for line
  proof -
    from that have "Inr line \<in> set (map (\<lambda>f. json_dumps (frame_record np asdict f)) fs)"
      unfolding split [symmetric] by simp
    then show ?thesis using dumps_printable(1) by (fastforce simp: list_all_iff dest: sym)
  qed
  with split loads_lines [OF split] show ?thesis by (simp add: list_all_iff)
qed

theorem ndjson_one_line_per_frame_witness:
  "\<exists>stream. feed (ndjson_update sample_np sample_asdict) [sample_frame 1, sample_frame 2] [] = Inr stream \<and>
    map json_loads (split_lines [] stream) =
      [Some (frame_record sample_np sample_asdict (sample_frame 1)),
       Some (frame_record sample_np sample_asdict (sample_frame 2))]"
proof -
  have "ndjson_has_seen sample_np sample_asdict [] []" by (simp add: ndjson_has_seen_def)
  then obtain stream where s: "feed (ndjson_update sample_np sample_asdict) [sample_frame 1, sample_frame 2] [] = Inr stream"
    using ndjson_output.feed_accepted [of sample_np sample_asdict "[]" "[]" "[sample_frame 1, sample_frame 2]"]
    by (auto simp: sample_frame_def sample_serializable)
  from ndjson_one_line_per_frame [OF s] s sample_readable show ?thesis by simp
qed

text \<open>
  C32: Decoding a payload for display keeps text: bytes that begin with the UTF-8 encoding of
  a text (any Unicode scalar values, one to four bytes each) are shown as that text, and what
  follows is decoded on its own; whatever the bytes, only Unicode scalar values come out, so
  no surrogate or out-of-range code point reaches the terminal.
\<close>

theorem payload_text_kept:
  assumes "list_all scalar_value s"
  shows "decode_ignore (utf8_encode s @ bs) = s @ decode_ignore bs \<and> list_all scalar_value (decode_ignore bs)"
  using decode_encode [OF assms] decode_scalar by simp

theorem payload_text_kept_witness:
  "decode_ignore (utf8_encode [65, 0xE9, 0x20AC, 0x1F600] @ [0xFF]) =
     [65, 0xE9, 0x20AC, 0x1F600] @ decode_ignore [0xFF] \<and> list_all scalar_value (decode_ignore [0xFF])"
  by (rule payload_text_kept) (simp add: scalar_value_def high_surrogate_def low_surrogate_def)

text \<open>
  C33: What a layer's record in the NDJSON output holds, for every layer: the key "type"
  first, no key twice, and for each field of the dataclass the last value of that name, bytes
  as hexadecimal text; no other key. "type" is the name of the layer's class if the class has
  no field called type; if it has one, as ICMP and IGMP do for their message type, the field
  replaces the name, so the record no longer says what layer it is: two layers of different
  classes with the same fields have the same record.
\<close>

theorem ndjson_type_overwritten:
  "(\<exists>items. layer_record np asdict layer = Py_dict items \<and> distinct (map fst items) \<and>
      (\<exists>keys. map fst items = ascii ''type'' # keys) \<and>
      (\<forall>k. map_of items k =
        (case map_of (rev (asdict layer)) k of
           Some value \<Rightarrow> Some (json_safe value)
         | None \<Rightarrow> if k = ascii ''type'' then Some (Py_str (class_name np layer)) else None))) \<and>
   (ascii ''type'' \<in> fst ` set (asdict layer) \<and> asdict other = asdict layer \<longrightarrow>
      layer_record np asdict other = layer_record np asdict layer)"
  using layer_record_keys [of np asdict layer] layer_record_class [of asdict layer other np] by argo

theorem ndjson_type_overwritten_witness:
  "\<exists>items. layer_record sample_np (\<lambda>l. [(ascii ''type'', Py_int 8), (ascii ''code'', Py_int 0)]) 2 = Py_dict items \<and>
    map_of items (ascii ''type'') = Some (Py_int 8) \<and>
    layer_record sample_np (\<lambda>l. [(ascii ''type'', Py_int 8), (ascii ''code'', Py_int 0)]) 1 = Py_dict items"
proof -
  let ?asdict = "\<lambda>l::nat. [(ascii ''type'', Py_int 8), (ascii ''code'', Py_int 0)]"
  have "map_of (rev (?asdict 2)) (ascii ''type'') = Some (Py_int 8)" "json_safe (Py_int 8) = Py_int 8"
    "ascii ''type'' \<in> fst ` set (?asdict 2)"
    by (simp_all add: json_safe_def)
  with ndjson_type_overwritten [of sample_np ?asdict 2 1] show ?thesis by (metis option.simps(5))
qed

section \<open>More on filters: limits, hand-over, lexing\<close>

text \<open>
  On frames long enough for every field (and IPv4 or IPv6 where a port is tested), a filter and its negation partition the frames: exactly one of the two programs keeps the frame.
\<close>

theorem negation_complements:
  assumes "resolve (items (compile_program n)) = Inr p" and "length p \<le> 10000"
    and "resolve (items (compile_program (NotE n))) = Inr q" and "length q \<le> 10000"
    and "78 \<le> length packet" and "mentions_port n \<Longrightarrow> is_ipv4 packet \<or> is_ipv6 packet"
  shows "vm_accepts q packet \<longleftrightarrow> \<not> vm_accepts p packet"
  using compiled_accepts [OF assms(1,2)] compiled_accepts [OF assms(3,4)] sem_holds [OF assms(5,6)]
  by simp

theorem negation_complements_witness:
  "vm_accepts [(0x28, 0, 0, 12), (0x15, 1, 0, 0x0800), (0x06, 0, 0, 0x40000), (0x06, 0, 0, 0)] (replicate 78 0)
     \<longleftrightarrow> \<not> vm_accepts [(0x28, 0, 0, 12), (0x15, 0, 1, 0x0800), (0x06, 0, 0, 0x40000), (0x06, 0, 0, 0)]
        (replicate 78 0)"
  by (rule negation_complements [OF resolve_ip(1) _ resolve_ip(2)]) simp_all

text \<open>
  A frame too short for an Ethernet header is rejected by every compiled filter, negated ones included: an out-of-bounds load ends the program with 0.
\<close>

theorem short_frames_rejected:
  assumes "compile_expression expr = Inr prog" and "length prog \<le> 10000" and "length packet < 14"
  shows "vm_run prog packet = Inr 0"
proof -
  from assms(1) obtain n where "resolve (items (compile_program n)) = Inr prog"
    by (auto simp: compile_expression_Inr)
  from compiled_runs [OF this assms(2)] sem_short [OF assms(3)] show ?thesis by simp
qed

theorem short_frames_rejected_witness:
  "vm_run [(0x28, 0, 0, 12), (0x15, 0, 1, 0x0800), (0x06, 0, 0, 0x40000), (0x06, 0, 0, 0)] [8] = Inr 0"
  by (rule short_frames_rejected [OF compile_ip]) simp_all

text \<open>
  C34: The exact size limit the compiler documents: a chain of ORed tcp primitives compiles
  with at most 21 operands and is rejected, with a jump offset above 255, from 22 on. It is a
  limit on jumps, not on programs: nesting to the left keeps the jumps short, and such
  expressions compile to programs of any length (only Python's recursion limit stops them),
  also beyond the 4096 instructions the kernel accepts.
\<close>

theorem or_chain_limit:
  "(if operands \<le> 20
    then \<exists>prog. compile_expression (unparse (tcp_chain operands)) = Inr prog
    else \<exists>d > 255. compile_expression (unparse (tcp_chain operands)) = Inl (BPFCompileError (JumpTooFar d))) \<and>
   (\<exists>expr prog. compile_expression expr = Inr prog \<and> operands < length prog \<and> \<not> bpf_check prog)"
proof -
  have "compile_expression (unparse (tcp_chain operands)) = resolve (items (compile_program (tcp_chain operands)))"
    by (rule compile_unparse [OF wf_tcp_chain])
  moreover have "\<exists>expr prog. compile_expression expr = Inr prog \<and> operands < length prog \<and> \<not> bpf_check prog"
  proof -
    obtain prog where "compile_expression (unparse (ladder (operands + 17))) = Inr prog"
        "length prog = 240 * (operands + 17) + 122"
      using ladder_compiles by blast
    moreover from this(2) have "operands < length prog" "\<not> bpf_check prog"
      by (simp_all add: bpf_check_def BPF_MAXINSNS_def)
    ultimately show ?thesis by blast
  qed
  ultimately show ?thesis
    using tcp_chain_resolves [of operands] program_resolves [of "tcp_chain operands"] by auto
qed

theorem or_chain_limit_witness:
  "(\<exists>prog. compile_expression (unparse (tcp_chain 20)) = Inr prog) \<and>
   (\<exists>d > 255. compile_expression (unparse (tcp_chain 21)) = Inl (BPFCompileError (JumpTooFar d))) \<and>
   (\<exists>expr prog. compile_expression expr = Inr prog \<and> \<not> bpf_check prog)"
  using or_chain_limit [of 20] or_chain_limit [of 21] by auto

text \<open>
  C35: What FilterProgram hands to setsockopt is read back by its receiver as the compiled
  program, instruction for instruction; the 16-bit length field is the one limit: of a program
  of 65536 or more instructions only the first (length mod 65536) arrive, without an error.
\<close>

theorem filter_program_handover:
  assumes "compile_expression expr = Inr prog"
  shows "\<exists>p. new_FilterProgram e addr prog = Inr p \<and>
     read_fprog e p = Some (take (length prog mod 65536) prog) \<and>
     (length prog < 65536 \<longrightarrow> read_fprog e p = Some prog)"
proof -
  from assms obtain ts n where
    c: "tokenize expr = Inr ts" "parse ts = Inr n" "resolve (items (compile_program n)) = Inr prog"
    by (auto simp: compile_expression_Inr)
  have "\<forall>i \<in> set prog. insn_fits i"
    by (rule compiled_fits [OF c(3) parse_wf_node [OF c(2) tokenize_wf [OF c(1)]]])
  from FilterProgram_handover [OF this, of e addr] show ?thesis by auto
qed

theorem filter_program_handover_witness:
  "\<exists>p. new_FilterProgram Little 4096 [(0x28, 0, 0, 12), (0x15, 0, 1, 0x0800), (0x06, 0, 0, 0x40000), (0x06, 0, 0, 0)] = Inr p \<and>
     read_fprog Little p = Some [(0x28, 0, 0, 12), (0x15, 0, 1, 0x0800), (0x06, 0, 0, 0x40000), (0x06, 0, 0, 0)]"
  using filter_program_handover [OF compile_ip, of Little 4096] by auto

text \<open>
  C36: Every expression tree the parser can build has a text that reads back as exactly that
  tree, through the lexer and the parser: printing with the parentheses the levels ask for
  loses no structure.
\<close>

theorem expression_roundtrip:
  assumes "wf_node n"
  shows "then_do (tokenize (unparse n)) parse = Inr n"
  by (rule read_unparse [OF assms])

theorem expression_roundtrip_witness:
  "then_do (tokenize (unparse (NotE (OrE (Host 3232235777 (Some Src)) (Port 53 None))))) parse =
     Inr (NotE (OrE (Host 3232235777 (Some Src)) (Port 53 None)))"
  by (rule expression_roundtrip) simp

text \<open>
  C37: The lexer loses and invents nothing: when it succeeds, the texts of its tokens
  concatenated are the expression without its white space, and each token has the form of its
  kind. When it fails, it names a character of the input at its position that cannot begin any
  token: no digit, letter, white space or parenthesis.
\<close>

theorem tokenize_faithful:
  "(\<forall>ts. tokenize expr = Inr ts \<longrightarrow>
      spell ts = filter (\<lambda>c. \<not> is_space c) expr \<and> list_all wf_token ts) \<and>
   (\<forall>err. tokenize expr = Inl err \<longrightarrow>
      (\<exists>p < length expr. err = BPFCompileError (UnexpectedCharacter (expr ! p) p) \<and>
        \<not> is_digit (expr ! p) \<and> \<not> is_alpha (expr ! p) \<and> \<not> is_space (expr ! p) \<and>
        expr ! p \<noteq> LPAREN \<and> expr ! p \<noteq> RPAREN))"
proof -
  have "\<exists>p < length expr. err = BPFCompileError (UnexpectedCharacter (expr ! p) p) \<and>
        \<not> is_digit (expr ! p) \<and> \<not> is_alpha (expr ! p) \<and> \<not> is_space (expr ! p) \<and>
        expr ! p \<noteq> LPAREN \<and> expr ! p \<noteq> RPAREN" if "tokenize expr = Inl err" for err
    using tokenize_error [OF that [unfolded tokenize_def]] by auto
  then show ?thesis using tokenize_spell [of expr] tokenize_wf [of expr] by blast
qed

theorem tokenize_faithful_witness:
  "(spell [word (ascii ''ip'')] = filter (\<lambda>c. \<not> is_space c) (ascii ''ip'') \<and>
     list_all wf_token [word (ascii ''ip'')]) \<and>
   (\<exists>p < length [33 :: pychar]. BPFCompileError (UnexpectedCharacter 33 0) =
      BPFCompileError (UnexpectedCharacter ([33] ! p) p) \<and> \<not> is_digit ([33] ! p))"
  using tokenize_faithful [of "ascii ''ip''"] tokenize_faithful [of "[33]"] ip_tokens(1) tokenize_bang by blast

text \<open>
  C38: The interpreter's loop always ends, because every instruction moves the program counter
  forward: a program of at most 10,000 instructions never hits the interpreter's step limit,
  on any frame.
\<close>

theorem interpreter_step_limit:
  assumes "length prog \<le> 10000"
  shows "vm_run prog packet \<noteq> Inl VM_TooManySteps"
  using vm_loop_steps [of prog packet vm_start] assms
  by (auto simp: vm_run_def vm_start_def split: sum.splits vm_error.splits)

theorem interpreter_step_limit_witness: "vm_run TCP_filter [1, 2, 3] \<noteq> Inl VM_TooManySteps"
  by (rule interpreter_step_limit) (simp add: TCP_filter_def)

text \<open>
  C39: port is not confined to IP: the branch for frames that are not IPv6 never tests for
  IPv4, so the program compiled for port 80 keeps a frame of an unrelated ethertype whose
  payload looks like an IPv4 header, while tcpdump's program for the same expression (the
  golden one of the tests) rejects it.
\<close>

theorem port_accepts_other_ethertypes:
  "\<exists>packet prog. compile_expression (unparse (Port 80 None)) = Inr prog \<and>
     \<not> is_ipv4 packet \<and> \<not> is_ipv6 packet \<and>
     vm_accepts prog packet \<and> vm_run tcpdump_port_80 packet = Inr 0"
proof -
  have "\<exists>prog. resolve (items (compile_program (Port 80 None))) = Inr prog"
    by (rule short_program_resolves) (simp add: port_length_def)
  then obtain prog where prog: "resolve (items (compile_program (Port 80 None))) = Inr prog" by blast
  moreover have "length prog \<le> 10000"
    using resolved_length [OF prog] by (simp add: port_length_def)
  ultimately have "vm_accepts prog lookalike" using compiled_accepts lookalike_matches by simp
  moreover have "compile_expression (unparse (Port 80 None)) = Inr prog"
    using read_unparse [of "Port 80 None"] prog by (auto simp: compile_expression_Inr then_do_Inr_iff)
  moreover have "\<not> is_ipv4 lookalike" "\<not> is_ipv6 lookalike"
    using lookalike_fields(1) by (auto simp: is_ipv4_def is_ipv6_def num_def field_def split: if_splits)
  ultimately show ?thesis
    using tcpdump_port_80_other [OF lookalike_fields(1)] by auto
qed

lemma overlong_port:
  assumes "list_all is_digit digits" and "4300 < length digits"
  shows "compile_expression (ascii ''port '' @ digits @ [SPACE]) = Inl IntDigitsError"
proof -
  let ?ts = "[word (ascii ''port''), \<lparr>token_kind = K_number, token_text = digits\<rparr>]"
  have "wf_token \<lparr>token_kind = K_number, token_text = digits\<rparr>"
    using assms by (auto simp: wf_token_def)
  then have "tokenize (render ?ts) = Inr ?ts" by (intro tokenize_render) (simp del: ascii_Cons)
  moreover have "render ?ts = ascii ''port '' @ digits @ [SPACE]"
    by (simp add: SPACE_def)
  moreover have "parse ?ts = Inl IntDigitsError"
    by (rule parse_overlong_port) (use assms in \<open>simp_all add: max_str_digits_def\<close>)
  ultimately show ?thesis by (simp add: compile_expression_def)
qed

text \<open>
  C40: Where Python's own limits show through. A port number of more than 4300 digits raises
  the ValueError of int() instead of BPFCompileError. And the recursion has no bound of its
  own: ip in k pairs of parentheses, which means and compiles to what ip does, needs at least
  4k + 9 calls open at once, compile_expression's own and the leaf helpers' included, and a
  chain of k + 1 ORed operands at least k + 6; with less room below Python's limit it is
  RecursionError, where the documentation has BPFCompileError. So 248 pairs of parentheses or
  996 operands fail under the default limit of 1000 even when nothing else is on the stack. In
  return there is a guarantee: an expression of n tokens never has more than 4n + 9 calls
  open, whether it parses or not, so with that room it never fails this way; n unclosed
  parentheses need exactly that many.
\<close>

theorem errors_that_escape:
  "(list_all is_digit digits \<and> 4300 < length digits \<longrightarrow>
      compile_expression (ascii ''port '' @ digits @ [SPACE]) = Inl IntDigitsError) \<and>
   compile_expression (render (nested_tokens k)) = compile_expression (ascii ''ip'') \<and>
   4 * k + 9 \<le> stack_depth (render (nested_tokens k)) \<and> k + 6 \<le> stack_depth (unparse (tcp_chain k)) \<and>
   (room < 4 * k + 9 \<longrightarrow> compile_within room (render (nested_tokens k)) = Inl RecursionError) \<and>
   (room < k + 6 \<longrightarrow> compile_within room (unparse (tcp_chain k)) = Inl RecursionError) \<and>
   (\<forall>ts. tokenize expr = Inr ts \<longrightarrow> stack_depth expr \<le> 4 * length ts + 9 \<and>
      (4 * length ts + 9 \<le> room \<longrightarrow> compile_within room expr \<noteq> Inl RecursionError)) \<and>
   stack_depth (render (replicate (Suc k) lparen)) = 4 * Suc k + 9"
  using overlong_port nested_compiles nested_depth [of k] tcp_chain_depth [of k] stack_depth_tokens [of expr]
    unclosed_depth [of k]
  by (simp add: compile_within_Inl) (meson le_trans not_le)

theorem errors_that_escape_witness:
  "compile_expression (ascii ''port '' @ replicate 4301 49 @ [SPACE]) = Inl IntDigitsError \<and>
   compile_within 1000 (render (nested_tokens 248)) = Inl RecursionError \<and> stack_depth (ascii ''ip'') \<le> 13"
proof -
  have "list_all is_digit (replicate 4301 49)" by (simp add: list_all_iff is_digit_def nd_zeros_def)
  then show ?thesis
    using errors_that_escape [of "replicate 4301 49" 248 1000 "ascii ''ip''"] ip_tokens(1) by fastforce
qed

end
